(* ===== verification/Prelude.thy ===== *)
theory Prelude
  imports Main "HOL-Library.Word" "HOL-Library.AList"
begin

text \<open>
  Shared vocabulary of the ceserver-pcileech development.

  \<^item> The machine types of the C++ code: every fixed-width integer is a word of that width;
    a signed C++ type is the same word read with \<^const>\<open>sint\<close>.
  \<^item> The little-endian byte image of an integer, as the two supported targets (x86-64 and
    AArch64) lay it out, with both round trips.
  \<^item> \<open>std::to_string\<close> and the hexadecimal stream output, as positional notation over a base,
    with the proof that a numeral determines its number.
  \<^item> \<open>std::unordered_map\<close> as an association list, with the library operations the code uses.
  \<^item> The faults a C++ function can end in instead of returning.
\<close>

unbundle bit_operations_syntax

named_theorems wire_simps \<open>byte images and their lengths\<close>
named_theorems umap_simps \<open>lookups after the operations of an unordered map\<close>


section \<open>Machine types\<close>

type_synonym byte = "8 word"
type_synonym u16 = "16 word"
type_synonym u32 = "32 word"
type_synonym u64 = "64 word"
type_synonym handle = "32 word"
type_synonym pid = "32 word"
type_synonym address = "64 word"

text \<open>
  How a call can fail to return: \<open>new char[n]\<close> with a negative \<open>n\<close> throws
  \<open>std::bad_array_new_length\<close>, which nothing catches; an access outside an allocated
  buffer or to a freed object is undefined behaviour; a blocking call may never be answered.
\<close>

datatype fault = Bad_array_new_length | Buffer_overflow | Use_after_free | Never_returns

text \<open>A signed 32-bit integer that is not negative, read as such and widened to \<^verbatim>\<open>size_t\<close>.\<close>

lemma sint_small:
  fixes w :: u32
  assumes "unat w < 2 ^ 31"
  shows "sint w = int (unat w)"
proof -
  have u: "uint w = int (unat w)" by simp
  have "int (unat w) < int (2 ^ 31)"
    using assms by (simp only: of_nat_less_iff)
  then have "0 \<le> uint w" "uint w < 2 ^ 31" by simp_all
  then have "signed_take_bit 31 (uint w) = uint w"
    by (intro signed_take_bit_int_eq_self) linarith+
  then have "sint w = uint w" by (simp add: sint_uint)
  then show ?thesis using u by (rule trans)
qed

lemma unat_ucast_u64 [simp]: "unat (ucast (w :: u32) :: u64) = unat w"
proof -
  have "unat w < 2 ^ 64"
    by (rule less_trans [OF unsigned_less]) simp
  then show ?thesis
    by (simp add: unsigned_ucast_eq take_bit_nat_eq_self)
qed

lemma unat_scast_small:
  fixes w :: u32
  assumes "unat w < 2 ^ 31"
  shows "unat (scast w :: u64) = unat w"
proof -
  have "(scast w :: u64) = word_of_int (sint w)" by (rule scast_eq)
  also have "\<dots> = ucast w" unfolding sint_small [OF assms] by simp
  finally have "unat (scast w :: u64) = unat (ucast w :: u64)" by simp
  also have "\<dots> = unat w" using assms by (simp add: unsigned_ucast_eq take_bit_eq_mod)
  finally show ?thesis .
qed


section \<open>Little-endian byte images\<close>

fun le_bytes :: "nat \<Rightarrow> 'a::len word \<Rightarrow> byte list" where
  "le_bytes 0 w = []"
| "le_bytes (Suc n) w = ucast w # le_bytes n (drop_bit 8 w)"

fun le_word :: "byte list \<Rightarrow> 'a::len word" where
  "le_word [] = 0"
| "le_word (b # bs) = ucast b OR push_bit 8 (le_word bs)"

lemma length_le_bytes [simp, wire_simps]: "length (le_bytes n w) = n"
  by (induction n arbitrary: w) auto

lemma le_word_le_bytes_take_bit:
  "le_word (le_bytes n w) = take_bit (8 * n) (w :: 'a::len word)"
proof (induction n arbitrary: w)
  case 0
  then show ?case by simp
next
  case (Suc n)
  show ?case
  proof (rule bit_word_eqI)
    fix k
    assume "k < LENGTH('a)"
    then show "bit (le_word (le_bytes (Suc n) w) :: 'a word) k \<longleftrightarrow> bit (take_bit (8 * Suc n) w) k"
      by (auto simp: Suc.IH bit_simps)
  qed
qed

lemma le_word_le_bytes:
  "8 * n = LENGTH('a) \<Longrightarrow> le_word (le_bytes n w) = (w :: 'a::len word)"
  by (simp add: le_word_le_bytes_take_bit)

lemma le_word_le_bytes_widths [simp]:
  "le_word (le_bytes 1 (b :: byte)) = b"
  "le_word (le_bytes 2 (h :: u16)) = h"
  "le_word (le_bytes 4 (d :: u32)) = d"
  "le_word (le_bytes 8 (q :: u64)) = q"
  by (rule le_word_le_bytes, simp)+

lemma le_bytes_inj:
  "8 * n = LENGTH('a) \<Longrightarrow> le_bytes n v = le_bytes n w \<longleftrightarrow> v = (w :: 'a::len word)"
  using le_word_le_bytes by metis

lemma le_word_high_bits:
  "8 * length bs \<le> k \<Longrightarrow> \<not> bit (le_word bs :: 'a::len word) k"
  by (induction bs arbitrary: k) (auto simp: bit_simps dest: bit_imp_le_length)

lemma le_bytes_le_word:
  assumes "8 * length bs \<le> LENGTH('a)"
  shows "le_bytes (length bs) (le_word bs :: 'a::len word) = bs"
  using assms
proof (induction bs)
  case Nil
  then show ?case by simp
next
  case (Cons b bs)
  have lo: "ucast (ucast b OR push_bit 8 (le_word bs) :: 'a word) = b"
    by (rule bit_word_eqI) (use Cons.prems in \<open>auto simp: bit_simps\<close>)
  have hi: "drop_bit 8 (ucast b OR push_bit 8 (le_word bs :: 'a word)) = le_word bs"
  proof (rule bit_word_eqI)
    fix k
    assume "k < LENGTH('a)"
    moreover have "\<not> bit (le_word bs :: 'a word) k" if "LENGTH('a) \<le> 8 + k"
      by (rule le_word_high_bits) (use Cons.prems that in simp)
    ultimately show "bit (drop_bit 8 (ucast b OR push_bit 8 (le_word bs :: 'a word))) k
        \<longleftrightarrow> bit (le_word bs :: 'a word) k"
      using bit_imp_le_length [of b "8 + k"] by (auto simp: bit_simps not_le)
  qed
  show ?case
    using Cons by (simp add: lo hi del: drop_bit_or)
qed

text \<open>The zero bytes of a value-initialised object, and a buffer overwritten from its start.\<close>

definition overwrite :: "byte list \<Rightarrow> byte list \<Rightarrow> byte list" where
  "overwrite buf bs = bs @ drop (length bs) buf"

lemma overwrite_full: "length bs = length buf \<Longrightarrow> overwrite buf bs = bs"
  by (simp add: overwrite_def)

lemma length_overwrite: "length bs \<le> length buf \<Longrightarrow> length (overwrite buf bs) = length buf"
  by (simp add: overwrite_def)

lemma overwrite_Nil [simp]: "overwrite buf [] = buf"
  by (simp add: overwrite_def)


section \<open>Characters and bytes\<close>

definition to_bytes :: "string \<Rightarrow> byte list" where
  "to_bytes s = map of_char s"

definition of_bytes :: "byte list \<Rightarrow> string" where
  "of_bytes bs = map (\<lambda>b. char_of (unat b)) bs"

lemma length_to_bytes [simp, wire_simps]: "length (to_bytes s) = length s"
  by (simp add: to_bytes_def)

lemma length_of_bytes [simp]: "length (of_bytes bs) = length bs"
  by (simp add: of_bytes_def)

lemma unat_of_char: "unat (of_char c :: byte) = of_char c"
proof -
  have "(of_char c :: byte) = word_of_nat (of_char c)"
    by (simp add: of_char_def)
  moreover have "(of_char c :: nat) < 256"
    by (rule nat_of_char_less_256)
  ultimately show ?thesis by (simp add: unat_of_nat take_bit_eq_mod)
qed

lemma of_bytes_to_bytes [simp]: "of_bytes (to_bytes s) = s"
  by (simp add: of_bytes_def to_bytes_def comp_def map_idI unat_of_char)

lemma to_bytes_Nil [simp]: "to_bytes [] = []"
  by (simp add: to_bytes_def)

lemma to_bytes_eq_Nil [simp]: "to_bytes s = [] \<longleftrightarrow> s = []"
  by (simp add: to_bytes_def)

lemma take_to_bytes: "take n (to_bytes s) = to_bytes (take n s)"
  by (simp add: to_bytes_def take_map)

text \<open>
  \<open>std::string(p)\<close> on a \<open>char *\<close> stops at the first NUL byte.
\<close>

definition c_str :: "byte list \<Rightarrow> string" where
  "c_str bs = of_bytes (takeWhile (\<lambda>b. b \<noteq> 0) bs)"

lemma takeWhile_upto: "x \<notin> set xs \<Longrightarrow> takeWhile (\<lambda>y. y \<noteq> x) (xs @ ys) = xs @ takeWhile (\<lambda>y. y \<noteq> x) ys"
  by (induction xs) auto

lemma to_bytes_no_nul:
  assumes "CHR 0x00 \<notin> set s"
  shows "0 \<notin> set (to_bytes s)"
proof
  assume "0 \<in> set (to_bytes s)"
  then obtain c where c: "c \<in> set s" "of_char c = (0 :: byte)"
    by (auto simp: to_bytes_def)
  then have "(of_char c :: nat) = 0"
    using unat_of_char [of c] by simp
  then have "c = char_of (0 :: nat)"
    by (metis char_of_char)
  with c(1) assms show False by (simp add: char_of_def)
qed

lemma c_str_to_bytes:
  assumes "CHR 0x00 \<notin> set s"
  shows "c_str (to_bytes s @ 0 # rest) = s"
  by (simp add: c_str_def takeWhile_upto [OF to_bytes_no_nul [OF assms]])


section \<open>Numerals\<close>

text \<open>
  Positional notation with the digits \<open>0-9a-f\<close>: base 10 is \<open>std::to_string\<close> of an
  unsigned integer, base 16 is what a stream prints under \<open>std::hex\<close>.
\<close>

definition digit_char :: "nat \<Rightarrow> char" where
  "digit_char d = (if d < 10 then char_of (48 + d) else char_of (87 + d))"

fun numeral_string :: "nat \<Rightarrow> nat \<Rightarrow> string" where
  "numeral_string b n =
     (if b < 2 \<or> n < b then [digit_char n] else numeral_string b (n div b) @ [digit_char (n mod b)])"

declare numeral_string.simps [simp del]

abbreviation to_string_nat :: "nat \<Rightarrow> string" where
  "to_string_nat \<equiv> numeral_string 10"

abbreviation to_hex :: "nat \<Rightarrow> string" where
  "to_hex \<equiv> numeral_string 16"

text \<open>\<open>std::to_string\<close> of a signed integer writes a minus sign first.\<close>

definition to_string_int :: "int \<Rightarrow> string" where
  "to_string_int i = (if i < 0 then CHR ''-'' # to_string_nat (nat (- i)) else to_string_nat (nat i))"

definition char_digit :: "char \<Rightarrow> nat" where
  "char_digit c = (if of_char c < (58 :: nat) then of_char c - 48 else of_char c - 87)"

definition string_numeral :: "nat \<Rightarrow> string \<Rightarrow> nat" where
  "string_numeral b s = foldl (\<lambda>n c. n * b + char_digit c) 0 s"

lemma char_digit_digit_char: "d < 16 \<Longrightarrow> char_digit (digit_char d) = d"
  by (auto simp: char_digit_def digit_char_def)

lemma string_numeral_numeral_string:
  "2 \<le> b \<Longrightarrow> b \<le> 16 \<Longrightarrow> string_numeral b (numeral_string b n) = n"
proof (induction b n rule: numeral_string.induct)
  case (1 b n)
  then show ?case
    by (cases "n < b")
      (auto simp: numeral_string.simps [of b n] string_numeral_def char_digit_digit_char
        less_le_trans [of _ b 16])
qed

lemma numeral_string_inj:
  "2 \<le> b \<Longrightarrow> b \<le> 16 \<Longrightarrow> numeral_string b m = numeral_string b n \<longleftrightarrow> m = n"
  by (metis string_numeral_numeral_string)

lemma numeral_string_digits:
  "2 \<le> b \<Longrightarrow> c \<in> set (numeral_string b n) \<Longrightarrow> \<exists>d < b. c = digit_char d"
proof (induction b n rule: numeral_string.induct)
  case (1 b n)
  show ?case
  proof (cases "n < b")
    case True
    with "1.prems" show ?thesis by (auto simp: numeral_string.simps [of b n])
  next
    case False
    with "1.prems" have "c \<in> set (numeral_string b (n div b)) \<or> c = digit_char (n mod b)"
      by (auto simp: numeral_string.simps [of b n])
    moreover have "\<exists>d < b. digit_char (n mod b) = digit_char d"
      using "1.prems" by (intro exI [of _ "n mod b"]) simp
    ultimately show ?thesis using False "1.IH" "1.prems" by auto
  qed
qed

lemma to_string_nat_no_sep:
  "CHR '':'' \<notin> set (to_string_nat n)" "CHR ''-'' \<notin> set (to_string_nat n)"
proof -
  have "of_char (digit_char d) = 48 + d" if "d < 10" for d
    using that by (simp add: digit_char_def)
  then have *: "of_char (digit_char d) \<noteq> (58 :: nat)" "of_char (digit_char d) \<noteq> (45 :: nat)"
    if "d < 10" for d
    using that by simp_all
  have "c \<noteq> CHR '':'' \<and> c \<noteq> CHR ''-''" if "c \<in> set (to_string_nat n)" for c
  proof -
    from that obtain d where "d < 10" "c = digit_char d"
      using numeral_string_digits [of 10] by auto
    with * [of d] show ?thesis by auto
  qed
  then show "CHR '':'' \<notin> set (to_string_nat n)" "CHR ''-'' \<notin> set (to_string_nat n)"
    by blast+
qed

lemma to_string_int_inj: "to_string_int i = to_string_int j \<longleftrightarrow> i = j"
  using to_string_nat_no_sep(2) numeral_string_inj [of 10]
  by (auto simp: to_string_int_def split: if_splits)
    (metis list.set_intros(1))+

lemma to_string_int_no_colon: "CHR '':'' \<notin> set (to_string_int i)"
  by (auto simp: to_string_int_def to_string_nat_no_sep)

text \<open>A separator that occurs in neither prefix splits a string uniquely.\<close>

lemma split_at_sep:
  assumes "c \<notin> set xs" "c \<notin> set ys"
  shows "xs @ c # xs' = ys @ c # ys' \<longleftrightarrow> xs = ys \<and> xs' = ys'"
  using assms
proof (induction xs arbitrary: ys)
  case Nil
  then show ?case by (cases ys) auto
next
  case (Cons x xs)
  then show ?case by (cases ys) auto
qed


section \<open>Repeated calls\<close>

text \<open>The results of \<open>n\<close> successive calls of an operation, and the state after them.\<close>

primrec repeat_call :: "('s \<Rightarrow> 'a \<times> 's) \<Rightarrow> nat \<Rightarrow> 's \<Rightarrow> 'a list \<times> 's" where
  "repeat_call f 0 s = ([], s)"
| "repeat_call f (Suc n) s = (let (x, s1) = f s; (xs, s2) = repeat_call f n s1 in (x # xs, s2))"

lemma repeat_call_append:
  "repeat_call f (m + n) s
     = (let (xs, s1) = repeat_call f m s; (ys, s2) = repeat_call f n s1 in (xs @ ys, s2))"
  by (induction m arbitrary: s) (auto simp: Let_def split: prod.splits)


section \<open>Unordered maps\<close>

text \<open>
  \<open>std::unordered_map\<close> as an association list with distinct keys. The order of the list has no
  meaning; code that iterates takes an order as a parameter.
  \<open>insert\<close> keeps the value of a key that is already there; \<open>m[k] = v\<close> replaces it;
  reading \<open>m[k]\<close> inserts a value-initialised element when the key is missing.
\<close>

type_synonym ('k, 'v) umap = "('k \<times> 'v) list"

definition umap_contains :: "('k, 'v) umap \<Rightarrow> 'k \<Rightarrow> bool" where
  "umap_contains m k \<longleftrightarrow> map_of m k \<noteq> None"

definition umap_insert :: "'k \<Rightarrow> 'v \<Rightarrow> ('k, 'v) umap \<Rightarrow> ('k, 'v) umap" where
  "umap_insert k v m = (if umap_contains m k then m else (k, v) # m)"

definition umap_assign :: "'k \<Rightarrow> 'v \<Rightarrow> ('k, 'v) umap \<Rightarrow> ('k, 'v) umap" where
  "umap_assign k v m = AList.update k v m"

definition umap_erase :: "'k \<Rightarrow> ('k, 'v) umap \<Rightarrow> ('k, 'v) umap" where
  "umap_erase k m = AList.delete k m"

definition umap_index :: "'v \<Rightarrow> 'k \<Rightarrow> ('k, 'v) umap \<Rightarrow> 'v \<times> ('k, 'v) umap" where
  "umap_index d k m = (case map_of m k of Some v \<Rightarrow> (v, m) | None \<Rightarrow> (d, (k, d) # m))"

definition umap_ok :: "('k, 'v) umap \<Rightarrow> bool" where
  "umap_ok m \<longleftrightarrow> distinct (map fst m)"

lemma map_of_umap_insert [umap_simps]:
  "map_of (umap_insert k v m) = (if umap_contains m k then map_of m else (map_of m)(k \<mapsto> v))"
  by (simp add: umap_insert_def)

lemma map_of_umap_assign [umap_simps]: "map_of (umap_assign k v m) = (map_of m)(k \<mapsto> v)"
  by (simp add: umap_assign_def update_conv')

lemma map_of_umap_erase [umap_simps]: "map_of (umap_erase k m) = (map_of m)(k := None)"
  by (simp add: umap_erase_def delete_conv')

lemma map_of_umap_index [umap_simps]:
  "fst (umap_index d k m) = (case map_of m k of Some v \<Rightarrow> v | None \<Rightarrow> d)"
  "map_of (snd (umap_index d k m))
     = (map_of m)(k \<mapsto> (case map_of m k of Some v \<Rightarrow> v | None \<Rightarrow> d))"
  by (auto simp: umap_index_def split: option.splits)

lemma umap_ok_ops [simp, intro]:
  "umap_ok []"
  "umap_ok m \<Longrightarrow> umap_ok (umap_insert k v m)"
  "umap_ok m \<Longrightarrow> umap_ok (umap_assign k v m)"
  "umap_ok m \<Longrightarrow> umap_ok (umap_erase k m)"
  "umap_ok m \<Longrightarrow> umap_ok (snd (umap_index d k m))"
  by (auto simp: umap_ok_def umap_insert_def umap_assign_def umap_erase_def umap_index_def
      umap_contains_def distinct_update distinct_delete map_of_eq_None_iff
      split: option.splits)

end
