(* ===== verification/Vmm.thy ===== *)
theory Vmm
  imports Prelude
begin

text \<open>
  The boundary to MemProcFS (\<^verbatim>\<open>PCILeechWrapper.h\<close>). The library behind it is not part of the
  repository: it is the parameter \<open>api\<close>, a record with one function per \<open>VMMDLL\<close> call over an
  unknown device state \<open>'d\<close>, and with the header's constants. Every call returns the next device
  state, so nothing is assumed about when or how the target's memory changes. A \<open>BOOL\<close> result is
  an integer, an output buffer is the list of the bytes or elements written to its start.

  The wrapper's methods convert \<open>BOOL\<close> to \<open>bool\<close>. The model also records each call with its
  arguments in a trace, in the order of the calls, as the mocks of the unit tests observe them.
\<close>


section \<open>Structures of the library that the program reads\<close>

type_synonym vmm_handle = "64 word"
type_synonym scatter_handle = "64 word"

record vadentry =
  vaStart :: u64
  vaEnd :: u64
  VadType :: u32
  Protection :: u32
  fImage :: bool
  fFile :: bool
  fPageFile :: bool
  fPrivateMemory :: bool
  fTeb :: bool
  fStack :: bool
  fHeap :: bool
  uszText :: "string option"

record threadentry =
  dwTID :: u32

record physmementry =
  pa :: u64
  cb :: u64

record physmem_map =
  dwVersion :: u32
  pMap :: "physmementry list"

datatype vmm_memorymodel =
    VMMDLL_MEMORYMODEL_NA
  | VMMDLL_MEMORYMODEL_X86
  | VMMDLL_MEMORYMODEL_X86PAE
  | VMMDLL_MEMORYMODEL_X64
  | VMMDLL_MEMORYMODEL_ARM64
  | VMMDLL_MEMORYMODEL_other nat

datatype allocation = PhysMemMap | PidBuffer | VadMap | ThreadMap | PromiseBuffer

record 'd vmmdll =
  api_Initialize :: "'d \<Rightarrow> string list \<Rightarrow> vmm_handle \<times> 'd"
  api_Close :: "'d \<Rightarrow> vmm_handle \<Rightarrow> 'd"
  api_Map_GetPhysMem :: "'d \<Rightarrow> vmm_handle \<Rightarrow> int \<times> physmem_map \<times> 'd"
  api_PidList :: "'d \<Rightarrow> vmm_handle \<Rightarrow> bool \<Rightarrow> u64 \<Rightarrow> int \<times> u32 list \<times> u64 \<times> 'd"
  api_Map_GetVadU :: "'d \<Rightarrow> vmm_handle \<Rightarrow> u32 \<Rightarrow> bool \<Rightarrow> int \<times> vadentry list \<times> 'd"
  api_MemReadEx :: "'d \<Rightarrow> vmm_handle \<Rightarrow> u32 \<Rightarrow> u64 \<Rightarrow> u32 \<Rightarrow> u64 \<Rightarrow> int \<times> byte list \<times> u32 \<times> 'd"
  api_MemWrite :: "'d \<Rightarrow> vmm_handle \<Rightarrow> u32 \<Rightarrow> u64 \<Rightarrow> byte list \<Rightarrow> u32 \<Rightarrow> int \<times> 'd"
  api_ProcessGetInformationString :: "'d \<Rightarrow> vmm_handle \<Rightarrow> u32 \<Rightarrow> u32 \<Rightarrow> string option \<times> 'd"
  api_Map_GetThread :: "'d \<Rightarrow> vmm_handle \<Rightarrow> u32 \<Rightarrow> int \<times> threadentry list \<times> 'd"
  api_ProcessGetInformation :: "'d \<Rightarrow> vmm_handle \<Rightarrow> u32 \<Rightarrow> int \<times> vmm_memorymodel \<times> 'd"
  api_Scatter_Initialize :: "'d \<Rightarrow> vmm_handle \<Rightarrow> u32 \<Rightarrow> u64 \<Rightarrow> scatter_handle \<times> 'd"
  api_Scatter_Prepare :: "'d \<Rightarrow> scatter_handle \<Rightarrow> u64 \<Rightarrow> u32 \<Rightarrow> int \<times> 'd"
  api_Scatter_Execute :: "'d \<Rightarrow> scatter_handle \<Rightarrow> int \<times> 'd"
  api_Scatter_Read :: "'d \<Rightarrow> scatter_handle \<Rightarrow> u64 \<Rightarrow> u32 \<Rightarrow> int \<times> byte list \<times> u32 \<times> 'd"
  api_Scatter_Clear :: "'d \<Rightarrow> scatter_handle \<Rightarrow> u32 \<Rightarrow> u64 \<Rightarrow> int \<times> 'd"
  api_Scatter_CloseHandle :: "'d \<Rightarrow> scatter_handle \<Rightarrow> 'd"
  VMMDLL_FLAG_NOCACHE :: u64
  VMMDLL_FLAG_NOCACHEPUT :: u64
  VMMDLL_FLAG_ZEROPAD_ON_FAIL :: u64
  VMMDLL_MAP_PHYSMEM_VERSION :: u32
  VMMDLL_OPT_STRING_PATH_USER_IMAGE :: u32

datatype vmm_call =
    Call_Initialize "string list" vmm_handle
  | Call_Close vmm_handle
  | Call_Map_GetPhysMem vmm_handle
  | Call_PidList vmm_handle bool u64
  | Call_Map_GetVadU vmm_handle u32 bool
  | Call_MemReadEx vmm_handle u32 u64 u32 u64
  | Call_MemWrite vmm_handle u32 u64 "byte list" u32
  | Call_ProcessGetInformationString vmm_handle u32 u32
  | Call_MemFree allocation
  | Call_Map_GetThread vmm_handle u32
  | Call_ProcessGetInformation vmm_handle u32
  | Call_Scatter_Initialize vmm_handle u32 u64 scatter_handle
  | Call_Scatter_Prepare scatter_handle u64 u32
  | Call_Scatter_Execute scatter_handle
  | Call_Scatter_Read scatter_handle u64 u32
  | Call_Scatter_Clear scatter_handle u32 u64
  | Call_Scatter_CloseHandle scatter_handle

record 'd device =
  dev :: 'd
  calls :: "vmm_call list"

definition called :: "'d device \<Rightarrow> vmm_call \<Rightarrow> 'd \<Rightarrow> 'd device" where
  "called D c d = \<lparr>dev = d, calls = calls D @ [c]\<rparr>"

lemma called_sel [simp]: "dev (called D c d) = d" "calls (called D c d) = calls D @ [c]"
  by (simp_all add: called_def)


section \<open>The wrapper's methods\<close>

definition VMMDLL_Close :: "'d vmmdll \<Rightarrow> 'd device \<Rightarrow> vmm_handle \<Rightarrow> 'd device" where
  "VMMDLL_Close api D h = called D (Call_Close h) (api_Close api (dev D) h)"

definition VMMDLL_Initialize ::
    "'d vmmdll \<Rightarrow> 'd device \<Rightarrow> string list \<Rightarrow> vmm_handle \<times> 'd device" where
  "VMMDLL_Initialize api D argv =
     (let (h, d) = api_Initialize api (dev D) argv in (h, called D (Call_Initialize argv h) d))"

definition VMMDLL_Map_GetPhysMem ::
    "'d vmmdll \<Rightarrow> 'd device \<Rightarrow> vmm_handle \<Rightarrow> bool \<times> physmem_map \<times> 'd device" where
  "VMMDLL_Map_GetPhysMem api D h =
     (let (r, m, d) = api_Map_GetPhysMem api (dev D) h
      in (r \<noteq> 0, m, called D (Call_Map_GetPhysMem h) d))"

definition VMMDLL_PidList ::
    "'d vmmdll \<Rightarrow> 'd device \<Rightarrow> vmm_handle \<Rightarrow> bool \<Rightarrow> u64 \<Rightarrow> bool \<times> u32 list \<times> u64 \<times> 'd device" where
  "VMMDLL_PidList api D h has_buffer n =
     (let (r, pids, n', d) = api_PidList api (dev D) h has_buffer n
      in (r \<noteq> 0, pids, n', called D (Call_PidList h has_buffer n) d))"

definition VMMDLL_Map_GetVadU ::
    "'d vmmdll \<Rightarrow> 'd device \<Rightarrow> vmm_handle \<Rightarrow> u32 \<Rightarrow> bool \<Rightarrow> bool \<times> vadentry list \<times> 'd device" where
  "VMMDLL_Map_GetVadU api D h pid identify =
     (let (r, m, d) = api_Map_GetVadU api (dev D) h pid identify
      in (r \<noteq> 0, m, called D (Call_Map_GetVadU h pid identify) d))"

definition VMMDLL_MemReadEx ::
    "'d vmmdll \<Rightarrow> 'd device \<Rightarrow> vmm_handle \<Rightarrow> u32 \<Rightarrow> u64 \<Rightarrow> u32 \<Rightarrow> u64
       \<Rightarrow> bool \<times> byte list \<times> u32 \<times> 'd device" where
  "VMMDLL_MemReadEx api D h pid a n flags =
     (let (r, bs, k, d) = api_MemReadEx api (dev D) h pid a n flags
      in (r \<noteq> 0, bs, k, called D (Call_MemReadEx h pid a n flags) d))"

definition VMMDLL_MemWrite ::
    "'d vmmdll \<Rightarrow> 'd device \<Rightarrow> vmm_handle \<Rightarrow> u32 \<Rightarrow> u64 \<Rightarrow> byte list \<Rightarrow> u32 \<Rightarrow> bool \<times> 'd device" where
  "VMMDLL_MemWrite api D h pid a buf n =
     (let (r, d) = api_MemWrite api (dev D) h pid a buf n
      in (r \<noteq> 0, called D (Call_MemWrite h pid a buf n) d))"

definition VMMDLL_ProcessGetInformationString ::
    "'d vmmdll \<Rightarrow> 'd device \<Rightarrow> vmm_handle \<Rightarrow> u32 \<Rightarrow> u32 \<Rightarrow> string option \<times> 'd device" where
  "VMMDLL_ProcessGetInformationString api D h pid opt =
     (let (s, d) = api_ProcessGetInformationString api (dev D) h pid opt
      in (s, called D (Call_ProcessGetInformationString h pid opt) d))"

definition VMMDLL_MemFree :: "'d device \<Rightarrow> allocation \<Rightarrow> 'd device" where
  "VMMDLL_MemFree D m = called D (Call_MemFree m) (dev D)"

definition VMMDLL_Map_GetThread ::
    "'d vmmdll \<Rightarrow> 'd device \<Rightarrow> vmm_handle \<Rightarrow> u32 \<Rightarrow> bool \<times> threadentry list \<times> 'd device" where
  "VMMDLL_Map_GetThread api D h pid =
     (let (r, m, d) = api_Map_GetThread api (dev D) h pid
      in (r \<noteq> 0, m, called D (Call_Map_GetThread h pid) d))"

definition VMMDLL_ProcessGetInformation ::
    "'d vmmdll \<Rightarrow> 'd device \<Rightarrow> vmm_handle \<Rightarrow> u32 \<Rightarrow> bool \<times> vmm_memorymodel \<times> 'd device" where
  "VMMDLL_ProcessGetInformation api D h pid =
     (let (r, m, d) = api_ProcessGetInformation api (dev D) h pid
      in (r \<noteq> 0, m, called D (Call_ProcessGetInformation h pid) d))"

definition VMMDLL_Scatter_Initialize ::
    "'d vmmdll \<Rightarrow> 'd device \<Rightarrow> vmm_handle \<Rightarrow> u32 \<Rightarrow> u64 \<Rightarrow> scatter_handle \<times> 'd device" where
  "VMMDLL_Scatter_Initialize api D h pid flags =
     (let (s, d) = api_Scatter_Initialize api (dev D) h pid flags
      in (s, called D (Call_Scatter_Initialize h pid flags s) d))"

definition VMMDLL_Scatter_Prepare ::
    "'d vmmdll \<Rightarrow> 'd device \<Rightarrow> scatter_handle \<Rightarrow> u64 \<Rightarrow> u32 \<Rightarrow> bool \<times> 'd device" where
  "VMMDLL_Scatter_Prepare api D s a n =
     (let (r, d) = api_Scatter_Prepare api (dev D) s a n
      in (r \<noteq> 0, called D (Call_Scatter_Prepare s a n) d))"

definition VMMDLL_Scatter_Execute ::
    "'d vmmdll \<Rightarrow> 'd device \<Rightarrow> scatter_handle \<Rightarrow> bool \<times> 'd device" where
  "VMMDLL_Scatter_Execute api D s =
     (let (r, d) = api_Scatter_Execute api (dev D) s in (r \<noteq> 0, called D (Call_Scatter_Execute s) d))"

definition VMMDLL_Scatter_Read ::
    "'d vmmdll \<Rightarrow> 'd device \<Rightarrow> scatter_handle \<Rightarrow> u64 \<Rightarrow> u32 \<Rightarrow> bool \<times> byte list \<times> u32 \<times> 'd device" where
  "VMMDLL_Scatter_Read api D s a n =
     (let (r, bs, k, d) = api_Scatter_Read api (dev D) s a n
      in (r \<noteq> 0, bs, k, called D (Call_Scatter_Read s a n) d))"

definition VMMDLL_Scatter_Clear ::
    "'d vmmdll \<Rightarrow> 'd device \<Rightarrow> scatter_handle \<Rightarrow> u32 \<Rightarrow> u64 \<Rightarrow> bool \<times> 'd device" where
  "VMMDLL_Scatter_Clear api D s pid flags =
     (let (r, d) = api_Scatter_Clear api (dev D) s pid flags
      in (r \<noteq> 0, called D (Call_Scatter_Clear s pid flags) d))"

definition VMMDLL_Scatter_CloseHandle ::
    "'d vmmdll \<Rightarrow> 'd device \<Rightarrow> scatter_handle \<Rightarrow> 'd device" where
  "VMMDLL_Scatter_CloseHandle api D s =
     called D (Call_Scatter_CloseHandle s) (api_Scatter_CloseHandle api (dev D) s)"

lemmas vmm_wrapper_defs =
  VMMDLL_Close_def VMMDLL_Initialize_def VMMDLL_Map_GetPhysMem_def VMMDLL_PidList_def
  VMMDLL_Map_GetVadU_def VMMDLL_MemReadEx_def VMMDLL_MemWrite_def
  VMMDLL_ProcessGetInformationString_def VMMDLL_MemFree_def VMMDLL_Map_GetThread_def
  VMMDLL_ProcessGetInformation_def VMMDLL_Scatter_Initialize_def VMMDLL_Scatter_Prepare_def
  VMMDLL_Scatter_Execute_def VMMDLL_Scatter_Read_def VMMDLL_Scatter_Clear_def
  VMMDLL_Scatter_CloseHandle_def

section \<open>A concrete device\<close>

text \<open>
  An instance of the parameter, to evaluate definitions on: one process with one mapped region, whose
  memory is the device's state, addressed from zero. Nothing in the development assumes that the
  library behaves like this.
\<close>

definition flat_vad :: vadentry where
  "flat_vad =
     \<lparr>vaStart = 0x1000, vaEnd = 0x1FFF, VadType = 2, Protection = 6, fImage = True, fFile = False, fPageFile = False,
      fPrivateMemory = False, fTeb = False, fStack = False, fHeap = False, uszText = Some ''a.exe''\<rparr>"

definition flat_read :: "byte list \<Rightarrow> u64 \<Rightarrow> u32 \<Rightarrow> int \<times> byte list \<times> u32 \<times> byte list" where
  "flat_read d a n = (let bs = take (unat n) (drop (unat a) d) in (1, bs, word_of_nat (length bs), d))"

definition flat_api :: "byte list vmmdll" where
  "flat_api =
     \<lparr>api_Initialize = (\<lambda>d argv. (1, d)),
      api_Close = (\<lambda>d h. d),
      api_Map_GetPhysMem = (\<lambda>d h. (1, \<lparr>dwVersion = 2, pMap = [\<lparr>pa = 0x1000, cb = 0x9F000\<rparr>]\<rparr>, d)),
      api_PidList = (\<lambda>d h has_buffer n. (1, if has_buffer then [4] else [], 1, d)),
      api_Map_GetVadU = (\<lambda>d h pid identify. (1, [flat_vad], d)),
      api_MemReadEx = (\<lambda>d h pid a n flags. flat_read d a n),
      api_MemWrite = (\<lambda>d h pid a buf n. (1, take (unat a) d @ buf @ drop (unat a + length buf) d)),
      api_ProcessGetInformationString = (\<lambda>d h pid opt. (Some ''a.exe'', d)),
      api_Map_GetThread = (\<lambda>d h pid. (1, [\<lparr>dwTID = 8\<rparr>], d)),
      api_ProcessGetInformation = (\<lambda>d h pid. (1, VMMDLL_MEMORYMODEL_X64, d)),
      api_Scatter_Initialize = (\<lambda>d h pid flags. (1, d)),
      api_Scatter_Prepare = (\<lambda>d s a n. (1, d)),
      api_Scatter_Execute = (\<lambda>d s. (1, d)),
      api_Scatter_Read = (\<lambda>d s a n. flat_read d a n),
      api_Scatter_Clear = (\<lambda>d s pid flags. (1, d)),
      api_Scatter_CloseHandle = (\<lambda>d s. d),
      VMMDLL_FLAG_NOCACHE = 1, VMMDLL_FLAG_NOCACHEPUT = 0x100, VMMDLL_FLAG_ZEROPAD_ON_FAIL = 2,
      VMMDLL_MAP_PHYSMEM_VERSION = 2, VMMDLL_OPT_STRING_PATH_USER_IMAGE = 3\<rparr>"

definition flat_device :: "byte list device" where
  "flat_device = \<lparr>dev = [10, 11, 12, 13, 14, 15, 16, 17], calls = []\<rparr>"

end
