(* ===== verification/MemoryTypes.thy ===== *)
theory MemoryTypes
  imports Vmm
begin

text \<open>
  The data of \<^verbatim>\<open>Memory.h\<close> that travels between the components: process and thread descriptions,
  memory regions with the constructor that derives them from a VAD entry, and the memory model
  of a process.
\<close>


section \<open>Processes and threads\<close>

record ProcessInfo =
  pi_name :: string
  pi_pid :: pid

record ThreadInfo =
  ti_threadentry :: threadentry


section \<open>Memory regions\<close>

record MemoryRegion =
  mr_vadEntry :: vadentry
  mr_startAddr :: u64
  mr_regionSize :: u32
  mr_fileOffset :: u32
  mr_part :: u32
  mr_protection :: u32
  mr_privateMemory :: bool
  mr_vadType :: u32
  mr_name :: string

definition region_name :: "vadentry \<Rightarrow> string" where
  "region_name e =
     (let name = (case uszText e of Some t \<Rightarrow> t | None \<Rightarrow> '''')
      in if name = '''' then
           (if fHeap e then ''<heap>''
            else if fStack e then ''<stack>''
            else if fPageFile e then ''<pagefile>''
            else if fFile e then ''<file>''
            else if fImage e then ''<image>''
            else if fTeb e then ''<teb>''
            else ''<unknown>'')
         else name)"

text \<open>
  \<open>regionSize\<close> is an \<^verbatim>\<open>int32_t\<close> initialised with a 64-bit difference: the conversion keeps the
  low 32 bits.
\<close>

definition MemoryRegion_of :: "vadentry \<Rightarrow> MemoryRegion" where
  "MemoryRegion_of e =
     \<lparr>mr_vadEntry = e, mr_startAddr = vaStart e, mr_regionSize = ucast (vaEnd e - vaStart e + 1),
      mr_fileOffset = 0, mr_part = 0, mr_protection = Protection e,
      mr_privateMemory = fPrivateMemory e, mr_vadType = VadType e, mr_name = region_name e\<rparr>"

lemma MemoryRegion_of_sel [simp]:
  "mr_vadEntry (MemoryRegion_of e) = e"
  "mr_startAddr (MemoryRegion_of e) = vaStart e"
  "mr_name (MemoryRegion_of e) = region_name e"
  "mr_part (MemoryRegion_of e) = 0"
  "mr_fileOffset (MemoryRegion_of e) = 0"
  by (simp_all add: MemoryRegion_of_def)

lemma region_name_nonempty: "region_name e \<noteq> ''''"
  by (simp add: region_name_def Let_def)

lemma region_name_text: "uszText e = Some t \<Longrightarrow> t \<noteq> '''' \<Longrightarrow> region_name e = t"
  by (simp add: region_name_def)

text \<open>
  What a 32-bit signed size says of a 64-bit extent, after the sign extension to \<^verbatim>\<open>uint64_t\<close>
  that the replies apply to it.
\<close>

lemma uint_scast_ucast: "uint (scast (ucast (x :: u64) :: u32) :: u64) = signed_take_bit 31 (uint x) mod 2 ^ 64"
  by transfer (simp add: take_bit_eq_mod signed_take_bit_take_bit)

lemma sign_range:
  fixes s u :: int
  assumes "s mod 2 ^ 64 = u" "- (2 ^ 31) \<le> s" "s < 2 ^ 31" "u < 2 ^ 63"
  shows "u < 2 ^ 31"
proof (cases "s < 0")
  case True
  then have "(s + 2 ^ 64) mod 2 ^ 64 = s + 2 ^ 64"
    using assms(2) by (intro mod_pos_pos_trivial) simp_all
  with assms True show ?thesis by simp
next
  case False
  then show ?thesis using assms by simp
qed

lemma scast_ucast_exact:
  fixes x :: u64
  assumes "x < 2 ^ 63"
  shows "scast (ucast x :: u32) = x \<longleftrightarrow> x < 2 ^ 31"
proof -
  let ?s = "signed_take_bit 31 (uint x)"
  have lo: "- (2 ^ 31) \<le> ?s" and hi: "?s < 2 ^ 31"
    using signed_take_bit_int_greater_eq_minus_exp [of 31 "uint x"] signed_take_bit_int_less_exp [of 31 "uint x"] by simp_all
  have X: "0 \<le> uint x" "uint x < 2 ^ 63"
    using assms by (simp_all add: word_less_def)
  have "scast (ucast x :: u32) = x \<longleftrightarrow> ?s mod 2 ^ 64 = uint x"
    unfolding uint_scast_ucast [symmetric] by (rule word_uint_eq_iff)
  also have "\<dots> \<longleftrightarrow> uint x < 2 ^ 31"
  proof
    assume "?s mod 2 ^ 64 = uint x"
    then show "uint x < 2 ^ 31" using lo hi X(2) by (rule sign_range)
  next
    assume "uint x < 2 ^ 31"
    then have "?s = uint x" using X(1) by (intro signed_take_bit_int_eq_self) linarith+
    then show "?s mod 2 ^ 64 = uint x" using X by simp
  qed
  also have "\<dots> \<longleftrightarrow> x < 2 ^ 31" by (simp add: word_less_def)
  finally show ?thesis .
qed


section \<open>The memory model of a process\<close>

datatype MemoryModel =
    MemoryModel_UNKNOWN
  | MemoryModel_NA
  | MemoryModel_X86PAE
  | MemoryModel_ARM64
  | MemoryModel_X64
  | MemoryModel_X86

definition MemoryModelToString :: "MemoryModel \<Rightarrow> string" where
  "MemoryModelToString m =
     (case m of MemoryModel_UNKNOWN \<Rightarrow> ''UNKNOWN'' | MemoryModel_NA \<Rightarrow> ''NA''
      | MemoryModel_X86PAE \<Rightarrow> ''X86PAE'' | MemoryModel_ARM64 \<Rightarrow> ''ARM64''
      | MemoryModel_X64 \<Rightarrow> ''X64'' | MemoryModel_X86 \<Rightarrow> ''X86'')"

text \<open>
  The size of a region is kept in a signed 32-bit field and sign-extended in the replies. For a region
  of less than \<open>2 ^ 63\<close> bytes the reported size is the extent of the VAD entry exactly when the
  region is smaller than \<open>2 ^ 31\<close> bytes.
\<close>

lemma region_size_exact:
  assumes "vaEnd e - vaStart e + 1 < 2 ^ 63"
  shows "(scast (mr_regionSize (MemoryRegion_of e)) :: u64) = vaEnd e - vaStart e + 1
    \<longleftrightarrow> vaEnd e - vaStart e + 1 < 2 ^ 31"
  using scast_ucast_exact [OF assms] by (simp add: MemoryRegion_of_def)

end
