(* ===== verification/Memory.thy ===== *)
theory Memory
  imports MemoryTypes
begin

text \<open>
  \<^verbatim>\<open>Memory.cpp\<close> without the read path: the life cycle of the adapter (the memory map file, opening
  the device, starting and stopping the dispatch thread), the snapshots, writing, and the memory
  model of a process. The read path with its backlog is the theory \<open>Backlog\<close>.
\<close>


section \<open>The adapter\<close>

text \<open>
  \<open>dispatchThread\<close> is a pointer: null, to the running thread, or to the thread object that
  \<open>shutdown\<close> has deleted. \<open>mmapFile\<close> is the content of the file at \<open>mmapPath\<close>, if there is one.
\<close>

datatype thread_ptr = Null | Running | Dangling

record 'd memory =
  hVMM :: vmm_handle
  mmapPath :: string
  mmapFile :: "string option"
  dispatchThread :: thread_ptr
  bStop :: bool
  device :: "'d device"

definition new_Memory :: "string \<Rightarrow> string option \<Rightarrow> 'd device \<Rightarrow> 'd memory" where
  "new_Memory path file D =
     \<lparr>hVMM = 0, mmapPath = path, mmapFile = file, dispatchThread = Null, bStop = False, device = D\<rparr>"

text \<open>
  One line per physical memory range. \<open>std::hex\<close> stays set on the stream, so only the first
  index is printed in decimal; \<open>setw(4)\<close> with fill character 0 applies to the index alone.
\<close>

definition pad4 :: "string \<Rightarrow> string" where
  "pad4 s = replicate (4 - length s) CHR ''0'' @ s"

definition map_line :: "bool \<Rightarrow> nat \<Rightarrow> physmementry \<Rightarrow> string" where
  "map_line hex i e =
     pad4 (numeral_string (if hex then 16 else 10) i) @ ''  '' @ to_hex (unat (pa e)) @ ''  -  ''
     @ to_hex (unat (pa e + cb e - 1)) @ ''  ->  '' @ to_hex (unat (pa e)) @ [CHR 0x0A]"

fun map_lines :: "bool \<Rightarrow> nat \<Rightarrow> physmementry list \<Rightarrow> string" where
  "map_lines hex i [] = ''''"
| "map_lines hex i (e # es) = map_line hex i e @ map_lines True (Suc i) es"

text \<open>
  What writing a file through \<^verbatim>\<open>std::ofstream\<close> comes to is decided by the system: the file could not be opened, which leaves
  it as it was, only a part of the text could be written, or all of it was. The stream is never asked
  which: \<open>generateMemoryMap\<close> succeeds in every case.
\<close>

datatype file_outcome = Not_opened | Cut_short nat | Written

definition ofstream_write :: "file_outcome \<Rightarrow> string option \<Rightarrow> string \<Rightarrow> string option" where
  "ofstream_write w file txt = (case w of Not_opened \<Rightarrow> file | Cut_short n \<Rightarrow> Some (take n txt) | Written \<Rightarrow> Some txt)"

definition generateMemoryMap :: "'d vmmdll \<Rightarrow> file_outcome \<Rightarrow> 'd memory \<Rightarrow> bool \<times> 'd memory" where
  "generateMemoryMap api w M =
     (let (h, D) = VMMDLL_Initialize api (device M)
            ['''', ''-v'', ''-printf'', ''-device'', ''fpga://algo=0'']
      in if h = 0 then (False, M\<lparr>device := D\<rparr>)
         else
           (let (ok, m, D) = VMMDLL_Map_GetPhysMem api D h
            in if \<not> ok then (False, M\<lparr>device := VMMDLL_Close api D h\<rparr>)
               else if dwVersion m \<noteq> VMMDLL_MAP_PHYSMEM_VERSION api then
                 (False, M\<lparr>device := VMMDLL_Close api (VMMDLL_MemFree D PhysMemMap) h\<rparr>)
               else if pMap m = [] then
                 (False, M\<lparr>device := VMMDLL_Close api (VMMDLL_MemFree D PhysMemMap) h\<rparr>)
               else
                 (True, M\<lparr>mmapFile := ofstream_write w (mmapFile M) (map_lines False 0 (pMap m)),
                          device := VMMDLL_Close api (VMMDLL_MemFree D PhysMemMap) h\<rparr>)))"

definition start :: "'d memory \<Rightarrow> 'd memory" where
  "start M = (if dispatchThread M = Null then M\<lparr>bStop := False, dispatchThread := Running\<rparr> else M)"

definition init :: "'d vmmdll \<Rightarrow> file_outcome \<Rightarrow> 'd memory \<Rightarrow> bool \<times> 'd memory" where
  "init api w M =
     (let (ok, M) = generateMemoryMap api w M
      in if \<not> ok then (False, M)
         else
           (let (h, D) = VMMDLL_Initialize api (device M)
                  [''-printf'', ''-v'', ''-device'', ''fpga'', ''-memmap'', mmapPath M]
            in (h \<noteq> 0, start (M\<lparr>hVMM := h, device := D\<rparr>))))"

text \<open>
  \<open>shutdown\<close> joins and deletes the thread but leaves the pointer: calling it again dereferences
  a deleted object.
\<close>

definition shutdown :: "'d memory \<Rightarrow> fault + 'd memory" where
  "shutdown M =
     (let M = M\<lparr>bStop := True\<rparr>
      in case dispatchThread M of
           Null \<Rightarrow> Inr M
         | Running \<Rightarrow> Inr (M\<lparr>dispatchThread := Dangling\<rparr>)
         | Dangling \<Rightarrow> Inl Use_after_free)"

definition delete_Memory :: "'d vmmdll \<Rightarrow> 'd memory \<Rightarrow> fault + 'd memory" where
  "delete_Memory api M =
     (case shutdown M of
        Inl e \<Rightarrow> Inl e
      | Inr M \<Rightarrow> Inr (if hVMM M \<noteq> 0 then M\<lparr>device := VMMDLL_Close api (device M) (hVMM M)\<rparr> else M))"


section \<open>Snapshots\<close>

text \<open>
  The first call asks for the number of processes, the second fills a buffer of that many
  elements; the loop reads as many elements as the second call reports.
\<close>

fun process_infos ::
    "'d vmmdll \<Rightarrow> vmm_handle \<Rightarrow> 'd device \<Rightarrow> u32 list \<Rightarrow> ProcessInfo list \<times> 'd device" where
  "process_infos api h D [] = ([], D)"
| "process_infos api h D (p # ps) =
     (let (name, D) = VMMDLL_ProcessGetInformationString api D h p (VMMDLL_OPT_STRING_PATH_USER_IMAGE api);
          (infos, D) = process_infos api h D ps
      in (case name of None \<Rightarrow> infos | Some n \<Rightarrow> \<lparr>pi_name = n, pi_pid = p\<rparr> # infos, D))"

definition getProcessSnapshot ::
    "'d vmmdll \<Rightarrow> 'd memory \<Rightarrow> fault + (ProcessInfo list \<times> 'd memory)" where
  "getProcessSnapshot api M =
     (let (ok, _, n, D) = VMMDLL_PidList api (device M) (hVMM M) False 0
      in if \<not> ok then Inr ([], M\<lparr>device := D\<rparr>)
         else
           (let (ok, buf, n, D) = VMMDLL_PidList api D (hVMM M) True n
            in if \<not> ok then Inr ([], M\<lparr>device := D\<rparr>)
               else if length buf < unat n then Inl Buffer_overflow
               else
                 (let (infos, D) = process_infos api (hVMM M) D (take (unat n) buf)
                  in Inr (infos, M\<lparr>device := VMMDLL_MemFree D PidBuffer\<rparr>))))"

definition getModuleSnapshot :: "'d vmmdll \<Rightarrow> 'd memory \<Rightarrow> pid \<Rightarrow> MemoryRegion list \<times> 'd memory" where
  "getModuleSnapshot api M p =
     (let (ok, m, D) = VMMDLL_Map_GetVadU api (device M) (hVMM M) p True
      in if \<not> ok then ([], M\<lparr>device := D\<rparr>)
         else (map MemoryRegion_of m, M\<lparr>device := VMMDLL_MemFree D VadMap\<rparr>))"

definition getThreadSnapshot :: "'d vmmdll \<Rightarrow> 'd memory \<Rightarrow> pid \<Rightarrow> ThreadInfo list \<times> 'd memory" where
  "getThreadSnapshot api M p =
     (let (ok, m, D) = VMMDLL_Map_GetThread api (device M) (hVMM M) p
      in if \<not> ok then ([], M\<lparr>device := D\<rparr>)
         else (map (\<lambda>e. \<lparr>ti_threadentry = e\<rparr>) m, M\<lparr>device := VMMDLL_MemFree D ThreadMap\<rparr>))"


section \<open>Writing, and the memory model\<close>

text \<open>The result is a \<^verbatim>\<open>size_t\<close>: \<open>return -1\<close> is its largest value.\<close>

definition write_mem :: "'d vmmdll \<Rightarrow> 'd memory \<Rightarrow> byte list \<Rightarrow> pid \<Rightarrow> address \<Rightarrow> u64 \<Rightarrow> u64 \<times> 'd memory" where
  "write_mem api M buf p a n =
     (let (ok, D) = VMMDLL_MemWrite api (device M) (hVMM M) p a buf (ucast n)
      in (if ok then n else - 1, M\<lparr>device := D\<rparr>))"

definition getMemoryModel :: "'d vmmdll \<Rightarrow> 'd memory \<Rightarrow> pid \<Rightarrow> MemoryModel \<times> 'd memory" where
  "getMemoryModel api M p =
     (let (ok, tp, D) = VMMDLL_ProcessGetInformation api (device M) (hVMM M) p
      in (if \<not> ok then MemoryModel_UNKNOWN
          else case tp of
             VMMDLL_MEMORYMODEL_NA \<Rightarrow> MemoryModel_NA
           | VMMDLL_MEMORYMODEL_X86PAE \<Rightarrow> MemoryModel_X86PAE
           | VMMDLL_MEMORYMODEL_ARM64 \<Rightarrow> MemoryModel_ARM64
           | VMMDLL_MEMORYMODEL_X64 \<Rightarrow> MemoryModel_X64
           | VMMDLL_MEMORYMODEL_X86 \<Rightarrow> MemoryModel_X86
           | _ \<Rightarrow> MemoryModel_UNKNOWN,
          M\<lparr>device := D\<rparr>))"


section \<open>The memory map file\<close>

text \<open>Zero is the same numeral in every base, so every index reads as hexadecimal.\<close>

lemma numeral_string_zero: "2 \<le> b \<Longrightarrow> numeral_string b 0 = [digit_char 0]"
  by (simp add: numeral_string.simps)

lemma map_line_zero: "map_line False 0 e = map_line True 0 e"
  by (simp add: map_line_def numeral_string_zero)

lemma map_lines_hex:
  "map_lines True i es = concat (map (\<lambda>(k, e). map_line True k e) (enumerate i es))"
  by (induction es arbitrary: i) auto

lemma map_lines_all_hex:
  "map_lines False 0 es = concat (map (\<lambda>(k, e). map_line True k e) (enumerate 0 es))"
  by (cases es) (simp_all add: map_line_zero map_lines_hex)


section \<open>Calls made by the life cycle\<close>

text \<open>
  Every handle that \<open>generateMemoryMap\<close> opens it closes, once and last, on every path; a path
  that obtained the map also frees it.
\<close>

lemma generateMemoryMap_calls:
  assumes "generateMemoryMap api w M = (ok, M')"
  shows "\<exists>h m. calls (device M') = calls (device M)
      @ Call_Initialize ['''', ''-v'', ''-printf'', ''-device'', ''fpga://algo=0''] h
      # (if h = 0 then [] else Call_Map_GetPhysMem h # m @ [Call_Close h])
    \<and> set m \<subseteq> {Call_MemFree PhysMemMap} \<and> (ok \<longrightarrow> h \<noteq> 0 \<and> m = [Call_MemFree PhysMemMap])"
proof -
  obtain h d where i: "api_Initialize api (dev (device M))
      ['''', ''-v'', ''-printf'', ''-device'', ''fpga://algo=0''] = (h, d)"
    by fastforce
  obtain r m d' where p: "api_Map_GetPhysMem api d h = (r, m, d')"
    by (metis prod_cases3)
  show ?thesis
    by (rule exI [of _ h], rule exI [of _ "if r = 0 then [] else [Call_MemFree PhysMemMap]"])
      (use assms i p in \<open>auto simp: generateMemoryMap_def vmm_wrapper_defs split: if_splits\<close>)
qed

lemma generateMemoryMap_frame:
  assumes "generateMemoryMap api w M = (ok, M')"
  shows "hVMM M' = hVMM M" "mmapPath M' = mmapPath M" "dispatchThread M' = dispatchThread M"
    "bStop M' = bStop M" "\<not> ok \<Longrightarrow> mmapFile M' = mmapFile M"
  using assms by (auto simp: generateMemoryMap_def Let_def split: prod.splits if_splits)

text \<open>The names are asked for in order, and the processes that have one are listed.\<close>

lemma process_infos_listed:
  assumes "\<And>d p. api_ProcessGetInformationString api d h p (VMMDLL_OPT_STRING_PATH_USER_IMAGE api) = (path p, d)"
    and "process_infos api h D pids = (infos, D')"
  shows "infos = map (\<lambda>p. \<lparr>pi_name = the (path p), pi_pid = p\<rparr>) (filter (\<lambda>p. path p \<noteq> None) pids)
    \<and> calls D' = calls D @ map (\<lambda>p. Call_ProcessGetInformationString h p (VMMDLL_OPT_STRING_PATH_USER_IMAGE api)) pids"
  using assms(2)
  by (induction pids arbitrary: D infos D')
    (fastforce simp: VMMDLL_ProcessGetInformationString_def assms(1) called_def Let_def split: prod.splits option.splits)+

lemma init_success:
  assumes "init api w M = (True, M')" "dispatchThread M = Null"
  shows "hVMM M' \<noteq> 0" "dispatchThread M' = Running" "\<not> bStop M'"
proof -
  obtain M1 where g: "generateMemoryMap api w M = (True, M1)"
    using assms(1) by (auto simp: init_def split: prod.splits if_splits)
  have "dispatchThread M1 = Null"
    using generateMemoryMap_frame(3) [OF g] assms(2) by simp
  with g assms(1) show "hVMM M' \<noteq> 0" "dispatchThread M' = Running" "\<not> bStop M'"
    by (auto simp: init_def start_def split: prod.splits)
qed

text \<open>
  The memory map file: one line per physical range that the device reports, in order, and every index in it is written in
  hexadecimal, although the stream is switched to hexadecimal only after the first index.
\<close>

definition map_text :: "physmementry list \<Rightarrow> string" where
  "map_text es = concat (map (\<lambda>(k, e). map_line True k e) (enumerate 0 es))"

lemma memory_map_file:
  assumes "generateMemoryMap api w M = (True, M')"
  obtains h D1 m D2 where
    "VMMDLL_Initialize api (device M) ['''', ''-v'', ''-printf'', ''-device'', ''fpga://algo=0''] = (h, D1)"
    "VMMDLL_Map_GetPhysMem api D1 h = (True, m, D2)"
    "h \<noteq> 0" "dwVersion m = VMMDLL_MAP_PHYSMEM_VERSION api" "pMap m \<noteq> []"
    "mmapFile M' = ofstream_write w (mmapFile M) (map_text (pMap m))"
    "device M' = VMMDLL_Close api (VMMDLL_MemFree D2 PhysMemMap) h"
  using assms map_lines_all_hex
  by (auto simp: generateMemoryMap_def map_text_def Let_def split: prod.splits if_splits)

lemma init_calls:
  assumes "init api w M = (True, M')"
  obtains h D1 m D2 where
    "VMMDLL_Initialize api (device M) ['''', ''-v'', ''-printf'', ''-device'', ''fpga://algo=0''] = (h, D1)"
    "VMMDLL_Map_GetPhysMem api D1 h = (True, m, D2)"
    "dwVersion m = VMMDLL_MAP_PHYSMEM_VERSION api" "pMap m \<noteq> []"
    "mmapFile M' = ofstream_write w (mmapFile M) (map_text (pMap m))"
    "mmapPath M' = mmapPath M"
    "VMMDLL_Initialize api (VMMDLL_Close api (VMMDLL_MemFree D2 PhysMemMap) h)
       [''-printf'', ''-v'', ''-device'', ''fpga'', ''-memmap'', mmapPath M] = (hVMM M', device M')"
    "calls (device M') = calls (device M)
       @ [Call_Initialize ['''', ''-v'', ''-printf'', ''-device'', ''fpga://algo=0''] h, Call_Map_GetPhysMem h,
          Call_MemFree PhysMemMap, Call_Close h,
          Call_Initialize [''-printf'', ''-v'', ''-device'', ''fpga'', ''-memmap'', mmapPath M] (hVMM M')]"
proof -
  obtain M1 where g: "generateMemoryMap api w M = (True, M1)"
    using assms by (auto simp: init_def split: prod.splits if_splits)
  obtain h' D where i: "VMMDLL_Initialize api (device M1) [''-printf'', ''-v'', ''-device'', ''fpga'', ''-memmap'', mmapPath M1] = (h', D)"
    by fastforce
  with assms g have M': "M' = start (M1\<lparr>hVMM := h', device := D\<rparr>)"
    by (simp add: init_def)
  have path: "mmapPath M1 = mmapPath M"
    by (rule generateMemoryMap_frame(2) [OF g])
  from memory_map_file [OF g] obtain h D1 m D2 where m:
      "VMMDLL_Initialize api (device M) ['''', ''-v'', ''-printf'', ''-device'', ''fpga://algo=0''] = (h, D1)"
      "VMMDLL_Map_GetPhysMem api D1 h = (True, m, D2)"
      "dwVersion m = VMMDLL_MAP_PHYSMEM_VERSION api" "pMap m \<noteq> []"
      "mmapFile M1 = ofstream_write w (mmapFile M) (map_text (pMap m))"
      "device M1 = VMMDLL_Close api (VMMDLL_MemFree D2 PhysMemMap) h"
    by metis
  show ?thesis
  proof (rule that [OF m(1-4)])
    show "calls (device M') = calls (device M)
       @ [Call_Initialize ['''', ''-v'', ''-printf'', ''-device'', ''fpga://algo=0''] h, Call_Map_GetPhysMem h,
          Call_MemFree PhysMemMap, Call_Close h,
          Call_Initialize [''-printf'', ''-v'', ''-device'', ''fpga'', ''-memmap'', mmapPath M] (hVMM M')]"
      using m(1,2,6) i path
      by (auto simp: M' start_def vmm_wrapper_defs called_def split: prod.splits)
  qed (use m(5,6) i path in \<open>auto simp: M' start_def\<close>)
qed

lemma flat_init:
  "init flat_api Written (new_Memory ''mmap.txt'' None flat_device)
     = (True, \<lparr>hVMM = 1, mmapPath = ''mmap.txt'', mmapFile = Some (map_lines False 0 [\<lparr>pa = 0x1000, cb = 0x9F000\<rparr>]),
         dispatchThread = Running, bStop = False,
         device = \<lparr>dev = [10, 11, 12, 13, 14, 15, 16, 17],
           calls = [Call_Initialize ['''', ''-v'', ''-printf'', ''-device'', ''fpga://algo=0''] 1, Call_Map_GetPhysMem 1,
             Call_MemFree PhysMemMap, Call_Close 1,
             Call_Initialize [''-printf'', ''-v'', ''-device'', ''fpga'', ''-memmap'', ''mmap.txt''] 1]\<rparr>\<rparr>)"
  by (simp add: init_def generateMemoryMap_def start_def new_Memory_def ofstream_write_def flat_api_def flat_device_def vmm_wrapper_defs called_def)


section \<open>Properties\<close>

text \<open>
  \<open>shutdown\<close> leaves the pointer to the thread object it has deleted. Once it has stopped a
  running thread, calling it again (the destructor does) uses the deleted object, and \<open>start\<close> starts
  no thread.
\<close>

lemma shutdown_not_repeatable:
  assumes "dispatchThread M = Running" "shutdown M = Inr M'"
  shows "shutdown M' = Inl Use_after_free \<and> delete_Memory api M' = Inl Use_after_free \<and> start M' = M'"
proof -
  have "dispatchThread M' = Dangling"
    using assms by (auto simp: shutdown_def Let_def)
  then show ?thesis
    by (simp add: delete_Memory_def shutdown_def start_def)
qed

text \<open>
  The process snapshot lists, in the order of the device's process list, the processes for which the library
  returns an image path, and nothing else. Of what the library allocated it frees only the list of
  process ids; the strings with the paths stay allocated.
\<close>

lemma process_snapshot_lists:
  assumes "VMMDLL_PidList api (device M) (hVMM M) False 0 = (True, ignored, n, D1)"
    and "VMMDLL_PidList api D1 (hVMM M) True n = (True, pids, n', D2)" "unat n' = length pids"
    and "\<And>d p. api_ProcessGetInformationString api d (hVMM M) p (VMMDLL_OPT_STRING_PATH_USER_IMAGE api) = (path p, d)"
  shows "\<exists>M'. getProcessSnapshot api M = Inr (map (\<lambda>p. \<lparr>pi_name = the (path p), pi_pid = p\<rparr>) (filter (\<lambda>p. path p \<noteq> None) pids), M')
    \<and> calls (device M') = calls D2
        @ map (\<lambda>p. Call_ProcessGetInformationString (hVMM M) p (VMMDLL_OPT_STRING_PATH_USER_IMAGE api)) pids @ [Call_MemFree PidBuffer]"
proof -
  obtain infos D where pi: "process_infos api (hVMM M) D2 pids = (infos, D)"
    by fastforce
  with process_infos_listed [OF assms(4) pi] show ?thesis
    using assms(1-3) by (simp add: getProcessSnapshot_def VMMDLL_MemFree_def called_def)
qed

end
