(* ===== verification/Backlog.thy ===== *)
theory Backlog
  imports Memory "HOL-Library.Sublist"
begin

text \<open>
  The read path of \<^verbatim>\<open>Memory.cpp\<close>: \<open>Memory::read\<close> puts a request into a backlog that is keyed by
  process, address and size, so that equal requests share one \<open>BacklogItem\<close>; a dispatch thread
  takes batches of requests of one process out of it and reads them from the device; the readers
  wait on the item's promise.

  This theory translates the requests, the loop that forms a batch, and the device calls that read
  one. The theory \<open>Readers\<close> puts the threads together.
\<close>


section \<open>Requests and their keys\<close>

definition MAX_DISPATCH_SIZE :: nat where
  "MAX_DISPATCH_SIZE = 256"

definition MAX_BYTES_PER_DISPATCH :: u64 where
  "MAX_BYTES_PER_DISPATCH = 1000000000"

definition SCATTER_READ_THRESHOLD :: nat where
  "SCATTER_READ_THRESHOLD = 1"

definition scatterFlags :: "'d vmmdll \<Rightarrow> u64" where
  "scatterFlags api =
     VMMDLL_FLAG_NOCACHE api OR VMMDLL_FLAG_NOCACHEPUT api OR VMMDLL_FLAG_ZEROPAD_ON_FAIL api"

text \<open>
  An item of the backlog. The promise holds a count and a pointer to the buffer that the dispatch
  thread filled: the pointer is the buffer's number in a store of buffers.
\<close>

record backlog_item =
  bi_pid :: pid
  bi_address :: address
  bi_size :: u64
  bi_promiseRead :: bool
  bi_read :: u64
  bi_data :: "byte list"
  bi_promise :: "(u64 \<times> nat) option"

definition new_BacklogItem :: "pid \<Rightarrow> address \<Rightarrow> u64 \<Rightarrow> backlog_item" where
  "new_BacklogItem p a n =
     \<lparr>bi_pid = p, bi_address = a, bi_size = n, bi_promiseRead = False, bi_read = 0, bi_data = [],
      bi_promise = None\<rparr>"

text \<open>\<open>BacklogItem::get\<close>: the first caller copies the promise's buffer, later ones its copy.\<close>

definition get :: "byte list option list \<Rightarrow> backlog_item \<Rightarrow> fault + ((u64 \<times> byte list) \<times> backlog_item)" where
  "get buffers it =
     (if bi_promiseRead it then Inr ((bi_read it, bi_data it), it)
      else
        (case bi_promise it of
           None \<Rightarrow> Inl Never_returns
         | Some (r, b) \<Rightarrow>
             (case (if b < length buffers then buffers ! b else None) of
                None \<Rightarrow> Inl Use_after_free
              | Some bs \<Rightarrow>
                  (let data = take (unat (bi_size it)) bs
                   in Inr ((r, data), it\<lparr>bi_read := r, bi_data := data, bi_promiseRead := True\<rparr>)))))"

definition backlog_key :: "pid \<Rightarrow> address \<Rightarrow> u64 \<Rightarrow> string" where
  "backlog_key p a n =
     to_string_int (sint p) @ '':'' @ to_string_nat (unat a) @ '':'' @ to_string_nat (unat n)"

lemma backlog_key_inj:
  "backlog_key p a n = backlog_key p' a' n' \<longleftrightarrow> p = p' \<and> a = a' \<and> n = n'"
proof -
  have "backlog_key p a n = backlog_key p' a' n' \<longleftrightarrow>
      to_string_int (sint p) = to_string_int (sint p')
      \<and> to_string_nat (unat a) = to_string_nat (unat a')
      \<and> to_string_nat (unat n) = to_string_nat (unat n')"
    by (simp add: backlog_key_def split_at_sep to_string_int_no_colon to_string_nat_no_sep)
  then show ?thesis
    by (simp add: to_string_int_inj numeral_string_inj word_unat_eq_iff [symmetric])
      (metis signed_word_eqI)
qed


section \<open>Forming a batch\<close>

text \<open>
  The loop of \<open>dispatchLoop\<close> over the backlog, with the items in the order of the traversal.
\<close>

fun collect ::
    "pid \<Rightarrow> (string \<times> nat \<times> backlog_item) list \<Rightarrow> (string \<times> nat \<times> backlog_item) list \<Rightarrow> u64
       \<Rightarrow> (string \<times> nat \<times> backlog_item) list" where
  "collect p [] batch requested = batch"
| "collect p ((k, i, it) # items) batch requested =
     (if bi_pid it \<noteq> p then collect p items batch requested
      else if requested + bi_size it \<ge> MAX_BYTES_PER_DISPATCH then batch
      else
        (let batch = batch @ [(k, i, it)]; requested = requested + bi_size it
         in if length batch \<ge> MAX_DISPATCH_SIZE then batch
            else collect p items batch requested))"


section \<open>Reading a batch\<close>

text \<open>
  A buffer of the requested size, zeroed and then filled from its start by the device. The device
  is told the buffer's length and writes no further.
\<close>

definition promise_buffer :: "u64 \<Rightarrow> byte list \<Rightarrow> byte list" where
  "promise_buffer n bs = take (unat n) (overwrite (replicate (unat n) 0) bs)"

definition sequential_read ::
    "'d vmmdll \<Rightarrow> vmm_handle \<Rightarrow> pid \<Rightarrow> 'd device \<Rightarrow> backlog_item \<Rightarrow> (u64 \<times> byte list) \<times> 'd device" where
  "sequential_read api h p D it =
     (let (ok, bs, r, D) =
            VMMDLL_MemReadEx api D h p (bi_address it) (ucast (bi_size it)) (scatterFlags api)
      in ((ucast r, promise_buffer (bi_size it) bs), D))"

fun sequential_reads ::
    "'d vmmdll \<Rightarrow> vmm_handle \<Rightarrow> pid \<Rightarrow> 'd device \<Rightarrow> backlog_item list
       \<Rightarrow> (u64 \<times> byte list) list \<times> 'd device" where
  "sequential_reads api h p D [] = ([], D)"
| "sequential_reads api h p D (it # items) =
     (let (v, D) = sequential_read api h p D it;
          D = VMMDLL_MemFree D PromiseBuffer;
          (vs, D) = sequential_reads api h p D items
      in (v # vs, D))"

fun scatter_prepare ::
    "'d vmmdll \<Rightarrow> scatter_handle \<Rightarrow> 'd device \<Rightarrow> backlog_item list \<Rightarrow> 'd device" where
  "scatter_prepare api s D [] = D"
| "scatter_prepare api s D (it # items) =
     scatter_prepare api s (snd (VMMDLL_Scatter_Prepare api D s (bi_address it) (ucast (bi_size it)))) items"

fun scatter_reads ::
    "'d vmmdll \<Rightarrow> scatter_handle \<Rightarrow> 'd device \<Rightarrow> backlog_item list
       \<Rightarrow> (u64 \<times> byte list) list \<times> 'd device" where
  "scatter_reads api s D [] = ([], D)"
| "scatter_reads api s D (it # items) =
     (let (ok, bs, r, D) = VMMDLL_Scatter_Read api D s (bi_address it) (ucast (bi_size it));
          (vs, D) = scatter_reads api s D items
      in ((ucast r, promise_buffer (bi_size it) bs) # vs, D))"

text \<open>
  \<open>Memory::dispatch\<close>: the values it puts into the promises of the batch, in the batch's order.
\<close>

definition dispatch ::
    "'d vmmdll \<Rightarrow> vmm_handle \<Rightarrow> pid \<Rightarrow> 'd device \<Rightarrow> backlog_item list
       \<Rightarrow> (u64 \<times> byte list) list \<times> 'd device" where
  "dispatch api h p D items =
     (if length items \<le> SCATTER_READ_THRESHOLD then sequential_reads api h p D items
      else
        (let (s, D) = VMMDLL_Scatter_Initialize api D h p (scatterFlags api);
             D = scatter_prepare api s D items;
             (ok, D) = VMMDLL_Scatter_Execute api D s;
             (vs, D) = scatter_reads api s D items
         in (vs, VMMDLL_Scatter_CloseHandle api D s)))"

lemma length_promise_buffer [simp]: "length (promise_buffer n bs) = unat n"
  by (simp add: promise_buffer_def overwrite_def)

lemma length_sequential_reads:
  "sequential_reads api h p D items = (vs, D') \<Longrightarrow> length vs = length items"
  by (induction items arbitrary: D vs D') (auto simp: Let_def split: prod.splits)

lemma length_scatter_reads:
  "scatter_reads api s D items = (vs, D') \<Longrightarrow> length vs = length items"
  by (induction items arbitrary: D vs D') (auto simp: Let_def split: prod.splits)

lemma length_dispatch: "dispatch api h p D items = (vs, D') \<Longrightarrow> length vs = length items"
  by (auto simp: dispatch_def Let_def dest: length_sequential_reads length_scatter_reads
      split: if_splits prod.splits)


section \<open>What a batch contains\<close>

definition batch_bytes :: "(string \<times> nat \<times> backlog_item) list \<Rightarrow> nat" where
  "batch_bytes batch = (\<Sum>(k, i, it) \<leftarrow> batch. unat (bi_size it))"

lemma batch_bytes_simps [simp]:
  "batch_bytes [] = 0"
  "batch_bytes (x # xs) = unat (bi_size (snd (snd x))) + batch_bytes xs"
  "batch_bytes (xs @ ys) = batch_bytes xs + batch_bytes ys"
  by (auto simp: batch_bytes_def split_def)

text \<open>
  Requests come from 32-bit sizes, so the 64-bit sum in the loop's guard does not wrap.
\<close>

lemma request_fits:
  assumes "unat (req :: u64) < 1000000000" "unat (n :: u64) < 2 ^ 32"
  shows "unat (req + n) = unat req + unat n"
    and "req + n \<ge> MAX_BYTES_PER_DISPATCH \<longleftrightarrow> 1000000000 \<le> unat req + unat n"
proof -
  show *: "unat (req + n) = unat req + unat n"
    using assms by (simp add: unat_word_ariths)
  show "req + n \<ge> MAX_BYTES_PER_DISPATCH \<longleftrightarrow> 1000000000 \<le> unat req + unat n"
    unfolding word_le_nat_alt * by (simp add: MAX_BYTES_PER_DISPATCH_def)
qed

lemma collect_subseq:
  "\<exists>new. collect p items batch requested = batch @ new \<and> subseq new items
     \<and> (\<forall>x \<in> set new. bi_pid (snd (snd x)) = p)"
proof (induction items arbitrary: batch requested)
  case Nil
  show ?case by (intro exI [of _ "[]"]) simp
next
  case (Cons x items)
  obtain k i it where x: "x = (k, i, it)"
    by (cases x)
  obtain new where skip: "collect p items batch requested = batch @ new" "subseq new items"
      "\<forall>x \<in> set new. bi_pid (snd (snd x)) = p"
    using Cons.IH by blast
  obtain new' where take: "collect p items (batch @ [x]) (requested + bi_size it) = (batch @ [x]) @ new'"
      "subseq new' items" "\<forall>x \<in> set new'. bi_pid (snd (snd x)) = p"
    using Cons.IH by blast
  show ?case
  proof (cases "bi_pid it = p")
    case False
    with skip x show ?thesis by (intro exI [of _ new]) auto
  next
    case True
    with take x show ?thesis
      by (intro exI [of _ "if requested + bi_size it \<ge> MAX_BYTES_PER_DISPATCH then []
            else if length (batch @ [x]) \<ge> MAX_DISPATCH_SIZE then [x] else x # new'"])
        (auto simp: Let_def)
  qed
qed

lemma collect_length: "length batch < MAX_DISPATCH_SIZE \<Longrightarrow> length (collect p items batch requested) \<le> MAX_DISPATCH_SIZE"
  by (induction p items batch requested rule: collect.induct) (auto simp: Let_def)

lemma collect_bytes:
  assumes "\<forall>x \<in> set items. unat (bi_size (snd (snd x))) < 2 ^ 32"
    and "unat requested = batch_bytes batch" "batch_bytes batch < 1000000000"
  shows "batch_bytes (collect p items batch requested) < 1000000000"
  using assms
proof (induction p items batch requested rule: collect.induct)
  case (2 p k i it items batch requested)
  have fits: "unat (requested + bi_size it) = unat requested + unat (bi_size it)"
      "requested + bi_size it \<ge> MAX_BYTES_PER_DISPATCH \<longleftrightarrow> 1000000000 \<le> unat requested + unat (bi_size it)"
    using request_fits [of requested "bi_size it"] 2(3-5) by simp_all
  show ?case
    using 2(1) 2(2) [OF _ _ refl refl] 2(3-5) fits by (auto simp: Let_def)
qed simp


text \<open>
  A request of a gigabyte or more passes the guard of the loop with no batch, whatever was
  collected before it.
\<close>

definition oversized :: "backlog_item \<Rightarrow> bool" where
  "oversized it \<longleftrightarrow> 1000000000 \<le> unat (bi_size it) \<and> unat (bi_size it) < 2 ^ 64 - 1000000000"

lemma oversized_guard:
  assumes "oversized it" "requested < MAX_BYTES_PER_DISPATCH"
  shows "requested + bi_size it \<ge> MAX_BYTES_PER_DISPATCH"
proof -
  have "unat requested < 1000000000"
    using assms(2) by (simp add: MAX_BYTES_PER_DISPATCH_def word_less_nat_alt)
  then have "unat (requested + bi_size it) = unat requested + unat (bi_size it)"
    using assms(1) by (simp add: oversized_def unat_word_ariths)
  then show ?thesis
    using assms(1) by (simp add: MAX_BYTES_PER_DISPATCH_def word_le_nat_alt oversized_def)
qed

lemma collect_not_oversized:
  assumes "requested < MAX_BYTES_PER_DISPATCH" "\<forall>x \<in> set batch. \<not> oversized (snd (snd x))"
  shows "\<forall>x \<in> set (collect p items batch requested). \<not> oversized (snd (snd x))"
  using assms
proof (induction items arbitrary: batch requested)
  case (Cons x items)
  obtain k i it where x: "x = (k, i, it)"
    by (cases x)
  show ?case
  proof (cases "bi_pid it = p \<and> requested + bi_size it < MAX_BYTES_PER_DISPATCH")
    case True
    then have "\<not> oversized it"
      using oversized_guard Cons.prems(1) not_le by blast
    with Cons.prems(2) x have "\<forall>x \<in> set (batch @ [x]). \<not> oversized (snd (snd x))"
      by simp
    with Cons.IH [of "requested + bi_size it" "batch @ [x]"] True x show ?thesis
      by (auto simp: Let_def)
  next
    case False
    with Cons x show ?thesis by (auto simp: not_le)
  qed
qed simp

lemma collect_subset: "set (collect p items batch requested) \<subseteq> set batch \<union> set items"
  by (induction p items batch requested rule: collect.induct) (auto simp: Let_def)

lemma collect_first_oversized:
  "oversized it \<Longrightarrow> collect (bi_pid it) ((k, i, it) # items) [] 0 = []"
  using oversized_guard [of it 0] by (simp add: MAX_BYTES_PER_DISPATCH_def)

lemma collect_first_fits:
  assumes "unat (bi_size it) < 1000000000"
  shows "(k, i, it) \<in> set (collect (bi_pid it) ((k, i, it) # items) [] 0)"
proof -
  have keeps: "set batch \<subseteq> set (collect p xs batch req)" for p xs batch req
    by (induction p xs batch req rule: collect.induct) (auto simp: Let_def)
  have "\<not> 0 + bi_size it \<ge> MAX_BYTES_PER_DISPATCH"
    using assms by (simp add: MAX_BYTES_PER_DISPATCH_def word_le_nat_alt)
  then show ?thesis
    using keeps [of "[(k, i, it)]" "bi_pid it" items "bi_size it"]
    by (simp add: Let_def MAX_DISPATCH_SIZE_def)
qed

section \<open>The calls of a dispatch\<close>

lemma scatter_prepare_calls:
  "calls (scatter_prepare api sc D items)
     = calls D @ map (\<lambda>it. Call_Scatter_Prepare sc (bi_address it) (ucast (bi_size it))) items"
  by (induction items arbitrary: D) (simp_all add: VMMDLL_Scatter_Prepare_def split_def Let_def)

lemma scatter_reads_calls:
  "calls (snd (scatter_reads api sc D items))
     = calls D @ map (\<lambda>it. Call_Scatter_Read sc (bi_address it) (ucast (bi_size it))) items"
  by (induction items arbitrary: D) (simp_all add: VMMDLL_Scatter_Read_def split_def Let_def)


text \<open>The device states between the reads of a batch, and the value that each read gives.\<close>

lemma scatter_reads_chain:
  "scatter_reads api sc D items = (vs, D') \<Longrightarrow>
   \<exists>Ds. Ds ! 0 = D \<and> Ds ! length items = D'
    \<and> (\<forall>i < length items. \<exists>ok bs r.
        VMMDLL_Scatter_Read api (Ds ! i) sc (bi_address (items ! i)) (ucast (bi_size (items ! i))) = (ok, bs, r, Ds ! Suc i)
      \<and> vs ! i = (ucast r, promise_buffer (bi_size (items ! i)) bs))"
proof (induction items arbitrary: D vs)
  case Nil
  then show ?case by (intro exI [of _ "[D]"]) simp
next
  case (Cons it items)
  obtain ok bs r D1 where rd: "VMMDLL_Scatter_Read api D sc (bi_address it) (ucast (bi_size it)) = (ok, bs, r, D1)"
    by (metis prod_cases4)
  obtain ws where rest: "scatter_reads api sc D1 items = (ws, D')" and vs: "vs = (ucast r, promise_buffer (bi_size it) bs) # ws"
    using Cons.prems rd by (auto simp: Let_def split: prod.splits)
  from Cons.IH [OF rest] obtain Ds where "Ds ! 0 = D1" "Ds ! length items = D'"
      "\<forall>i < length items. \<exists>ok bs r.
        VMMDLL_Scatter_Read api (Ds ! i) sc (bi_address (items ! i)) (ucast (bi_size (items ! i))) = (ok, bs, r, Ds ! Suc i)
      \<and> ws ! i = (ucast r, promise_buffer (bi_size (items ! i)) bs)"
    by blast
  with rd vs show ?case
    by (intro exI [of _ "D # Ds"]) (auto simp: less_Suc_eq_0_disj)
qed

section \<open>Properties\<close>

text \<open>
  The key of a request determines it. Two requests share a \<open>BacklogItem\<close> exactly when they ask for the
  same process, address and size.
\<close>

lemma key_determines_request:
  "backlog_key p a n = backlog_key p' a' n' \<longleftrightarrow> p = p' \<and> a = a' \<and> n = n'"
  by (rule backlog_key_inj)

text \<open>
  C24: whatever the order of traversal, a batch takes requests of one process only, each at most once and
  in that order, at most 256 of them, and less than a gigabyte in all. Sizes are 32-bit values, as in
  the requests of the protocol.
\<close>

theorem batch_bounds:
  assumes "\<forall>x \<in> set items. unat (bi_size (snd (snd x))) < 2 ^ 32"
  shows "subseq (collect p items [] 0) items \<and> (\<forall>x \<in> set (collect p items [] 0). bi_pid (snd (snd x)) = p)
    \<and> length (collect p items [] 0) \<le> 256 \<and> batch_bytes (collect p items [] 0) < 1000000000"
  using collect_subseq [of p items "[]" 0] collect_length [of "[]" p items 0] collect_bytes [OF assms, of 0 "[]" p]
  by (auto simp: MAX_DISPATCH_SIZE_def)

theorem batch_bounds_witness:
  "length (collect 4 [('''', 0, new_BacklogItem 4 0x1000 8), ('''', 1, new_BacklogItem 5 0x1000 8)] [] 0) \<le> 256
   \<and> collect 4 [('''', 0, new_BacklogItem 4 0x1000 8), ('''', 1, new_BacklogItem 5 0x1000 8)] [] 0
       = [('''', 0, new_BacklogItem 4 0x1000 8)]"
  using batch_bounds [of "[('''', 0, new_BacklogItem 4 0x1000 8), ('''', 1, new_BacklogItem 5 0x1000 8)]" 4]
  by (simp add: new_BacklogItem_def MAX_BYTES_PER_DISPATCH_def MAX_DISPATCH_SIZE_def)

text \<open>
  C30: a batch of two or more requests is read through one scatter handle: it is opened for the process, every request is
  prepared, the reads are executed once, every result is fetched, and the handle is closed. One value per request
  comes back, in the batch's order: the \<open>i\<close>-th one has the bytes and the count of the scatter read for the \<open>i\<close>-th
  request, made in the device state that the execution and the earlier reads have left.
\<close>

theorem scatter_protocol:
  assumes "1 < length items" "dispatch api h p D items = (vs, D')"
  shows "\<exists>sc. calls D' = calls D @ [Call_Scatter_Initialize h p (scatterFlags api) sc]
      @ map (\<lambda>it. Call_Scatter_Prepare sc (bi_address it) (ucast (bi_size it))) items @ [Call_Scatter_Execute sc]
      @ map (\<lambda>it. Call_Scatter_Read sc (bi_address it) (ucast (bi_size it))) items @ [Call_Scatter_CloseHandle sc]
    \<and> length vs = length items
    \<and> (\<exists>D1 ok Ds. VMMDLL_Scatter_Initialize api D h p (scatterFlags api) = (sc, D1)
      \<and> VMMDLL_Scatter_Execute api (scatter_prepare api sc D1 items) sc = (ok, Ds ! 0)
      \<and> D' = VMMDLL_Scatter_CloseHandle api (Ds ! length items) sc
      \<and> (\<forall>i < length items. \<exists>ok bs r.
          VMMDLL_Scatter_Read api (Ds ! i) sc (bi_address (items ! i)) (ucast (bi_size (items ! i))) = (ok, bs, r, Ds ! Suc i)
        \<and> vs ! i = (ucast r, promise_buffer (bi_size (items ! i)) bs)))"
proof -
  obtain sc D1 where sc: "VMMDLL_Scatter_Initialize api D h p (scatterFlags api) = (sc, D1)"
    by fastforce
  obtain ok D2 where ex: "VMMDLL_Scatter_Execute api (scatter_prepare api sc D1 items) sc = (ok, D2)"
    by fastforce
  obtain D3 where reads: "scatter_reads api sc D2 items = (vs, D3)" and D': "D' = VMMDLL_Scatter_CloseHandle api D3 sc"
    using assms sc ex by (auto simp: dispatch_def SCATTER_READ_THRESHOLD_def Let_def split: prod.splits)
  from scatter_reads_chain [OF reads] obtain Ds where Ds: "Ds ! 0 = D2" "Ds ! length items = D3"
      "\<forall>i < length items. \<exists>ok bs r.
          VMMDLL_Scatter_Read api (Ds ! i) sc (bi_address (items ! i)) (ucast (bi_size (items ! i))) = (ok, bs, r, Ds ! Suc i)
        \<and> vs ! i = (ucast r, promise_buffer (bi_size (items ! i)) bs)"
    by blast
  have "calls D1 = calls D @ [Call_Scatter_Initialize h p (scatterFlags api) sc]"
    using sc by (auto simp: VMMDLL_Scatter_Initialize_def Let_def split: prod.splits)
  moreover have "calls D2 = calls (scatter_prepare api sc D1 items) @ [Call_Scatter_Execute sc]"
    using ex by (auto simp: VMMDLL_Scatter_Execute_def Let_def split: prod.splits)
  moreover have "calls D3 = calls D2 @ map (\<lambda>it. Call_Scatter_Read sc (bi_address it) (ucast (bi_size it))) items"
    using scatter_reads_calls [of api sc D2 items] reads by simp
  ultimately show ?thesis
    using sc ex D' Ds length_dispatch [OF assms(2)]
    by (intro exI [of _ sc] conjI exI [of _ D1] exI [of _ ok] exI [of _ Ds])
      (simp_all add: VMMDLL_Scatter_CloseHandle_def scatter_prepare_calls)
qed

theorem scatter_protocol_witness:
  "\<exists>vs D' sc. dispatch flat_api 1 4 flat_device [new_BacklogItem 4 0 2, new_BacklogItem 4 4 2] = (vs, D')
     \<and> vs = [(2, [10, 11]), (2, [14, 15])]
     \<and> calls D' = [Call_Scatter_Initialize 1 4 (scatterFlags flat_api) sc, Call_Scatter_Prepare sc 0 2,
         Call_Scatter_Prepare sc 4 2, Call_Scatter_Execute sc, Call_Scatter_Read sc 0 2, Call_Scatter_Read sc 4 2,
         Call_Scatter_CloseHandle sc]"
proof -
  let ?items = "[new_BacklogItem 4 0 2, new_BacklogItem 4 4 2]"
  obtain vs D' where d: "dispatch flat_api 1 4 flat_device ?items = (vs, D')"
    by fastforce
  have "vs = [(2, [10, 11]), (2, [14, 15])]"
    using d by (simp add: dispatch_def SCATTER_READ_THRESHOLD_def new_BacklogItem_def vmm_wrapper_defs flat_api_def flat_device_def
        flat_read_def called_def promise_buffer_def overwrite_def Let_def split: prod.splits)
  with scatter_protocol [OF _ d] d show ?thesis
    by (auto simp: flat_device_def new_BacklogItem_def)
qed

end
