(* ===== verification/Readers.thy ===== *)
theory Readers
  imports Backlog "HOL-Library.Multiset"
begin

text \<open>
  The threads of the read path as a step relation: any number of readers inside \<open>Memory::read\<close> and
  the dispatch thread, over explicit stores for the shared items and for the buffers the promises
  point to. A step is a section of code under \<open>mtx\<close>, or the device access of one dispatch. The
  order in which an unordered map is traversed is left open. Invariants of the reachable states
  then say that no request is lost, that a promise is set once, and that a reader gets an
  answer to its own request; progress, starvation and the race on a released buffer follow.
\<close>


section \<open>Readers and the dispatch thread together\<close>

text \<open>
  Items and buffers live in stores, indexed by allocation; a buffer that was released is
  \<open>None\<close>. A reader thread inside \<open>Memory::read\<close> has its arguments and the item it waits on as
  local variables; \<open>rs_done\<close> records what a thread's last read returned. The dispatch thread is idle, holds a batch it has taken out of the backlog, or is
  about to release the buffer it has handed to a promise. \<open>std::async\<close>'s future is destroyed
  at once, which waits for the task: one batch is finished before the next is formed.
\<close>

datatype phase = Idle | Dispatching pid "(string \<times> nat) list" | Releasing nat

record reader =
  rd_pid :: pid
  rd_address :: address
  rd_size :: u64
  rd_item :: nat

record 'd read_sys =
  rs_backlog :: "(string, nat) umap"
  rs_items :: "backlog_item list"
  rs_buffers :: "byte list option list"
  rs_waiting :: "nat \<rightharpoonup> reader"
  rs_done :: "nat \<rightharpoonup> reader \<times> u64 \<times> byte list"
  rs_phase :: phase
  rs_device :: "'d device"

definition new_read_sys :: "'d device \<Rightarrow> 'd read_sys" where
  "new_read_sys D =
     \<lparr>rs_backlog = [], rs_items = [], rs_buffers = [], rs_waiting = Map.empty, rs_done = Map.empty,
      rs_phase = Idle, rs_device = D\<rparr>"

text \<open>The section of \<open>Memory::read\<close> under the mutex.\<close>

definition read_enqueue :: "'d read_sys \<Rightarrow> pid \<Rightarrow> address \<Rightarrow> u64 \<Rightarrow> nat \<times> 'd read_sys" where
  "read_enqueue s p a n =
     (let key = backlog_key p a n
      in case map_of (rs_backlog s) key of
           Some i \<Rightarrow> (i, s)
         | None \<Rightarrow>
             (let i = length (rs_items s)
              in (i, s\<lparr>rs_items := rs_items s @ [new_BacklogItem p a n],
                       rs_backlog := umap_assign key i (rs_backlog s)\<rparr>)))"

text \<open>
  The rest of \<open>Memory::read\<close>: wait for the item and copy as many bytes as were read into the
  caller's buffer, which has the requested size.
\<close>

definition read_finish :: "'d read_sys \<Rightarrow> reader \<Rightarrow> fault + ((u64 \<times> byte list) \<times> 'd read_sys)" where
  "read_finish s rd =
     (case get (rs_buffers s) (rs_items s ! rd_item rd) of
        Inl e \<Rightarrow> Inl e
      | Inr ((r, data), it) \<Rightarrow>
          (if unat (rd_size rd) < unat r then Inl Buffer_overflow
           else Inr ((r, take (unat r) data), s\<lparr>rs_items := (rs_items s)[rd_item rd := it]\<rparr>)))"

text \<open>
  One round of \<open>dispatchLoop\<close> up to the dispatch, for a traversal order of the backlog.
\<close>

definition with_items :: "backlog_item list \<Rightarrow> (string \<times> nat) list \<Rightarrow> (string \<times> nat \<times> backlog_item) list" where
  "with_items items order = map (\<lambda>(k, i). (k, i, items ! i)) order"

definition form_batch :: "backlog_item list \<Rightarrow> (string \<times> nat) list \<Rightarrow> pid \<times> (string \<times> nat) list" where
  "form_batch items order =
     (let p = bi_pid (items ! snd (hd order))
      in (p, map (\<lambda>(k, i, it). (k, i)) (collect p (with_items items order) [] 0)))"

definition dispatch_round :: "'d read_sys \<Rightarrow> (string \<times> nat) list \<Rightarrow> 'd read_sys" where
  "dispatch_round s order =
     (let (p, batch) = form_batch (rs_items s) order
      in s\<lparr>rs_backlog := fold (\<lambda>(k, i). umap_erase k) batch (rs_backlog s),
           rs_phase := Dispatching p batch\<rparr>)"

text \<open>\<open>promise.set_value\<close> for each item of a batch, with a buffer allocated for each.\<close>

fun fulfil ::
    "(string \<times> nat) list \<Rightarrow> (u64 \<times> byte list) list \<Rightarrow> backlog_item list \<Rightarrow> byte list option list
       \<Rightarrow> backlog_item list \<times> byte list option list" where
  "fulfil ((k, i) # batch) ((r, bs) # vs) items buffers =
     fulfil batch vs (items[i := (items ! i)\<lparr>bi_promise := Some (r, length buffers)\<rparr>]) (buffers @ [Some bs])"
| "fulfil _ _ items buffers = (items, buffers)"

inductive read_step :: "'d vmmdll \<Rightarrow> vmm_handle \<Rightarrow> 'd read_sys \<Rightarrow> 'd read_sys \<Rightarrow> bool"
  for api :: "'d vmmdll" and h :: vmm_handle where
  enqueue: "rs_waiting s t = None \<Longrightarrow> read_enqueue s p a n = (i, s') \<Longrightarrow>
    read_step api h s
      (s'\<lparr>rs_waiting := (rs_waiting s)(t \<mapsto> \<lparr>rd_pid = p, rd_address = a, rd_size = n, rd_item = i\<rparr>)\<rparr>)"
| round: "rs_phase s = Idle \<Longrightarrow> rs_backlog s \<noteq> [] \<Longrightarrow> mset order = mset (rs_backlog s) \<Longrightarrow>
    read_step api h s (dispatch_round s order)"
| no_batch: "rs_phase s = Dispatching p [] \<Longrightarrow> read_step api h s (s\<lparr>rs_phase := Idle\<rparr>)"
| sequential: "rs_phase s = Dispatching p [(k, i)] \<Longrightarrow>
    sequential_read api h p (rs_device s) (rs_items s ! i) = (v, D) \<Longrightarrow>
    fulfil [(k, i)] [v] (rs_items s) (rs_buffers s) = (items, buffers) \<Longrightarrow>
    read_step api h s (s\<lparr>rs_items := items, rs_buffers := buffers, rs_device := D,
                         rs_phase := Releasing (length (rs_buffers s))\<rparr>)"
| release: "rs_phase s = Releasing b \<Longrightarrow>
    read_step api h s (s\<lparr>rs_buffers := (rs_buffers s)[b := None],
                         rs_device := VMMDLL_MemFree (rs_device s) PromiseBuffer, rs_phase := Idle\<rparr>)"
| scatter: "rs_phase s = Dispatching p batch \<Longrightarrow> SCATTER_READ_THRESHOLD < length batch \<Longrightarrow>
    mset order = mset batch \<Longrightarrow>
    dispatch api h p (rs_device s) (map (\<lambda>(k, i). rs_items s ! i) order) = (vs, D) \<Longrightarrow>
    fulfil order vs (rs_items s) (rs_buffers s) = (items, buffers) \<Longrightarrow>
    read_step api h s (s\<lparr>rs_items := items, rs_buffers := buffers, rs_device := D, rs_phase := Idle\<rparr>)"
| finish: "rs_waiting s t = Some rd \<Longrightarrow> read_finish s rd = Inr (v, s') \<Longrightarrow>
    read_step api h s (s'\<lparr>rs_waiting := (rs_waiting s)(t := None), rs_done := (rs_done s)(t \<mapsto> (rd, v))\<rparr>)"

inductive read_steps :: "'d vmmdll \<Rightarrow> vmm_handle \<Rightarrow> 'd read_sys \<Rightarrow> 'd read_sys \<Rightarrow> bool"
  for api :: "'d vmmdll" and h :: vmm_handle where
  none: "read_steps api h s s"
| more: "read_steps api h s s' \<Longrightarrow> read_step api h s' s'' \<Longrightarrow> read_steps api h s s''"



section \<open>No request is lost, no promise is set twice\<close>

definition pending :: "'d read_sys \<Rightarrow> (string \<times> nat) list" where
  "pending s =
     rs_backlog s @ (case rs_phase s of Dispatching p batch \<Rightarrow> batch | Idle \<Rightarrow> [] | Releasing b \<Rightarrow> [])"

definition item_key :: "backlog_item \<Rightarrow> string" where
  "item_key it = backlog_key (bi_pid it) (bi_address it) (bi_size it)"

definition entry_ok :: "backlog_item list \<Rightarrow> string \<times> nat \<Rightarrow> bool" where
  "entry_ok items x \<longleftrightarrow>
     snd x < length items \<and> bi_promise (items ! snd x) = None
     \<and> \<not> bi_promiseRead (items ! snd x) \<and> fst x = item_key (items ! snd x)"

definition reader_ok :: "'d read_sys \<Rightarrow> reader \<Rightarrow> bool" where
  "reader_ok s rd \<longleftrightarrow>
     rd_item rd < length (rs_items s)
     \<and> (let it = rs_items s ! rd_item rd
        in bi_pid it = rd_pid rd \<and> bi_address it = rd_address rd \<and> bi_size it = rd_size rd
           \<and> (rd_item rd \<in> snd ` set (pending s) \<or> bi_promise it \<noteq> None))"

definition read_inv :: "'d read_sys \<Rightarrow> bool" where
  "read_inv s \<longleftrightarrow>
     umap_ok (rs_backlog s) \<and> distinct (map snd (pending s))
     \<and> (\<forall>x \<in> set (pending s). entry_ok (rs_items s) x)
     \<and> (\<forall>t rd. rs_waiting s t = Some rd \<longrightarrow> reader_ok s rd)"

lemma read_invI:
  assumes "umap_ok (rs_backlog s)" "distinct (map snd (pending s))"
    and "\<And>x. x \<in> set (pending s) \<Longrightarrow> entry_ok (rs_items s) x"
    and "\<And>t rd. rs_waiting s t = Some rd \<Longrightarrow> reader_ok s rd"
  shows "read_inv s"
  using assms unfolding read_inv_def by blast

lemma read_invD:
  assumes "read_inv s"
  shows "umap_ok (rs_backlog s)" "distinct (map snd (pending s))"
    and "x \<in> set (pending s) \<Longrightarrow> entry_ok (rs_items s) x"
    and "rs_waiting s t = Some rd \<Longrightarrow> reader_ok s rd"
  using assms unfolding read_inv_def by blast+

lemma read_inv_new: "read_inv (new_read_sys D)"
  by (simp add: read_inv_def new_read_sys_def pending_def)

lemma umap_assign_absent: "map_of m k = None \<Longrightarrow> umap_assign k v m = m @ [(k, v)]"
  unfolding umap_assign_def by (induction m) (auto split: if_splits)

lemma set_mono_subseq: "subseq xs ys \<Longrightarrow> set xs \<subseteq> set ys"
  by (auto simp: subseq_conv_nths dest: in_set_nthsD)

lemma subseq_distinct: "subseq xs ys \<Longrightarrow> distinct ys \<Longrightarrow> distinct xs"
  by (auto simp: subseq_conv_nths)

lemma set_fold_erase:
  "set (fold (\<lambda>(k, i). umap_erase k) batch m) = {x \<in> set m. fst x \<notin> fst ` set batch}"
proof (induction batch arbitrary: m)
  case (Cons x batch)
  have "set (umap_erase (fst x) m) = {y \<in> set m. fst y \<noteq> fst x}"
    by (auto simp: umap_erase_def AList.delete_eq)
  with Cons show ?case by (auto simp: split_def)
qed simp

lemma umap_ok_fold_erase: "umap_ok m \<Longrightarrow> umap_ok (fold (\<lambda>(k, i). umap_erase k) batch m)"
  by (induction batch arbitrary: m) auto

lemma umap_ok_key: "umap_ok m \<Longrightarrow> x \<in> set m \<Longrightarrow> y \<in> set m \<Longrightarrow> fst x = fst y \<Longrightarrow> x = y"
  by (auto simp: umap_ok_def distinct_map inj_on_def)

text \<open>Adding a request.\<close>

lemma read_inv_join:
  assumes inv: "read_inv s" and enq: "read_enqueue s p a n = (i, s')" and Some: "map_of (rs_backlog s) (backlog_key p a n) = Some j"
  shows "read_inv (s'\<lparr>rs_waiting := (rs_waiting s)(t \<mapsto> \<lparr>rd_pid = p, rd_address = a, rd_size = n, rd_item = i\<rparr>)\<rparr>)"
    (is "read_inv ?s")
proof -
  have s': "s' = s" "i = j" "(backlog_key p a n, j) \<in> set (rs_backlog s)"
    using enq Some by (auto simp: read_enqueue_def dest: map_of_SomeD)
  have pend: "pending ?s = pending s" "rs_items ?s = rs_items s" "rs_backlog ?s = rs_backlog s"
    using s' by (simp_all add: pending_def)
  have x: "(backlog_key p a n, j) \<in> set (pending s)"
    using s'(3) by (simp add: pending_def)
  then have "entry_ok (rs_items s) (backlog_key p a n, j)" "j \<in> snd ` set (pending s)"
    using read_invD(3) [OF inv] by force+
  then have "reader_ok ?s \<lparr>rd_pid = p, rd_address = a, rd_size = n, rd_item = i\<rparr>"
    using s' pend by (auto simp: entry_ok_def reader_ok_def item_key_def backlog_key_inj)
  moreover have "reader_ok ?s rd" if "reader_ok s rd" for rd
    using that pend by (simp add: reader_ok_def)
  ultimately show ?thesis
    using read_invD [OF inv] pend by (intro read_invI) (auto split: if_splits)
qed

lemma read_inv_fresh:
  assumes inv: "read_inv s" and enq: "read_enqueue s p a n = (i, s')" and None: "map_of (rs_backlog s) (backlog_key p a n) = None"
  shows "read_inv (s'\<lparr>rs_waiting := (rs_waiting s)(t \<mapsto> \<lparr>rd_pid = p, rd_address = a, rd_size = n, rd_item = i\<rparr>)\<rparr>)"
    (is "read_inv ?s")
proof -
  let ?j = "length (rs_items s)"
  let ?it = "new_BacklogItem p a n"
  have s': "i = ?j" "rs_items ?s = rs_items s @ [?it]"
      "rs_backlog ?s = rs_backlog s @ [(backlog_key p a n, ?j)]" "rs_phase ?s = rs_phase s"
    using enq None by (auto simp: read_enqueue_def umap_assign_absent Let_def)
  have pend: "set (pending ?s) = insert (backlog_key p a n, ?j) (set (pending s))"
    using s' by (auto simp: pending_def)
  have old: "snd x < ?j" if "x \<in> set (pending s)" for x
    using read_invD(3) [OF inv that] by (simp add: entry_ok_def)
  show ?thesis
  proof (rule read_invI)
    show "umap_ok (rs_backlog ?s)"
      using read_invD(1) [OF inv] None s'(3) by (simp add: umap_ok_def map_of_eq_None_iff)
  next
    have "?j \<notin> snd ` set (pending s)"
      using old by force
    then show "distinct (map snd (pending ?s))"
      using read_invD(2) [OF inv] s' by (auto simp: pending_def)
  next
    fix x
    assume "x \<in> set (pending ?s)"
    then show "entry_ok (rs_items ?s) x"
      using read_invD(3) [OF inv, of x] s'(2) unfolding pend
      by (auto simp: entry_ok_def new_BacklogItem_def item_key_def nth_append)
  next
    fix t' rd
    assume "rs_waiting ?s t' = Some rd"
    then have "reader_ok s rd \<or> rd = \<lparr>rd_pid = p, rd_address = a, rd_size = n, rd_item = ?j\<rparr>"
      using read_invD(4) [OF inv, of t' rd] s'(1) by (auto split: if_splits)
    then show "reader_ok ?s rd"
      using s'(2) pend by (auto simp: reader_ok_def nth_append new_BacklogItem_def Let_def)
  qed
qed

lemma read_inv_enqueue:
  assumes "read_inv s" "read_enqueue s p a n = (i, s')"
  shows "read_inv (s'\<lparr>rs_waiting := (rs_waiting s)(t \<mapsto> \<lparr>rd_pid = p, rd_address = a, rd_size = n, rd_item = i\<rparr>)\<rparr>)"
  using read_inv_join [OF assms] read_inv_fresh [OF assms] by (cases "map_of (rs_backlog s) (backlog_key p a n)") simp_all

text \<open>Taking a batch out of the backlog.\<close>

lemma form_batch_subseq:
  assumes "form_batch items order = (p, batch)"
  shows "subseq batch order" "\<forall>x \<in> set batch. bi_pid (items ! snd x) = p"
proof -
  obtain new where new: "collect p (with_items items order) [] 0 = new" "subseq new (with_items items order)"
      "\<forall>x \<in> set new. bi_pid (snd (snd x)) = p"
    using collect_subseq [of p "with_items items order" "[]" 0] by auto
  have batch: "batch = map (\<lambda>(k, i, it). (k, i)) new"
    using assms new(1) by (auto simp: form_batch_def Let_def)
  have "map (\<lambda>(k, i, it). (k, i)) (with_items items order) = order"
    by (induction order) (auto simp: with_items_def)
  with subseq_map [OF new(2), of "\<lambda>(k, i, it). (k, i)"] batch show "subseq batch order"
    by simp
  have "\<forall>x \<in> set new. snd (snd x) = items ! fst (snd x)"
    using set_mp [OF set_mono_subseq [OF new(2)]] by (fastforce simp: with_items_def)
  with new(3) batch show "\<forall>x \<in> set batch. bi_pid (items ! snd x) = p"
    by fastforce
qed

lemma read_inv_round:
  assumes inv: "read_inv s" and idle: "rs_phase s = Idle" and order: "mset order = mset (rs_backlog s)"
  shows "read_inv (dispatch_round s order)"
proof -
  obtain p batch where fb: "form_batch (rs_items s) order = (p, batch)"
    by fastforce
  let ?rest = "fold (\<lambda>(k, i). umap_erase k) batch (rs_backlog s)"
  let ?s = "dispatch_round s order"
  have s: "rs_items ?s = rs_items s" "rs_waiting ?s = rs_waiting s" "rs_backlog ?s = ?rest"
      "pending ?s = ?rest @ batch"
    using fb by (simp_all add: dispatch_round_def pending_def)
  have p: "pending s = rs_backlog s"
    using idle by (simp add: pending_def)
  have ok: "umap_ok (rs_backlog s)" "distinct (map snd (rs_backlog s))"
    using read_invD(1,2) [OF inv] p by simp_all
  have sub: "set batch \<subseteq> set (rs_backlog s)"
    using set_mono_subseq [OF form_batch_subseq(1) [OF fb]] mset_eq_setD [OF order] by blast
  have rest: "set ?rest = set (rs_backlog s) - set batch"
  proof -
    have "x \<in> set batch" if x: "x \<in> set (rs_backlog s)" "fst x \<in> fst ` set batch" for x
    proof -
      obtain y where "y \<in> set batch" "fst x = fst y"
        using x(2) by blast
      with x(1) sub umap_ok_key [OF ok(1), of x y] show ?thesis by blast
    qed
    then show ?thesis unfolding set_fold_erase by blast
  qed
  have "distinct order"
    using order ok(2) by (metis distinct_map mset_eq_imp_distinct_iff)
  then have "distinct batch"
    by (rule subseq_distinct [OF form_batch_subseq(1) [OF fb]])
  moreover have "distinct ?rest"
    using umap_ok_fold_erase [OF ok(1), of batch] by (auto simp: umap_ok_def distinct_map)
  ultimately have "distinct (map snd (?rest @ batch))"
    using rest sub ok(2) unfolding distinct_map by (auto intro: inj_on_subset)
  moreover have pend: "set (pending ?s) = set (pending s)"
    using rest sub unfolding s p by auto
  moreover have "reader_ok ?s rd" if "reader_ok s rd" for rd
    using that pend s(1) by (simp add: reader_ok_def)
  ultimately show ?thesis
    using read_invD [OF inv] umap_ok_fold_erase [OF ok(1), of batch]
    by (intro read_invI) (simp_all add: s)
qed

text \<open>Setting the promises of a batch.\<close>

lemma fulfil_length [simp]: "length (fst (fulfil batch vs items buffers)) = length items"
  by (induction batch vs items buffers rule: fulfil.induct) auto

lemma fulfil_buffers:
  "length vs = length batch \<Longrightarrow> snd (fulfil batch vs items buffers) = buffers @ map (Some \<circ> snd) vs"
  by (induction batch vs items buffers rule: fulfil.induct) auto

lemma fulfil_other: "j \<notin> snd ` set batch \<Longrightarrow> fst (fulfil batch vs items buffers) ! j = items ! j"
  by (induction batch vs items buffers rule: fulfil.induct) auto

lemma fulfil_nth:
  assumes "length vs = length batch" "distinct (map snd batch)" "\<forall>x \<in> set batch. snd x < length items"
    and "n < length batch"
  shows "fst (fulfil batch vs items buffers) ! snd (batch ! n)
    = (items ! snd (batch ! n))\<lparr>bi_promise := Some (fst (vs ! n), length buffers + n)\<rparr>"
  using assms
proof (induction batch vs items buffers arbitrary: n rule: fulfil.induct)
  case (1 k i batch r bs vs items buffers)
  show ?case
  proof (cases n)
    case 0
    with 1 show ?thesis by (simp add: fulfil_other)
  next
    case (Suc m)
    with 1 have "snd (batch ! m) \<noteq> i"
      by (metis distinct.simps(2) length_Cons list.simps(9) nth_mem Suc_less_eq image_eqI set_map snd_conv)
    with 1 Suc show ?thesis by simp
  qed
qed auto

lemma pending_batch:
  assumes inv: "read_inv s" and phase: "rs_phase s = Dispatching p batch" and order: "mset order = mset batch"
  shows "pending s = rs_backlog s @ batch" "set order = set batch" "distinct (map snd order)"
    "\<forall>x \<in> set order. snd x < length (rs_items s)" "x \<in> set (rs_backlog s) \<Longrightarrow> snd x \<notin> snd ` set order"
proof -
  show p: "pending s = rs_backlog s @ batch"
    using phase by (simp add: pending_def)
  show set_order: "set order = set batch"
    using order by (metis set_mset_mset)
  have "mset (map snd order) = mset (map snd batch)"
    using order by simp
  then have "distinct (map snd order) \<longleftrightarrow> distinct (map snd batch)"
    by (rule mset_eq_imp_distinct_iff)
  then show "distinct (map snd order)"
    using read_invD(2) [OF inv] p by simp
  show "\<forall>x \<in> set order. snd x < length (rs_items s)"
    using read_invD(3) [OF inv] p set_order by (auto simp: entry_ok_def)
  show "x \<in> set (rs_backlog s) \<Longrightarrow> snd x \<notin> snd ` set order"
    using read_invD(2) [OF inv] set_order unfolding p by auto
qed

text \<open>The items of a batch get a promise, and no item changes its request.\<close>

lemma fulfil_items:
  assumes "length vs = length order" "distinct (map snd order)" "\<forall>x \<in> set order. snd x < length items"
  shows "j \<in> snd ` set order \<Longrightarrow> bi_promise (fst (fulfil order vs items buffers) ! j) \<noteq> None"
    and "bi_pid (fst (fulfil order vs items buffers) ! j) = bi_pid (items ! j)
      \<and> bi_address (fst (fulfil order vs items buffers) ! j) = bi_address (items ! j)
      \<and> bi_size (fst (fulfil order vs items buffers) ! j) = bi_size (items ! j)"
proof -
  have nth: "\<exists>n < length order. j = snd (order ! n)" if "j \<in> snd ` set order"
    using that by (metis imageE in_set_conv_nth)
  show "j \<in> snd ` set order \<Longrightarrow> bi_promise (fst (fulfil order vs items buffers) ! j) \<noteq> None"
    using nth fulfil_nth [OF assms] by auto
  show "bi_pid (fst (fulfil order vs items buffers) ! j) = bi_pid (items ! j)
      \<and> bi_address (fst (fulfil order vs items buffers) ! j) = bi_address (items ! j)
      \<and> bi_size (fst (fulfil order vs items buffers) ! j) = bi_size (items ! j)"
    using nth fulfil_nth [OF assms] by (cases "j \<in> snd ` set order") (auto simp: fulfil_other)
qed

lemma read_inv_fulfil:
  assumes inv: "read_inv s" and phase: "rs_phase s = Dispatching p batch" and order: "mset order = mset batch"
    and len: "length vs = length order"
    and ful: "fulfil order vs (rs_items s) (rs_buffers s) = (items, buffers)"
    and s': "rs_items s' = items" "rs_backlog s' = rs_backlog s" "rs_waiting s' = rs_waiting s"
      "pending s' = rs_backlog s"
  shows "read_inv s'"
proof -
  have items: "items = fst (fulfil order vs (rs_items s) (rs_buffers s))"
    using ful by simp
  note p = pending_batch(1) [OF inv phase order] and set_order = pending_batch(2) [OF inv phase order]
    and disj = pending_batch(5) [OF inv phase order]
  note fulfilled = fulfil_items [OF len pending_batch(3,4) [OF inv phase order], where buffers = "rs_buffers s", folded items]
  show ?thesis
  proof (rule read_invI)
    show "umap_ok (rs_backlog s')" "distinct (map snd (pending s'))"
      using read_invD(1,2) [OF inv] p by (simp_all add: s')
  next
    fix x
    assume x: "x \<in> set (pending s')"
    then have "items ! snd x = rs_items s ! snd x" "x \<in> set (pending s)"
      using disj [of x] by (simp_all add: items fulfil_other s' p)
    then show "entry_ok (rs_items s') x"
      using read_invD(3) [OF inv, of x] by (simp add: entry_ok_def s'(1)) (simp add: items)
  next
    fix t rd
    assume "rs_waiting s' t = Some rd"
    then have ok: "reader_ok s rd"
      using read_invD(4) [OF inv] s'(3) by simp
    have "rd_item rd \<in> snd ` set (rs_backlog s) \<or> bi_promise (items ! rd_item rd) \<noteq> None"
    proof (cases "rd_item rd \<in> snd ` set order")
      case False
      then have "items ! rd_item rd = rs_items s ! rd_item rd"
        by (simp add: items fulfil_other)
      with ok False show ?thesis
        by (auto simp: reader_ok_def Let_def p set_order image_Un)
    qed (use fulfilled(1) in blast)
    with ok fulfilled(2) show "reader_ok s' rd"
      by (simp add: reader_ok_def Let_def s') (simp add: items)
  qed
qed

text \<open>Every step keeps the invariant; \<open>read_finish\<close> changes an item whose promise is set.\<close>

lemma get_changes:
  assumes "get buffers it = Inr (v, it')"
  shows "bi_pid it' = bi_pid it" "bi_address it' = bi_address it" "bi_size it' = bi_size it"
    "bi_promise it' = bi_promise it" "bi_promiseRead it' " "bi_promise it = None \<Longrightarrow> it' = it"
  using assms by (auto simp: get_def Let_def split: if_splits option.splits)

lemma read_finish_changes:
  assumes "read_finish s rd = Inr (v, s')"
  obtains it where "s' = s\<lparr>rs_items := (rs_items s)[rd_item rd := it]\<rparr>"
    "get (rs_buffers s) (rs_items s ! rd_item rd) = Inr ((fst v, bi_data it), it)"
    "snd v = take (unat (fst v)) (bi_data it)" "unat (fst v) \<le> unat (rd_size rd)"
proof -
  obtain r data it where g: "get (rs_buffers s) (rs_items s ! rd_item rd) = Inr ((r, data), it)"
    using assms by (auto simp: read_finish_def split: sum.splits)
  then have "data = bi_data it"
    by (auto simp: get_def Let_def split: if_splits option.splits)
  with g assms that show thesis
    by (auto simp: read_finish_def split: if_splits)
qed

lemma read_inv_finish:
  assumes inv: "read_inv s" and fin: "read_finish s rd = Inr (v, s')"
    and s'': "s'' = s'\<lparr>rs_waiting := (rs_waiting s)(t := None), rs_done := d\<rparr>"
  shows "read_inv s''"
proof -
  obtain it where s': "s' = s\<lparr>rs_items := (rs_items s)[rd_item rd := it]\<rparr>"
      and g: "get (rs_buffers s) (rs_items s ! rd_item rd) = Inr ((fst v, bi_data it), it)"
    using read_finish_changes [OF fin] by metis
  note ch = get_changes [OF g]
  let ?items = "(rs_items s)[rd_item rd := it]"
  have p: "pending s'' = pending s" "rs_items s'' = ?items"
    by (simp_all add: s'' s' pending_def)
  have same: "bi_pid (?items ! j) = bi_pid (rs_items s ! j) \<and> bi_address (?items ! j) = bi_address (rs_items s ! j)
      \<and> bi_size (?items ! j) = bi_size (rs_items s ! j) \<and> bi_promise (?items ! j) = bi_promise (rs_items s ! j)"
    if "j < length (rs_items s)" for j
    using ch that by (cases "j = rd_item rd") simp_all
  have none: "?items ! j = rs_items s ! j" if "j < length (rs_items s)" "bi_promise (rs_items s ! j) = None" for j
    using ch that by (cases "j = rd_item rd") simp_all
  show ?thesis
  proof (rule read_invI)
    fix x
    assume "x \<in> set (pending s'')"
    then have "entry_ok (rs_items s) x"
      using read_invD(3) [OF inv] p by simp
    with none [of "snd x"] show "entry_ok (rs_items s'') x"
      by (simp add: entry_ok_def p)
  next
    fix t' rd'
    assume "rs_waiting s'' t' = Some rd'"
    then have "reader_ok s rd'"
      using read_invD(4) [OF inv] by (auto simp: s'' split: if_splits)
    with same [of "rd_item rd'"] show "reader_ok s'' rd'"
      by (simp add: reader_ok_def p Let_def)
  qed (use read_invD(1,2) [OF inv] p in \<open>simp_all add: s'' s'\<close>)
qed

lemma read_inv_frame:
  assumes "read_inv s" "rs_items s' = rs_items s" "rs_backlog s' = rs_backlog s"
    and "rs_waiting s' = rs_waiting s" "pending s' = pending s"
  shows "read_inv s'"
  using assms by (simp add: read_inv_def reader_ok_def)

lemma read_step_inv:
  assumes "read_step api h s s'" "read_inv s"
  shows "read_inv s'"
  using assms
proof (induction rule: read_step.induct)
  case (enqueue s t p a n i s')
  then show ?case using read_inv_enqueue by blast
next
  case (round s order)
  then show ?case using read_inv_round by blast
next
  case (no_batch s p)
  show ?case by (rule read_inv_frame [OF no_batch(2)]) (simp_all add: pending_def no_batch(1))
next
  case (sequential s p k i v D items buffers)
  show ?case
    by (rule read_inv_fulfil [OF sequential(4) sequential(1) refl _ sequential(3)])
      (simp_all add: pending_def)
next
  case (release s b)
  show ?case by (rule read_inv_frame [OF release(2)]) (simp_all add: pending_def release(1))
next
  case (scatter s p batch order vs D items buffers)
  have "length vs = length order"
    using length_dispatch [OF scatter(4)] by simp
  then show ?case
    by (rule read_inv_fulfil [OF scatter(6) scatter(1,3) _ scatter(5)]) (simp_all add: pending_def)
next
  case (finish s t rd v s')
  then show ?case using read_inv_finish by blast
qed

lemma read_steps_inv: "read_steps api h s s' \<Longrightarrow> read_inv s \<Longrightarrow> read_inv s'"
  by (induction rule: read_steps.induct) (auto dest: read_step_inv)

section \<open>A reader gets an answer to its own request\<close>

text \<open>
  \<open>device_answer\<close>: a count and a buffer that the device produced when it was asked for exactly this
  process, address and size, by a direct read or through a scatter handle of this process.
\<close>

definition direct_answer :: "'d vmmdll \<Rightarrow> vmm_handle \<Rightarrow> pid \<Rightarrow> address \<Rightarrow> u64 \<Rightarrow> u64 \<times> byte list \<Rightarrow> bool" where
  "direct_answer api h p a n v \<longleftrightarrow>
     (\<exists>D ok bs r D'. VMMDLL_MemReadEx api D h p a (ucast n) (scatterFlags api) = (ok, bs, r, D')
        \<and> v = (ucast r, promise_buffer n bs))"

definition scatter_answer :: "'d vmmdll \<Rightarrow> vmm_handle \<Rightarrow> pid \<Rightarrow> address \<Rightarrow> u64 \<Rightarrow> u64 \<times> byte list \<Rightarrow> bool" where
  "scatter_answer api h p a n v \<longleftrightarrow>
     (\<exists>D0 D1 D sc ok bs r D'. VMMDLL_Scatter_Initialize api D0 h p (scatterFlags api) = (sc, D1)
        \<and> VMMDLL_Scatter_Read api D sc a (ucast n) = (ok, bs, r, D')
        \<and> v = (ucast r, promise_buffer n bs))"

definition device_answer :: "'d vmmdll \<Rightarrow> vmm_handle \<Rightarrow> pid \<Rightarrow> address \<Rightarrow> u64 \<Rightarrow> u64 \<times> byte list \<Rightarrow> bool" where
  "device_answer api h p a n v \<longleftrightarrow> direct_answer api h p a n v \<or> scatter_answer api h p a n v"

lemma device_answer_length: "device_answer api h p a n (r, bs) \<Longrightarrow> length bs = unat n"
  by (auto simp: device_answer_def direct_answer_def scatter_answer_def)

lemma sequential_read_answer:
  "sequential_read api h p D it = (v, D') \<Longrightarrow> bi_pid it = p \<Longrightarrow>
     device_answer api h (bi_pid it) (bi_address it) (bi_size it) v"
  unfolding device_answer_def direct_answer_def sequential_read_def
  by (force simp: Let_def split: prod.splits)

lemma dispatch_answer:
  assumes "dispatch api h p D items = (vs, D')" "SCATTER_READ_THRESHOLD < length items"
    and "j < length items" "bi_pid (items ! j) = p"
  shows "device_answer api h (bi_pid (items ! j)) (bi_address (items ! j)) (bi_size (items ! j)) (vs ! j)"
proof -
  obtain sc D1 where sc: "VMMDLL_Scatter_Initialize api D h p (scatterFlags api) = (sc, D1)"
    by fastforce
  obtain D2 D3 where "scatter_reads api sc D2 items = (vs, D3)"
    using assms(1,2) sc by (auto simp: dispatch_def Let_def split: prod.splits)
  from scatter_reads_chain [OF this] assms(3) show ?thesis
    using sc assms(4) unfolding device_answer_def scatter_answer_def by blast
qed

definition item_answered :: "'d vmmdll \<Rightarrow> vmm_handle \<Rightarrow> byte list option list \<Rightarrow> backlog_item \<Rightarrow> bool" where
  "item_answered api h buffers it \<longleftrightarrow>
     (\<forall>r b. bi_promise it = Some (r, b) \<longrightarrow> b < length buffers
        \<and> (\<forall>bs. buffers ! b = Some bs \<longrightarrow> device_answer api h (bi_pid it) (bi_address it) (bi_size it) (r, bs)))
     \<and> (bi_promiseRead it \<longrightarrow>
          device_answer api h (bi_pid it) (bi_address it) (bi_size it) (bi_read it, bi_data it))"

definition done_ok :: "'d vmmdll \<Rightarrow> vmm_handle \<Rightarrow> reader \<times> u64 \<times> byte list \<Rightarrow> bool" where
  "done_ok api h x \<longleftrightarrow>
     (case x of (rd, r, bs) \<Rightarrow>
        unat r \<le> unat (rd_size rd)
        \<and> (\<exists>full. device_answer api h (rd_pid rd) (rd_address rd) (rd_size rd) (r, full) \<and> bs = take (unat r) full))"

definition answers_ok :: "'d vmmdll \<Rightarrow> vmm_handle \<Rightarrow> 'd read_sys \<Rightarrow> bool" where
  "answers_ok api h s \<longleftrightarrow>
     read_inv s \<and> (\<forall>it \<in> set (rs_items s). item_answered api h (rs_buffers s) it)
     \<and> (\<forall>p batch. rs_phase s = Dispatching p batch \<longrightarrow> (\<forall>x \<in> set batch. bi_pid (rs_items s ! snd x) = p))
     \<and> (\<forall>t x. rs_done s t = Some x \<longrightarrow> done_ok api h x)"

lemma answers_okI:
  assumes "read_inv s" "\<And>j. j < length (rs_items s) \<Longrightarrow> item_answered api h (rs_buffers s) (rs_items s ! j)"
    and "\<And>p batch x. rs_phase s = Dispatching p batch \<Longrightarrow> x \<in> set batch \<Longrightarrow> bi_pid (rs_items s ! snd x) = p"
    and "\<And>t x. rs_done s t = Some x \<Longrightarrow> done_ok api h x"
  shows "answers_ok api h s"
  using assms unfolding answers_ok_def by (auto simp: in_set_conv_nth)

lemma answers_okD:
  assumes "answers_ok api h s"
  shows "read_inv s" "j < length (rs_items s) \<Longrightarrow> item_answered api h (rs_buffers s) (rs_items s ! j)"
    and "rs_phase s = Dispatching p batch \<Longrightarrow> x \<in> set batch \<Longrightarrow> bi_pid (rs_items s ! snd x) = p"
    and "rs_done s t = Some y \<Longrightarrow> done_ok api h y"
  using assms unfolding answers_ok_def by (simp, simp, blast, blast)

lemma answers_ok_new: "answers_ok api h (new_read_sys D)"
  using read_inv_new [of D] by (simp add: answers_ok_def new_read_sys_def)

lemma item_answered_more:
  "item_answered api h buffers it \<Longrightarrow> item_answered api h (buffers @ bufs) it"
  unfolding item_answered_def by (auto simp: nth_append)

lemma item_answered_less:
  "item_answered api h buffers it \<Longrightarrow> item_answered api h (buffers[b := None]) it"
proof -
  have "buffers ! c = Some bs" if "buffers[b := None] ! c = Some bs" "c < length buffers" for c bs
    using that by (cases "c = b") simp_all
  then show "item_answered api h buffers it \<Longrightarrow> item_answered api h (buffers[b := None]) it"
    unfolding item_answered_def by simp
qed

lemma item_answered_new: "item_answered api h buffers (new_BacklogItem p a n)"
  by (simp add: item_answered_def new_BacklogItem_def)

lemma get_answer:
  assumes "item_answered api h buffers it" "get buffers it = Inr (v, it')"
  shows "item_answered api h buffers it'" "v = (bi_read it', bi_data it')"
    "device_answer api h (bi_pid it) (bi_address it) (bi_size it) v"
proof -
  consider (copied) "bi_promiseRead it" "it' = it" "v = (bi_read it, bi_data it)"
    | (first) r b bs where "\<not> bi_promiseRead it" "bi_promise it = Some (r, b)" "b < length buffers" "buffers ! b = Some bs"
      "v = (r, take (unat (bi_size it)) bs)"
      "it' = it\<lparr>bi_read := r, bi_data := take (unat (bi_size it)) bs, bi_promiseRead := True\<rparr>"
    using assms(2) by (auto simp: get_def Let_def split: if_splits option.splits)
  then have "item_answered api h buffers it' \<and> v = (bi_read it', bi_data it')
      \<and> device_answer api h (bi_pid it) (bi_address it) (bi_size it) v"
  proof cases
    case copied
    with assms(1) show ?thesis by (simp add: item_answered_def)
  next
    case first
    then have "device_answer api h (bi_pid it) (bi_address it) (bi_size it) (r, bs)"
      using assms(1) by (simp add: item_answered_def)
    moreover from this have "take (unat (bi_size it)) bs = bs"
      by (simp add: device_answer_length)
    ultimately show ?thesis
      using first assms(1) by (simp add: item_answered_def)
  qed
  then show "item_answered api h buffers it'" "v = (bi_read it', bi_data it')"
    "device_answer api h (bi_pid it) (bi_address it) (bi_size it) v" by blast+
qed

lemma answers_ok_enqueue:
  assumes ok: "answers_ok api h s" and enq: "read_enqueue s p a n = (i, s')"
  shows "answers_ok api h (s'\<lparr>rs_waiting := (rs_waiting s)(t \<mapsto> \<lparr>rd_pid = p, rd_address = a, rd_size = n, rd_item = i\<rparr>)\<rparr>)"
    (is "answers_ok api h ?s")
proof -
  have s': "rs_items s' = rs_items s \<or> rs_items s' = rs_items s @ [new_BacklogItem p a n]"
      "rs_buffers s' = rs_buffers s" "rs_phase s' = rs_phase s" "rs_done s' = rs_done s"
    using enq by (auto simp: read_enqueue_def Let_def split: option.splits)
  show ?thesis
  proof (rule answers_okI)
    show "read_inv ?s" using read_inv_enqueue [OF answers_okD(1) [OF ok] enq] .
  next
    fix j
    assume "j < length (rs_items ?s)"
    with s'(1,2) answers_okD(2) [OF ok, of j] show "item_answered api h (rs_buffers ?s) (rs_items ?s ! j)"
      by (auto simp: nth_append item_answered_new less_Suc_eq split: if_splits)
  next
    fix p' batch x
    assume ph: "rs_phase ?s = Dispatching p' batch" "x \<in> set batch"
    then have "x \<in> set (pending s)" "rs_phase s = Dispatching p' batch"
      using s'(3) by (simp_all add: pending_def)
    moreover from this have "snd x < length (rs_items s)"
      using read_invD(3) [OF answers_okD(1) [OF ok]] by (auto simp: entry_ok_def)
    ultimately show "bi_pid (rs_items ?s ! snd x) = p'"
      using s'(1) answers_okD(3) [OF ok _ ph(2)] by (auto simp: nth_append)
  qed (use s'(4) answers_okD(4) [OF ok] in auto)
qed

lemma answers_ok_fulfil:
  assumes ok: "answers_ok api h s" and phase: "rs_phase s = Dispatching p batch" and order: "mset order = mset batch"
    and len: "length vs = length order"
    and answered: "\<And>j. j < length order \<Longrightarrow> bi_pid (rs_items s ! snd (order ! j)) = p \<Longrightarrow>
      device_answer api h (bi_pid (rs_items s ! snd (order ! j))) (bi_address (rs_items s ! snd (order ! j)))
        (bi_size (rs_items s ! snd (order ! j))) (vs ! j)"
    and ful: "fulfil order vs (rs_items s) (rs_buffers s) = (items, buffers)"
    and s': "rs_items s' = items" "rs_buffers s' = buffers" "rs_done s' = rs_done s" "read_inv s'"
      "\<And>p b. rs_phase s' \<noteq> Dispatching p b"
  shows "answers_ok api h s'"
proof (rule answers_okI)
  have items: "items = fst (fulfil order vs (rs_items s) (rs_buffers s))" and buffers: "buffers = rs_buffers s @ map (Some \<circ> snd) vs"
    using ful fulfil_buffers [OF len, of "rs_items s" "rs_buffers s"] by simp_all
  have inv: "read_inv s" by (rule answers_okD(1) [OF ok])
  have pend: "pending s = rs_backlog s @ batch" and set_order: "set order = set batch"
    using phase order by (simp add: pending_def, metis set_mset_mset)
  have "mset (map snd order) = mset (map snd batch)"
    using order by simp
  then have "distinct (map snd order) \<longleftrightarrow> distinct (map snd batch)"
    by (rule mset_eq_imp_distinct_iff)
  then have dist: "distinct (map snd order)"
    using read_invD(2) [OF inv] pend by simp
  have entry: "entry_ok (rs_items s) x" if "x \<in> set order" for x
    using read_invD(3) [OF inv, of x] that pend set_order by simp
  then have bound: "\<forall>x \<in> set order. snd x < length (rs_items s)"
    by (simp add: entry_ok_def)
  fix j
  assume j: "j < length (rs_items s')"
  show "item_answered api h (rs_buffers s') (rs_items s' ! j)"
  proof (cases "j \<in> snd ` set order")
    case False
    with j answers_okD(2) [OF ok, of j] show ?thesis
      by (simp add: s' items buffers fulfil_other item_answered_more)
  next
    case True
    then obtain m where m: "m < length order" "j = snd (order ! m)"
      by (auto simp: in_set_conv_nth)
    have "bi_pid (rs_items s ! j) = p"
      using answers_okD(3) [OF ok phase, of "order ! m"] m set_order nth_mem by blast
    then have "device_answer api h (bi_pid (rs_items s ! j)) (bi_address (rs_items s ! j)) (bi_size (rs_items s ! j)) (vs ! m)"
      using answered [of m] m by simp
    moreover have "\<not> bi_promiseRead (rs_items s ! j)"
      using entry [of "order ! m"] m by (simp add: entry_ok_def)
    moreover have "items ! j = (rs_items s ! j)\<lparr>bi_promise := Some (fst (vs ! m), length (rs_buffers s) + m)\<rparr>"
      using fulfil_nth [OF len dist bound m(1)] m(2) by (simp add: items)
    ultimately show ?thesis
      using m(1) len by (simp add: s' buffers item_answered_def nth_append)
  qed
qed (use s' answers_okD(4) [OF ok] in auto)

lemma answers_ok_finish:
  assumes ok: "answers_ok api h s" and wait: "rs_waiting s t = Some rd" and fin: "read_finish s rd = Inr (v, s')"
  shows "answers_ok api h (s'\<lparr>rs_waiting := (rs_waiting s)(t := None), rs_done := (rs_done s)(t \<mapsto> (rd, v))\<rparr>)"
    (is "answers_ok api h ?s")
proof -
  obtain it where s': "s' = s\<lparr>rs_items := (rs_items s)[rd_item rd := it]\<rparr>"
      and g: "get (rs_buffers s) (rs_items s ! rd_item rd) = Inr ((fst v, bi_data it), it)"
      and v: "snd v = take (unat (fst v)) (bi_data it)" "unat (fst v) \<le> unat (rd_size rd)"
    using read_finish_changes [OF fin] by metis
  have rok: "reader_ok s rd"
    by (rule read_invD(4) [OF answers_okD(1) [OF ok] wait])
  then have i: "rd_item rd < length (rs_items s)"
    by (simp add: reader_ok_def)
  note ga = get_answer [OF answers_okD(2) [OF ok i] g]
  show ?thesis
  proof (rule answers_okI)
    show "read_inv ?s" using read_inv_finish [OF answers_okD(1) [OF ok] fin refl] .
  next
    fix j
    assume "j < length (rs_items ?s)"
    with answers_okD(2) [OF ok, of j] ga(1) show "item_answered api h (rs_buffers ?s) (rs_items ?s ! j)"
      by (cases "j = rd_item rd") (simp_all add: s')
  next
    fix p batch x
    assume "rs_phase ?s = Dispatching p batch" "x \<in> set batch"
    then have "bi_pid (rs_items s ! snd x) = p"
      using answers_okD(3) [OF ok] by (simp add: s')
    then show "bi_pid (rs_items ?s ! snd x) = p"
      using get_changes(1) [OF g] i by (cases "snd x = rd_item rd") (simp_all add: s')
  next
    fix t' x
    assume "rs_done ?s t' = Some x"
    moreover have "done_ok api h (rd, v)"
      using ga(3) v rok unfolding done_ok_def reader_ok_def Let_def by (cases v) auto
    ultimately show "done_ok api h x"
      using answers_okD(4) [OF ok, of t' x] by (auto simp: s' split: if_splits)
  qed
qed

lemma answers_ok_round:
  assumes ok: "answers_ok api h s" and round: "rs_phase s = Idle" "mset order = mset (rs_backlog s)"
  shows "answers_ok api h (dispatch_round s order)"
proof -
  obtain p batch where fb: "form_batch (rs_items s) order = (p, batch)"
    by fastforce
  then have s': "rs_items (dispatch_round s order) = rs_items s" "rs_buffers (dispatch_round s order) = rs_buffers s"
      "rs_done (dispatch_round s order) = rs_done s" "rs_phase (dispatch_round s order) = Dispatching p batch"
    by (simp_all add: dispatch_round_def)
  show ?thesis
    by (rule answers_okI) (use read_inv_round [OF answers_okD(1) [OF ok] round] answers_okD(2,4) [OF ok]
        form_batch_subseq(2) [OF fb] in \<open>auto simp: s'\<close>)
qed

lemma answers_ok_scatter:
  assumes ok: "answers_ok api h s" and phase: "rs_phase s = Dispatching p batch" "SCATTER_READ_THRESHOLD < length batch" "mset order = mset batch"
    and disp: "dispatch api h p (rs_device s) (map (\<lambda>(k, i). rs_items s ! i) order) = (vs, D)"
    and ful: "fulfil order vs (rs_items s) (rs_buffers s) = (items, buffers)"
    and inv: "read_inv (s\<lparr>rs_items := items, rs_buffers := buffers, rs_device := D, rs_phase := Idle\<rparr>)"
  shows "answers_ok api h (s\<lparr>rs_items := items, rs_buffers := buffers, rs_device := D, rs_phase := Idle\<rparr>)"
proof -
  let ?items = "map (\<lambda>(k, i). rs_items s ! i) order"
  have "length order = length batch"
    using phase(3) by (metis size_mset)
  then have len: "length vs = length order" "SCATTER_READ_THRESHOLD < length ?items"
    using length_dispatch [OF disp] phase(2) by simp_all
  have nth: "?items ! j = rs_items s ! snd (order ! j)" if "j < length order" for j
    using that by (simp add: split_def)
  show ?thesis
    using inv dispatch_answer [OF disp len(2)] nth
    by (intro answers_ok_fulfil [OF ok phase(1,3) len(1) _ ful]) simp_all
qed

lemma read_step_answers:
  assumes "read_step api h s s'" "answers_ok api h s"
  shows "answers_ok api h s'"
proof -
  have inv: "read_inv s'"
    using read_step_inv [OF assms(1)] answers_okD(1) [OF assms(2)] by blast
  show ?thesis
    using assms(1)
  proof cases
    case (enqueue t p a n i s'')
    then show ?thesis using answers_ok_enqueue [OF assms(2)] by simp
  next
    case (round order)
    then show ?thesis using answers_ok_round [OF assms(2)] by simp
  next
    case (no_batch p)
    with inv show ?thesis
      using answers_okD [OF assms(2)] by (intro answers_okI) auto
  next
    case (sequential p k i v D items buffers)
    have "device_answer api h (bi_pid (rs_items s ! i)) (bi_address (rs_items s ! i)) (bi_size (rs_items s ! i)) v"
      if "bi_pid (rs_items s ! i) = p"
      using sequential_read_answer [OF sequential(3) that] .
    with inv show ?thesis
      using sequential(1) by (intro answers_ok_fulfil [OF assms(2) sequential(2) refl _ _ sequential(4)]) simp_all
  next
    case (release b)
    with inv show ?thesis
      using answers_okD [OF assms(2)] by (intro answers_okI) (auto simp: item_answered_less)
  next
    case (scatter p batch order vs D items buffers)
    then show ?thesis
      using answers_ok_scatter [OF assms(2) scatter(2-6)] inv by simp
  next
    case (finish t rd v s'')
    then show ?thesis using answers_ok_finish [OF assms(2)] by simp
  qed
qed

lemma read_steps_answers: "read_steps api h s s' \<Longrightarrow> answers_ok api h s \<Longrightarrow> answers_ok api h s'"
  by (induction rule: read_steps.induct) (auto dest: read_step_answers)

section \<open>Progress and starvation\<close>

text \<open>
  A request of a gigabyte or more stays in the backlog whatever the threads do, and its reader
  waits for ever.
\<close>

definition stuck :: "'d read_sys \<Rightarrow> nat \<Rightarrow> reader \<Rightarrow> bool" where
  "stuck s t rd \<longleftrightarrow>
     rs_waiting s t = Some rd \<and> rd_item rd \<in> snd ` set (rs_backlog s) \<and> oversized (rs_items s ! rd_item rd)"

lemma form_batch_not_oversized:
  assumes "form_batch items order = (p, batch)" "x \<in> set batch"
  shows "\<not> oversized (items ! snd x)"
proof -
  let ?new = "collect p (with_items items order) [] 0"
  have batch: "batch = map (\<lambda>(k, i, it). (k, i)) ?new"
    using assms(1) by (auto simp: form_batch_def Let_def)
  then obtain k i it where x: "x = (k, i)" "(k, i, it) \<in> set ?new"
    using assms(2) by auto
  then have "it = items ! i"
    using collect_subset [of p "with_items items order" "[]" 0] by (auto simp: with_items_def)
  moreover have "\<not> oversized it"
    using collect_not_oversized [of 0 "[]" p "with_items items order"] x(2)
    by (force simp: MAX_BYTES_PER_DISPATCH_def)
  ultimately show ?thesis using x(1) by simp
qed

lemma stuck_round:
  assumes inv: "read_inv s" and order: "mset order = mset (rs_backlog s)" and st: "stuck s t rd"
  shows "stuck (dispatch_round s order) t rd"
proof -
  obtain p batch where fb: "form_batch (rs_items s) order = (p, batch)"
    by fastforce
  then have s': "rs_items (dispatch_round s order) = rs_items s" "rs_waiting (dispatch_round s order) = rs_waiting s"
      "rs_backlog (dispatch_round s order) = fold (\<lambda>(k, i). umap_erase k) batch (rs_backlog s)"
    by (simp_all add: dispatch_round_def)
  obtain x where x: "x \<in> set (rs_backlog s)" "snd x = rd_item rd" "oversized (rs_items s ! snd x)"
    using st by (auto simp: stuck_def)
  have "fst x \<notin> fst ` set batch"
  proof
    assume "fst x \<in> fst ` set batch"
    then obtain y where y: "y \<in> set batch" "fst y = fst x"
      by auto
    have "y \<in> set (rs_backlog s)"
      using y(1) set_mono_subseq [OF form_batch_subseq(1) [OF fb]] mset_eq_setD [OF order] by blast
    with y(2) x(1) have "y = x"
      using umap_ok_key [OF read_invD(1) [OF inv], of y x] by simp
    with form_batch_not_oversized [OF fb y(1)] x(3) show False by simp
  qed
  then have "x \<in> set (rs_backlog (dispatch_round s order))"
    using x(1) by (simp add: s' set_fold_erase)
  with x st show ?thesis by (auto simp: stuck_def s')
qed

lemma stuck_fulfil:
  assumes inv: "read_inv s" and phase: "rs_phase s = Dispatching p batch" and order: "set order \<subseteq> set batch"
    and st: "stuck s t rd" and s': "rs_items s' = fst (fulfil order vs (rs_items s) buffers)"
      "rs_backlog s' = rs_backlog s" "rs_waiting s' = rs_waiting s"
  shows "stuck s' t rd"
proof -
  have "pending s = rs_backlog s @ batch"
    using phase by (simp add: pending_def)
  then have "rd_item rd \<notin> snd ` set order"
    using read_invD(2) [OF inv] st order by (auto simp: stuck_def)
  then show ?thesis
    using st by (simp add: stuck_def s' fulfil_other)
qed

lemma backlog_never_finishes:
  assumes inv: "read_inv s" and item: "rd_item rd \<in> snd ` set (rs_backlog s)"
  shows "read_finish s rd = Inl Never_returns"
proof -
  obtain x where x: "x \<in> set (rs_backlog s)" "snd x = rd_item rd"
    using item by auto
  then have "entry_ok (rs_items s) x"
    by (intro read_invD(3) [OF inv]) (simp add: pending_def)
  with x(2) have "bi_promise (rs_items s ! rd_item rd) = None"
      "\<not> bi_promiseRead (rs_items s ! rd_item rd)"
    by (auto simp: entry_ok_def)
  then show ?thesis by (simp add: read_finish_def get_def)
qed

lemma stuck_never_finishes: "read_inv s \<Longrightarrow> stuck s t rd \<Longrightarrow> read_finish s rd = Inl Never_returns"
  using backlog_never_finishes by (auto simp: stuck_def)

lemma stuck_step:
  assumes "read_step api h s s'" "read_inv s" "stuck s t rd"
  shows "stuck s' t rd"
  using assms(1)
proof cases
  case (enqueue t' p a n i s'')
  have "rd_item rd < length (rs_items s)"
    using read_invD(4) [OF assms(2)] assms(3) by (auto simp: stuck_def reader_ok_def)
  with enqueue assms(3) show ?thesis
    by (auto simp: stuck_def read_enqueue_def Let_def umap_assign_absent nth_append split: option.splits)
next
  case (round order)
  then show ?thesis using stuck_round [OF assms(2) _ assms(3)] by simp
next
  case (sequential p k i v D items buffers)
  show ?thesis
    by (rule stuck_fulfil [OF assms(2) sequential(2) order.refl assms(3), where vs = "[v]" and buffers = "rs_buffers s"])
      (simp_all add: sequential(1,4) del: fulfil.simps)
next
  case (scatter p batch order vs D items buffers)
  show ?thesis
    by (rule stuck_fulfil [OF assms(2) scatter(2) _ assms(3), where order = order and vs = vs and buffers = "rs_buffers s"])
      (use scatter(1,4,6) in \<open>auto dest: mset_eq_setD\<close>)
next
  case (finish t' rd' v s'')
  obtain it where s'': "s'' = s\<lparr>rs_items := (rs_items s)[rd_item rd' := it]\<rparr>"
      and g: "get (rs_buffers s) (rs_items s ! rd_item rd') = Inr ((fst v, bi_data it), it)"
    using read_finish_changes [OF finish(3)] by metis
  have "t' \<noteq> t"
    using stuck_never_finishes [OF assms(2,3)] finish(2,3) assms(3) by (auto simp: stuck_def)
  moreover have "bi_size ((rs_items s)[rd_item rd' := it] ! rd_item rd) = bi_size (rs_items s ! rd_item rd)"
    using get_changes(3) [OF g]
    by (cases "rd_item rd' < length (rs_items s)"; cases "rd_item rd' = rd_item rd") (simp_all add: list_update_beyond)
  ultimately show ?thesis
    using assms(3) finish(1) by (simp add: stuck_def s'' oversized_def)
qed (use assms(3) in \<open>simp_all add: stuck_def\<close>)

lemma stuck_steps:
  "read_steps api h s s' \<Longrightarrow> read_inv s \<Longrightarrow> stuck s t rd \<Longrightarrow> stuck s' t rd"
proof (induction rule: read_steps.induct)
  case (more s s' s'')
  then show ?case using read_steps_inv [OF more(1)] stuck_step by blast
qed

text \<open>
  Without such requests every round takes at least one request out of the backlog, and the
  dispatch thread alone brings the backlog down to empty, whatever the device answers.
\<close>

lemma fulfil_sizes: "map bi_size (fst (fulfil batch vs items buffers)) = map bi_size items"
proof (induction batch vs items buffers rule: fulfil.induct)
  case (1 k i batch r bs vs items buffers)
  have "map bi_size (items[i := (items ! i)\<lparr>bi_promise := q\<rparr>]) = map bi_size items" for q
    by (cases "i < length items") (simp_all add: map_update list_update_same_conv list_update_beyond)
  with 1 show ?case by simp
qed auto

lemma read_steps_one: "read_step api h s s' \<Longrightarrow> read_steps api h s s'"
  by (rule read_steps.more [OF read_steps.none])

lemma read_steps_trans: "read_steps api h s s' \<Longrightarrow> read_steps api h s' s'' \<Longrightarrow> read_steps api h s s''"
  by (rotate_tac, induction rule: read_steps.induct) (auto intro: read_steps.more)

definition same_requests :: "'d read_sys \<Rightarrow> 'd read_sys \<Rightarrow> bool" where
  "same_requests s s' \<longleftrightarrow>
     rs_backlog s' = rs_backlog s \<and> rs_waiting s' = rs_waiting s
     \<and> map bi_size (rs_items s') = map bi_size (rs_items s)"

lemma finish_sequential:
  assumes "rs_phase s = Dispatching p [(k, i)]"
  shows "\<exists>s'. read_steps api h s s' \<and> rs_phase s' = Idle \<and> same_requests s s'"
proof -
  obtain v D where v: "sequential_read api h p (rs_device s) (rs_items s ! i) = (v, D)"
    by fastforce
  obtain items buffers where f: "fulfil [(k, i)] [v] (rs_items s) (rs_buffers s) = (items, buffers)"
    by fastforce
  let ?s1 = "s\<lparr>rs_items := items, rs_buffers := buffers, rs_device := D, rs_phase := Releasing (length (rs_buffers s))\<rparr>"
  let ?s2 = "?s1\<lparr>rs_buffers := (rs_buffers ?s1)[length (rs_buffers s) := None],
    rs_device := VMMDLL_MemFree (rs_device ?s1) PromiseBuffer, rs_phase := Idle\<rparr>"
  have "read_step api h s ?s1"
    by (rule read_step.sequential [OF assms v f])
  moreover have "read_step api h ?s1 ?s2"
    by (rule read_step.release) simp
  ultimately have "read_steps api h s ?s2"
    using read_steps_one read_steps.more by blast
  moreover have "map bi_size items = map bi_size (rs_items s)"
    using fulfil_sizes [of "[(k, i)]" "[v]" "rs_items s" "rs_buffers s"] f by simp
  ultimately show ?thesis
    by (intro exI [of _ ?s2]) (simp add: same_requests_def)
qed

lemma finish_scatter:
  assumes "rs_phase s = Dispatching p batch" "SCATTER_READ_THRESHOLD < length batch"
  shows "\<exists>s'. read_steps api h s s' \<and> rs_phase s' = Idle \<and> same_requests s s'"
proof -
  obtain vs D where v: "dispatch api h p (rs_device s) (map (\<lambda>(k, i). rs_items s ! i) batch) = (vs, D)"
    by fastforce
  obtain items buffers where f: "fulfil batch vs (rs_items s) (rs_buffers s) = (items, buffers)"
    by fastforce
  have "map bi_size items = map bi_size (rs_items s)"
    using fulfil_sizes [of batch vs "rs_items s" "rs_buffers s"] f by simp
  then show ?thesis
    using read_steps_one [OF read_step.scatter [OF assms refl v f]]
    by (intro exI [of _ "s\<lparr>rs_items := items, rs_buffers := buffers, rs_device := D, rs_phase := Idle\<rparr>"])
      (simp add: same_requests_def)
qed

lemma finish_phase: "\<exists>s'. read_steps api h s s' \<and> rs_phase s' = Idle \<and> same_requests s s'"
proof (cases "rs_phase s")
  case Idle
  then show ?thesis by (intro exI [of _ s]) (simp add: read_steps.none same_requests_def)
next
  case (Releasing b)
  from read_steps_one [OF read_step.release [OF this]] show ?thesis
    by (intro exI conjI, assumption) (simp_all add: same_requests_def)
next
  case (Dispatching p batch)
  consider "batch = []" | k i where "batch = [(k, i)]" | "SCATTER_READ_THRESHOLD < length batch"
    by (cases batch rule: remdups_adj.cases) (auto simp: SCATTER_READ_THRESHOLD_def)
  then show ?thesis
  proof cases
    case 1
    with Dispatching have "rs_phase s = Dispatching p []" by simp
    from read_steps_one [OF read_step.no_batch [OF this]] show ?thesis
      by (intro exI conjI, assumption) (simp_all add: same_requests_def)
  next
    case 2
    with Dispatching show ?thesis using finish_sequential by blast
  next
    case 3
    with Dispatching show ?thesis using finish_scatter by blast
  qed
qed

lemma round_shrinks:
  assumes inv: "read_inv s" and order: "mset order = mset (rs_backlog s)" and some: "rs_backlog s \<noteq> []"
    and fits: "\<forall>x \<in> set (rs_backlog s). unat (bi_size (rs_items s ! snd x)) < 1000000000"
  shows "length (rs_backlog (dispatch_round s order)) < length (rs_backlog s)"
    and "set (rs_backlog (dispatch_round s order)) \<subseteq> set (rs_backlog s)"
proof -
  obtain p batch where fb: "form_batch (rs_items s) order = (p, batch)"
    by fastforce
  let ?rest = "rs_backlog (dispatch_round s order)"
  have rest: "?rest = fold (\<lambda>(k, i). umap_erase k) batch (rs_backlog s)"
    using fb by (simp add: dispatch_round_def)
  have set_order: "set order = set (rs_backlog s)"
    using order by (rule mset_eq_setD)
  obtain k i order' where o: "order = (k, i) # order'"
    using set_order some by (cases order) auto
  have "unat (bi_size (rs_items s ! i)) < 1000000000"
    using fits set_order o by force
  note * = collect_first_fits [OF this, of k i "with_items (rs_items s) order'"]
  have "(k, i) \<in> set batch"
  proof -
    have "with_items (rs_items s) order = (k, i, rs_items s ! i) # with_items (rs_items s) order'"
      by (simp add: o with_items_def)
    with * fb o show ?thesis by (force simp: form_batch_def Let_def)
  qed
  then have "(k, i) \<notin> set ?rest"
    unfolding rest set_fold_erase by force
  moreover have "(k, i) \<in> set (rs_backlog s)"
    using set_order o by auto
  moreover show sub: "set ?rest \<subseteq> set (rs_backlog s)"
    unfolding rest set_fold_erase by blast
  ultimately have "set ?rest \<subset> set (rs_backlog s)"
    by blast
  then have "card (set ?rest) < card (set (rs_backlog s))"
    by (intro psubset_card_mono) simp_all
  moreover have "distinct ?rest" "distinct (rs_backlog s)"
    using read_invD(1) [OF inv] umap_ok_fold_erase [OF read_invD(1) [OF inv], of batch]
    by (auto simp: rest umap_ok_def distinct_map)
  ultimately show "length ?rest < length (rs_backlog s)"
    by (simp add: distinct_card)
qed

lemma same_requests_fit:
  assumes "same_requests s s'" "read_inv s'" "\<forall>x \<in> set (rs_backlog s). unat (bi_size (rs_items s ! snd x)) < 1000000000"
  shows "\<forall>x \<in> set (rs_backlog s'). unat (bi_size (rs_items s' ! snd x)) < 1000000000"
proof
  fix x
  assume x: "x \<in> set (rs_backlog s')"
  then have "snd x < length (rs_items s')"
    using read_invD(3) [OF assms(2), of x] by (auto simp: pending_def entry_ok_def)
  moreover have "map bi_size (rs_items s') = map bi_size (rs_items s)" "rs_backlog s' = rs_backlog s"
    using assms(1) by (simp_all add: same_requests_def)
  ultimately show "unat (bi_size (rs_items s' ! snd x)) < 1000000000"
    using assms(3) x by (metis length_map nth_map)
qed

lemma drain_backlog:
  assumes "read_inv s" "\<forall>x \<in> set (rs_backlog s). unat (bi_size (rs_items s ! snd x)) < 1000000000"
  shows "\<exists>s'. read_steps api h s s' \<and> rs_phase s' = Idle \<and> rs_backlog s' = [] \<and> rs_waiting s' = rs_waiting s"
  using assms
proof (induction "length (rs_backlog s)" arbitrary: s rule: less_induct)
  case less
  obtain s1 where s1: "read_steps api h s s1" "rs_phase s1 = Idle" "same_requests s s1"
    using finish_phase by blast
  have inv1: "read_inv s1"
    using read_steps_inv [OF s1(1) less.prems(1)] .
  have backlog: "rs_backlog s1 = rs_backlog s" "rs_waiting s1 = rs_waiting s"
    using s1(3) by (simp_all add: same_requests_def)
  have small: "\<forall>x \<in> set (rs_backlog s1). unat (bi_size (rs_items s1 ! snd x)) < 1000000000"
    by (rule same_requests_fit [OF s1(3) inv1 less.prems(2)])
  show ?case
  proof (cases "rs_backlog s1 = []")
    case True
    with s1 backlog show ?thesis by auto
  next
    case False
    let ?s2 = "dispatch_round s1 (rs_backlog s1)"
    have step: "read_step api h s1 ?s2"
      by (rule read_step.round [OF s1(2) False refl])
    have frame: "rs_items ?s2 = rs_items s1" "rs_waiting ?s2 = rs_waiting s1"
      by (simp_all add: dispatch_round_def split_def Let_def)
    have "length (rs_backlog ?s2) < length (rs_backlog s)"
      using round_shrinks(1) [OF inv1 refl False small] backlog by simp
    moreover have "read_inv ?s2"
      using read_step_inv [OF step inv1] .
    moreover have "\<forall>x \<in> set (rs_backlog ?s2). unat (bi_size (rs_items ?s2 ! snd x)) < 1000000000"
      using small round_shrinks(2) [OF inv1 refl False small] frame(1) by auto
    ultimately obtain s3 where "read_steps api h ?s2 s3" "rs_phase s3 = Idle" "rs_backlog s3 = []"
        "rs_waiting s3 = rs_waiting ?s2"
      using less.hyps by blast
    moreover from this(1) have "read_steps api h s s3"
      using read_steps_trans [OF read_steps.more [OF s1(1) step]] by blast
    ultimately show ?thesis
      using backlog(2) frame(2) by auto
  qed
qed

section \<open>One read on an idle adapter\<close>

text \<open>
  What \<open>Memory::read\<close> does when no other request is around: the dispatch thread reads the one
  request directly, sets the promise and releases the buffer. Whether the reader has copied the
  buffer by then is up to the scheduler: \<open>copied\<close> says so, by the number of device calls made before.
\<close>

definition read_mem ::
    "'d vmmdll \<Rightarrow> (nat \<Rightarrow> bool) \<Rightarrow> 'd memory \<Rightarrow> pid \<Rightarrow> address \<Rightarrow> u64 \<Rightarrow> fault + ((u64 \<times> byte list) \<times> 'd memory)" where
  "read_mem api copied M p a n =
     (if dispatchThread M \<noteq> Running \<or> bStop M \<or> n \<ge> MAX_BYTES_PER_DISPATCH then Inl Never_returns
      else
        (let ((r, bs), D) = sequential_read api (hVMM M) p (device M) (new_BacklogItem p a n);
             D = VMMDLL_MemFree D PromiseBuffer
         in if \<not> copied (length (calls (device M))) then Inl Use_after_free
            else if unat n < unat r then Inl Buffer_overflow
            else Inr ((r, take (unat r) bs), M\<lparr>device := D\<rparr>)))"

text \<open>The states of such a run.\<close>

definition alone_waiting :: "'d device \<Rightarrow> nat \<Rightarrow> pid \<Rightarrow> address \<Rightarrow> u64 \<Rightarrow> 'd read_sys" where
  "alone_waiting D t p a n =
     (new_read_sys D)
       \<lparr>rs_items := [new_BacklogItem p a n],
        rs_waiting := [t \<mapsto> \<lparr>rd_pid = p, rd_address = a, rd_size = n, rd_item = 0\<rparr>],
        rs_phase := Dispatching p [(backlog_key p a n, 0)]\<rparr>"

definition alone_answered :: "'d device \<Rightarrow> nat \<Rightarrow> pid \<Rightarrow> address \<Rightarrow> u64 \<Rightarrow> u64 \<times> byte list \<Rightarrow> 'd read_sys" where
  "alone_answered D t p a n v =
     (alone_waiting D t p a n)
       \<lparr>rs_items := [(new_BacklogItem p a n)\<lparr>bi_promise := Some (fst v, 0)\<rparr>], rs_buffers := [Some (snd v)],
        rs_phase := Releasing 0\<rparr>"

lemma alone_waiting_reachable:
  assumes "n < MAX_BYTES_PER_DISPATCH"
  shows "read_steps api h (new_read_sys D) (alone_waiting D t p a n)"
proof -
  let ?rd = "\<lparr>rd_pid = p, rd_address = a, rd_size = n, rd_item = 0\<rparr>"
  let ?s0 = "(new_read_sys D)\<lparr>rs_items := [new_BacklogItem p a n], rs_backlog := [(backlog_key p a n, 0)]\<rparr>"
  let ?s1 = "?s0\<lparr>rs_waiting := [t \<mapsto> ?rd]\<rparr>"
  have "read_enqueue (new_read_sys D) p a n = (0, ?s0)"
    by (simp add: read_enqueue_def new_read_sys_def umap_assign_def)
  from read_step.enqueue [OF _ this, of t] have "read_step api h (new_read_sys D) ?s1"
    by (simp add: new_read_sys_def)
  moreover have "read_step api h ?s1 (dispatch_round ?s1 [(backlog_key p a n, 0)])"
    by (rule read_step.round) (simp_all add: new_read_sys_def)
  moreover have "dispatch_round ?s1 [(backlog_key p a n, 0)] = alone_waiting D t p a n"
    using assms by (simp add: dispatch_round_def form_batch_def with_items_def new_BacklogItem_def not_le
        alone_waiting_def new_read_sys_def umap_erase_def MAX_DISPATCH_SIZE_def)
  ultimately show ?thesis
    using read_steps_one read_steps.more by metis
qed

lemma alone_answered_step:
  assumes "sequential_read api h p D (new_BacklogItem p a n) = (v, D')"
  shows "read_step api h (alone_waiting D t p a n) ((alone_answered D t p a n v)\<lparr>rs_device := D'\<rparr>)"
proof -
  let ?s = "alone_waiting D t p a n"
  have ph: "rs_phase ?s = Dispatching p [(backlog_key p a n, 0)]"
    by (simp add: alone_waiting_def)
  have v: "sequential_read api h p (rs_device ?s) (rs_items ?s ! 0) = (v, D')"
    using assms by (simp add: alone_waiting_def new_read_sys_def)
  have f: "fulfil [(backlog_key p a n, 0)] [v] (rs_items ?s) (rs_buffers ?s)
      = ([(new_BacklogItem p a n)\<lparr>bi_promise := Some (fst v, 0)\<rparr>], [Some (snd v)])"
    by (cases v) (simp add: alone_waiting_def new_read_sys_def)
  show ?thesis
    using read_step.sequential [OF ph v f]
    by (simp add: alone_answered_def alone_waiting_def new_read_sys_def)
qed

lemma sequential_read_length: "sequential_read api h p D it = ((r, bs), D') \<Longrightarrow> length bs = unat (bi_size it)"
  by (auto simp: sequential_read_def Let_def split: prod.splits)

text \<open>The reader copies the buffer before it is released.\<close>

lemma read_alone_run:
  assumes "n < MAX_BYTES_PER_DISPATCH" "sequential_read api h p D (new_BacklogItem p a n) = ((r, bs), D')"
    and "unat r \<le> unat n"
  shows "\<exists>s. read_steps api h (new_read_sys D) s
    \<and> rs_done s t = Some (\<lparr>rd_pid = p, rd_address = a, rd_size = n, rd_item = 0\<rparr>, r, take (unat r) bs)
    \<and> rs_backlog s = [] \<and> rs_phase s = Idle \<and> rs_device s = VMMDLL_MemFree D' PromiseBuffer"
proof -
  let ?rd = "\<lparr>rd_pid = p, rd_address = a, rd_size = n, rd_item = 0\<rparr>"
  let ?s2 = "(alone_answered D t p a n (r, bs))\<lparr>rs_device := D'\<rparr>"
  let ?it = "(new_BacklogItem p a n)\<lparr>bi_promise := Some (r, 0), bi_read := r, bi_data := bs, bi_promiseRead := True\<rparr>"
  have len: "length bs = unat n"
    using sequential_read_length [OF assms(2)] by (simp add: new_BacklogItem_def)
  have fin: "read_finish ?s2 ?rd = Inr ((r, take (unat r) bs), ?s2\<lparr>rs_items := [?it]\<rparr>)"
    using len assms(3)
    by (simp add: read_finish_def get_def alone_answered_def alone_waiting_def new_read_sys_def new_BacklogItem_def)
  have wait: "rs_waiting ?s2 t = Some ?rd"
    by (simp add: alone_answered_def alone_waiting_def)
  let ?s3 = "?s2\<lparr>rs_items := [?it], rs_waiting := (rs_waiting ?s2)(t := None),
    rs_done := (rs_done ?s2)(t \<mapsto> (?rd, r, take (unat r) bs))\<rparr>"
  have "read_steps api h (new_read_sys D) ?s2"
    by (rule read_steps.more [OF alone_waiting_reachable [OF assms(1)] alone_answered_step [OF assms(2)]])
  moreover have "read_step api h ?s2 ?s3"
    using read_step.finish [OF wait fin] by simp
  ultimately have run: "read_steps api h (new_read_sys D) ?s3"
    by (rule read_steps.more)
  have "rs_phase ?s3 = Releasing 0"
    by (simp add: alone_answered_def)
  from read_steps.more [OF run read_step.release [OF this]] show ?thesis
    by (intro exI conjI, assumption) (simp_all add: alone_answered_def alone_waiting_def new_read_sys_def)
qed

text \<open>The buffer is released first: the reader copies from released memory.\<close>

lemma read_race_run:
  assumes "n < MAX_BYTES_PER_DISPATCH"
  shows "\<exists>s. read_steps api h (new_read_sys D) s
    \<and> rs_waiting s t = Some \<lparr>rd_pid = p, rd_address = a, rd_size = n, rd_item = 0\<rparr>
    \<and> read_finish s \<lparr>rd_pid = p, rd_address = a, rd_size = n, rd_item = 0\<rparr> = Inl Use_after_free"
proof -
  obtain v D' where v: "sequential_read api h p D (new_BacklogItem p a n) = (v, D')"
    by fastforce
  let ?s2 = "(alone_answered D t p a n v)\<lparr>rs_device := D'\<rparr>"
  let ?s3 = "?s2\<lparr>rs_buffers := (rs_buffers ?s2)[0 := None],
      rs_device := VMMDLL_MemFree (rs_device ?s2) PromiseBuffer, rs_phase := Idle\<rparr>"
  have "rs_phase ?s2 = Releasing 0"
    by (simp add: alone_answered_def)
  then have "read_step api h ?s2 ?s3"
    by (rule read_step.release)
  then have run: "read_steps api h (new_read_sys D) ?s3"
    by (rule read_steps.more [OF read_steps.more [OF alone_waiting_reachable [OF assms] alone_answered_step [OF v]]])
  have "read_finish ?s3 \<lparr>rd_pid = p, rd_address = a, rd_size = n, rd_item = 0\<rparr> = Inl Use_after_free"
    by (simp add: read_finish_def get_def alone_answered_def alone_waiting_def new_read_sys_def new_BacklogItem_def)
  with run show ?thesis
    by (intro exI [of _ ?s3]) (simp add: alone_answered_def alone_waiting_def)
qed

section \<open>Properties\<close>

text \<open>A run on the concrete device: one reader asks for four bytes at address two.\<close>

lemma flat_sequential:
  "sequential_read flat_api 1 4 flat_device (new_BacklogItem 4 2 4)
     = ((4, [12, 13, 14, 15]), called flat_device (Call_MemReadEx 1 4 2 4 (scatterFlags flat_api)) (dev flat_device))"
  by (simp add: sequential_read_def VMMDLL_MemReadEx_def flat_api_def flat_read_def flat_device_def new_BacklogItem_def
      promise_buffer_def overwrite_def scatterFlags_def)

lemma flat_run:
  "\<exists>s. read_steps flat_api 1 (new_read_sys flat_device) s
     \<and> rs_done s 0 = Some (\<lparr>rd_pid = 4, rd_address = 2, rd_size = 4, rd_item = 0\<rparr>, 4, [12, 13, 14, 15])"
proof -
  have "(4 :: u64) < MAX_BYTES_PER_DISPATCH"
    by (simp add: MAX_BYTES_PER_DISPATCH_def)
  from read_alone_run [OF this flat_sequential, of 0] show ?thesis by auto
qed

lemma flat_waiting:
  "read_steps flat_api 1 (new_read_sys flat_device) (alone_waiting flat_device 0 4 2 4)"
  by (rule alone_waiting_reachable) (simp add: MAX_BYTES_PER_DISPATCH_def)

text \<open>
  C6: however the reader threads and the dispatch thread interleave, and whatever the device answers, a
  read that returns gives its caller a prefix of what the device answered when it was asked for exactly
  the caller's process, address and size; the count it reports is the number of bytes it copied, and
  never exceeds the size of the caller's buffer.
\<close>

theorem read_answers_request:
  assumes "read_steps api h (new_read_sys D) s" "rs_done s t = Some (rd, r, bs)"
  shows "length bs = unat r \<and> unat r \<le> unat (rd_size rd)
    \<and> (\<exists>full. device_answer api h (rd_pid rd) (rd_address rd) (rd_size rd) (r, full) \<and> bs = take (unat r) full)"
proof -
  have "done_ok api h (rd, r, bs)"
    using answers_okD(4) [OF read_steps_answers [OF assms(1) answers_ok_new] assms(2)] .
  then obtain full where f: "device_answer api h (rd_pid rd) (rd_address rd) (rd_size rd) (r, full)"
      "bs = take (unat r) full" "unat r \<le> unat (rd_size rd)"
    by (auto simp: done_ok_def)
  with device_answer_length [OF f(1)] show ?thesis by auto
qed

theorem read_answers_request_witness:
  "\<exists>s full. read_steps flat_api 1 (new_read_sys flat_device) s
     \<and> device_answer flat_api 1 4 2 4 (4, full) \<and> [12, 13, 14, 15] = take 4 full"
proof -
  obtain s where s: "read_steps flat_api 1 (new_read_sys flat_device) s"
      "rs_done s 0 = Some (\<lparr>rd_pid = 4, rd_address = 2, rd_size = 4, rd_item = 0\<rparr>, 4, [12, 13, 14, 15])"
    using flat_run by blast
  from read_answers_request [OF s] s(1) show ?thesis by auto
qed

text \<open>
  C9: no request is lost. In every reachable state a reader that waits does so on an item of its own
  process, address and size, and that item is still in the backlog, or in the batch being dispatched,
  or has its promise set.
\<close>

theorem no_request_lost:
  assumes "read_steps api h (new_read_sys D) s" "rs_waiting s t = Some rd"
  shows "rd_item rd < length (rs_items s)
    \<and> item_key (rs_items s ! rd_item rd) = backlog_key (rd_pid rd) (rd_address rd) (rd_size rd)
    \<and> (rd_item rd \<in> snd ` set (pending s) \<or> bi_promise (rs_items s ! rd_item rd) \<noteq> None)"
  using read_invD(4) [OF read_steps_inv [OF assms(1) read_inv_new] assms(2)]
  by (auto simp: reader_ok_def item_key_def Let_def)

theorem no_request_lost_witness:
  "item_key (rs_items (alone_waiting flat_device 0 4 2 4) ! 0) = backlog_key 4 2 4
   \<and> 0 \<in> snd ` set (pending (alone_waiting flat_device 0 4 2 4))"
proof -
  have "rs_waiting (alone_waiting flat_device 0 4 2 4) 0 = Some \<lparr>rd_pid = 4, rd_address = 2, rd_size = 4, rd_item = 0\<rparr>"
    and "bi_promise (rs_items (alone_waiting flat_device 0 4 2 4) ! 0) = None"
    by (simp_all add: alone_waiting_def new_BacklogItem_def)
  with no_request_lost [OF flat_waiting this(1)] show ?thesis by simp
qed

text \<open>
  C11: no promise is set twice. In every reachable state the items of the backlog and of the batch being
  dispatched are pairwise different, and none of them has a value in its promise yet.
\<close>

theorem promises_set_once:
  assumes "read_steps api h (new_read_sys D) s"
  shows "distinct (map snd (pending s)) \<and> (\<forall>x \<in> set (pending s). bi_promise (rs_items s ! snd x) = None)"
  using read_invD(2,3) [OF read_steps_inv [OF assms(1) read_inv_new]] by (simp add: entry_ok_def)

theorem promises_set_once_witness:
  "pending (alone_waiting flat_device 0 4 2 4) = [(backlog_key 4 2 4, 0)]
   \<and> bi_promise (rs_items (alone_waiting flat_device 0 4 2 4) ! 0) = None"
  using promises_set_once [OF flat_waiting] by (simp add: pending_def alone_waiting_def new_read_sys_def)

text \<open>
  A request that equals one still in the backlog joins it: no item is added, the backlog is unchanged,
  and the reader waits on the item that is already there. A request whose equal is no longer in the
  backlog gets an item of its own.
\<close>

lemma equal_requests_join:
  assumes "read_steps api h (new_read_sys D) s" "read_enqueue s p a n = (i, s')"
  shows "(if backlog_key p a n \<in> fst ` set (rs_backlog s)
     then s' = s \<and> (backlog_key p a n, i) \<in> set (rs_backlog s)
     else i = length (rs_items s) \<and> rs_items s' = rs_items s @ [new_BacklogItem p a n]
       \<and> rs_backlog s' = rs_backlog s @ [(backlog_key p a n, i)])
    \<and> bi_pid (rs_items s' ! i) = p \<and> bi_address (rs_items s' ! i) = a \<and> bi_size (rs_items s' ! i) = n"
proof (cases "map_of (rs_backlog s) (backlog_key p a n)")
  case None
  with assms(2) show ?thesis
    by (auto simp: read_enqueue_def Let_def umap_assign_absent map_of_eq_None_iff new_BacklogItem_def)
next
  case (Some j)
  then have s': "s' = s" "i = j" and j: "(backlog_key p a n, j) \<in> set (rs_backlog s)"
    using assms(2) by (auto simp: read_enqueue_def dest: map_of_SomeD)
  have "entry_ok (rs_items s) (backlog_key p a n, j)"
    using j read_invD(3) [OF read_steps_inv [OF assms(1) read_inv_new]] by (simp add: pending_def)
  then show ?thesis
    using s' j by (force simp: entry_ok_def item_key_def backlog_key_inj)
qed

text \<open>
  Progress. From every reachable state in which all requests of the backlog are smaller than a gigabyte,
  the dispatch thread alone reaches a state with an empty backlog in which every waiting reader's
  promise is set.
\<close>

lemma backlog_drains:
  assumes "read_steps api h (new_read_sys D) s"
    and "\<forall>x \<in> set (rs_backlog s). unat (bi_size (rs_items s ! snd x)) < 1000000000"
  shows "\<exists>s'. read_steps api h s s' \<and> rs_backlog s' = [] \<and> rs_waiting s' = rs_waiting s
    \<and> (\<forall>t rd. rs_waiting s' t = Some rd \<longrightarrow> bi_promise (rs_items s' ! rd_item rd) \<noteq> None)"
proof -
  have inv: "read_inv s"
    by (rule read_steps_inv [OF assms(1) read_inv_new])
  obtain s' where s': "read_steps api h s s'" "rs_phase s' = Idle" "rs_backlog s' = []" "rs_waiting s' = rs_waiting s"
    using drain_backlog [OF inv assms(2)] by blast
  have "pending s' = []"
    using s'(2,3) by (simp add: pending_def)
  then have "bi_promise (rs_items s' ! rd_item rd) \<noteq> None" if "rs_waiting s' t = Some rd" for t rd
    using read_invD(4) [OF read_steps_inv [OF s'(1) inv] that] by (simp add: reader_ok_def Let_def)
  with s' show ?thesis by blast
qed

text \<open>
  C25: starvation. A reader that asks for a gigabyte or more (and less than \<open>2 ^ 32\<close> bytes, the
  largest size of the protocol) waits for ever: its request stays in the backlog in every later state,
  and its read never returns.
\<close>

theorem oversized_request_starves:
  assumes "read_steps api h (new_read_sys D) s" "read_enqueue s p a n = (i, s')"
    and "1000000000 \<le> unat n" "unat n < 2 ^ 32"
    and "read_steps api h (s'\<lparr>rs_waiting := (rs_waiting s)(t \<mapsto> \<lparr>rd_pid = p, rd_address = a, rd_size = n, rd_item = i\<rparr>)\<rparr>) s''"
  shows "rs_waiting s'' t = Some \<lparr>rd_pid = p, rd_address = a, rd_size = n, rd_item = i\<rparr>
    \<and> i \<in> snd ` set (rs_backlog s'')
    \<and> read_finish s'' \<lparr>rd_pid = p, rd_address = a, rd_size = n, rd_item = i\<rparr> = Inl Never_returns"
proof -
  let ?rd = "\<lparr>rd_pid = p, rd_address = a, rd_size = n, rd_item = i\<rparr>"
  let ?s = "s'\<lparr>rs_waiting := (rs_waiting s)(t \<mapsto> ?rd)\<rparr>"
  have inv: "read_inv ?s"
    by (rule read_inv_enqueue [OF read_steps_inv [OF assms(1) read_inv_new] assms(2)])
  have "reader_ok ?s ?rd"
    by (rule read_invD(4) [OF inv, of t]) simp
  then have "oversized (rs_items s' ! i)"
    using assms(3,4) by (simp add: reader_ok_def oversized_def Let_def)
  moreover have "i \<in> snd ` set (rs_backlog s')"
    using assms(2) by (force simp: read_enqueue_def Let_def umap_assign_absent dest: map_of_SomeD split: option.splits)
  ultimately have "stuck ?s t ?rd"
    by (simp add: stuck_def)
  from stuck_steps [OF assms(5) inv this] have st: "stuck s'' t ?rd" .
  from stuck_never_finishes [OF read_steps_inv [OF assms(5) inv] st] st show ?thesis
    by (simp add: stuck_def)
qed

theorem oversized_request_starves_witness:
  "\<exists>i s'. read_enqueue (new_read_sys flat_device) 4 0 1000000000 = (i, s')
     \<and> read_finish (s'\<lparr>rs_waiting := [0 \<mapsto> \<lparr>rd_pid = 4, rd_address = 0, rd_size = 1000000000, rd_item = i\<rparr>]\<rparr>)
         \<lparr>rd_pid = 4, rd_address = 0, rd_size = 1000000000, rd_item = i\<rparr> = Inl Never_returns"
proof -
  obtain i s' where e: "read_enqueue (new_read_sys flat_device) 4 0 1000000000 = (i, s')"
    by fastforce
  have w: "rs_waiting (new_read_sys flat_device) = Map.empty"
    by (simp add: new_read_sys_def)
  from oversized_request_starves [OF read_steps.none [of flat_api 1] e _ _ read_steps.none, of 0] w e show ?thesis
    by auto
qed

text \<open>
  C26: a lone read races with the dispatch thread. For every request smaller than a gigabyte, and whatever the
  device does, there is a run in which the buffer is released between \<open>promise.set_value\<close> and the
  reader's copy: the reader then copies from released memory.
\<close>

theorem released_buffer_race:
  assumes "unat n < 1000000000"
  shows "\<exists>s. read_steps api h (new_read_sys D) s
    \<and> rs_waiting s t = Some \<lparr>rd_pid = p, rd_address = a, rd_size = n, rd_item = 0\<rparr>
    \<and> read_finish s \<lparr>rd_pid = p, rd_address = a, rd_size = n, rd_item = 0\<rparr> = Inl Use_after_free"
  using assms by (intro read_race_run) (simp add: MAX_BYTES_PER_DISPATCH_def word_less_nat_alt)

theorem released_buffer_race_witness:
  "\<exists>s. read_steps flat_api 1 (new_read_sys flat_device) s
     \<and> read_finish s \<lparr>rd_pid = 4, rd_address = 2, rd_size = 4, rd_item = 0\<rparr> = Inl Use_after_free"
  using released_buffer_race [of 4 flat_api 1 flat_device 0 4 2] by auto

end
