(* ===== verification/Wire.thy ===== *)
theory Wire
  imports Prelude
begin

text \<open>
  The wire format: the command codes and packed structures of \<^verbatim>\<open>Commands.h\<close> and the table of
  \<^verbatim>\<open>CommandsToString.h\<close>.

  A structure is a record with the fields of the C++ declaration, in order; its \<open>bytes_of\<close>
  function is the memory image that \<open>send\<close> puts on the socket, with no padding
  (\<^verbatim>\<open>#pragma pack(1)\<close>) and little-endian fields. The \<open>parse\<close> functions cut a byte string at the
  offsets of the packed layout, which is how the peer reads a reply; the round trips show that
  a reply is parsed back to what was sent, whatever follows it in the stream.
\<close>


section \<open>Command codes\<close>

abbreviation (input) CMD_GETVERSION :: byte where "CMD_GETVERSION \<equiv> 0"
abbreviation (input) CMD_CLOSECONNECTION :: byte where "CMD_CLOSECONNECTION \<equiv> 1"
abbreviation (input) CMD_TERMINATESERVER :: byte where "CMD_TERMINATESERVER \<equiv> 2"
abbreviation (input) CMD_OPENPROCESS :: byte where "CMD_OPENPROCESS \<equiv> 3"
abbreviation (input) CMD_CREATETOOLHELP32SNAPSHOT :: byte where "CMD_CREATETOOLHELP32SNAPSHOT \<equiv> 4"
abbreviation (input) CMD_PROCESS32FIRST :: byte where "CMD_PROCESS32FIRST \<equiv> 5"
abbreviation (input) CMD_PROCESS32NEXT :: byte where "CMD_PROCESS32NEXT \<equiv> 6"
abbreviation (input) CMD_CLOSEHANDLE :: byte where "CMD_CLOSEHANDLE \<equiv> 7"
abbreviation (input) CMD_VIRTUALQUERYEX :: byte where "CMD_VIRTUALQUERYEX \<equiv> 8"
abbreviation (input) CMD_READPROCESSMEMORY :: byte where "CMD_READPROCESSMEMORY \<equiv> 9"
abbreviation (input) CMD_WRITEPROCESSMEMORY :: byte where "CMD_WRITEPROCESSMEMORY \<equiv> 10"
abbreviation (input) CMD_STARTDEBUG :: byte where "CMD_STARTDEBUG \<equiv> 11"
abbreviation (input) CMD_STOPDEBUG :: byte where "CMD_STOPDEBUG \<equiv> 12"
abbreviation (input) CMD_WAITFORDEBUGEVENT :: byte where "CMD_WAITFORDEBUGEVENT \<equiv> 13"
abbreviation (input) CMD_CONTINUEFROMDEBUGEVENT :: byte where "CMD_CONTINUEFROMDEBUGEVENT \<equiv> 14"
abbreviation (input) CMD_SETBREAKPOINT :: byte where "CMD_SETBREAKPOINT \<equiv> 15"
abbreviation (input) CMD_REMOVEBREAKPOINT :: byte where "CMD_REMOVEBREAKPOINT \<equiv> 16"
abbreviation (input) CMD_SUSPENDTHREAD :: byte where "CMD_SUSPENDTHREAD \<equiv> 17"
abbreviation (input) CMD_RESUMETHREAD :: byte where "CMD_RESUMETHREAD \<equiv> 18"
abbreviation (input) CMD_GETTHREADCONTEXT :: byte where "CMD_GETTHREADCONTEXT \<equiv> 19"
abbreviation (input) CMD_SETTHREADCONTEXT :: byte where "CMD_SETTHREADCONTEXT \<equiv> 20"
abbreviation (input) CMD_GETARCHITECTURE :: byte where "CMD_GETARCHITECTURE \<equiv> 21"
abbreviation (input) CMD_MODULE32FIRST :: byte where "CMD_MODULE32FIRST \<equiv> 22"
abbreviation (input) CMD_MODULE32NEXT :: byte where "CMD_MODULE32NEXT \<equiv> 23"
abbreviation (input) CMD_GETSYMBOLLISTFROMFILE :: byte where "CMD_GETSYMBOLLISTFROMFILE \<equiv> 24"
abbreviation (input) CMD_LOADEXTENSION :: byte where "CMD_LOADEXTENSION \<equiv> 25"
abbreviation (input) CMD_ALLOC :: byte where "CMD_ALLOC \<equiv> 26"
abbreviation (input) CMD_FREE :: byte where "CMD_FREE \<equiv> 27"
abbreviation (input) CMD_CREATETHREAD :: byte where "CMD_CREATETHREAD \<equiv> 28"
abbreviation (input) CMD_LOADMODULE :: byte where "CMD_LOADMODULE \<equiv> 29"
abbreviation (input) CMD_SPEEDHACK_SETSPEED :: byte where "CMD_SPEEDHACK_SETSPEED \<equiv> 30"
abbreviation (input) CMD_VIRTUALQUERYEXFULL :: byte where "CMD_VIRTUALQUERYEXFULL \<equiv> 31"
abbreviation (input) CMD_GETREGIONINFO :: byte where "CMD_GETREGIONINFO \<equiv> 32"
abbreviation (input) CMD_GETABI :: byte where "CMD_GETABI \<equiv> 33"
abbreviation (input) CMD_SET_CONNECTION_NAME :: byte where "CMD_SET_CONNECTION_NAME \<equiv> 34"
abbreviation (input) CMD_CREATETOOLHELP32SNAPSHOTEX :: byte where "CMD_CREATETOOLHELP32SNAPSHOTEX \<equiv> 35"
abbreviation (input) CMD_CHANGEMEMORYPROTECTION :: byte where "CMD_CHANGEMEMORYPROTECTION \<equiv> 36"
abbreviation (input) CMD_GETOPTIONS :: byte where "CMD_GETOPTIONS \<equiv> 37"
abbreviation (input) CMD_GETOPTIONVALUE :: byte where "CMD_GETOPTIONVALUE \<equiv> 38"
abbreviation (input) CMD_SETOPTIONVALUE :: byte where "CMD_SETOPTIONVALUE \<equiv> 39"
abbreviation (input) CMD_PTRACE_MMAP :: byte where "CMD_PTRACE_MMAP \<equiv> 40"
abbreviation (input) CMD_OPENNAMEDPIPE :: byte where "CMD_OPENNAMEDPIPE \<equiv> 41"
abbreviation (input) CMD_PIPEREAD :: byte where "CMD_PIPEREAD \<equiv> 42"
abbreviation (input) CMD_PIPEWRITE :: byte where "CMD_PIPEWRITE \<equiv> 43"
abbreviation (input) CMD_GETCESERVERPATH :: byte where "CMD_GETCESERVERPATH \<equiv> 44"
abbreviation (input) CMD_ISANDROID :: byte where "CMD_ISANDROID \<equiv> 45"
abbreviation (input) CMD_LOADMODULEEX :: byte where "CMD_LOADMODULEEX \<equiv> 46"
abbreviation (input) CMD_SETCURRENTPATH :: byte where "CMD_SETCURRENTPATH \<equiv> 47"
abbreviation (input) CMD_GETCURRENTPATH :: byte where "CMD_GETCURRENTPATH \<equiv> 48"
abbreviation (input) CMD_ENUMFILES :: byte where "CMD_ENUMFILES \<equiv> 49"
abbreviation (input) CMD_GETFILEPERMISSIONS :: byte where "CMD_GETFILEPERMISSIONS \<equiv> 50"
abbreviation (input) CMD_SETFILEPERMISSIONS :: byte where "CMD_SETFILEPERMISSIONS \<equiv> 51"
abbreviation (input) CMD_GETFILE :: byte where "CMD_GETFILE \<equiv> 52"
abbreviation (input) CMD_PUTFILE :: byte where "CMD_PUTFILE \<equiv> 53"
abbreviation (input) CMD_CREATEDIR :: byte where "CMD_CREATEDIR \<equiv> 54"
abbreviation (input) CMD_DELETEFILE :: byte where "CMD_DELETEFILE \<equiv> 55"
abbreviation (input) CMD_AOBSCAN :: byte where "CMD_AOBSCAN \<equiv> 200"
abbreviation (input) CMD_COMMANDLIST2 :: byte where "CMD_COMMANDLIST2 \<equiv> 255"

abbreviation (input) VQE_PAGEDONLY :: byte where "VQE_PAGEDONLY \<equiv> 1"
abbreviation (input) VQE_DIRTYONLY :: byte where "VQE_DIRTYONLY \<equiv> 2"
abbreviation (input) VQE_NOSHARED :: byte where "VQE_NOSHARED \<equiv> 4"

definition commandToString :: "(byte, string) umap" where
  "commandToString =
    [(CMD_GETVERSION, ''CMD_GETVERSION''),
     (CMD_CLOSECONNECTION, ''CMD_CLOSECONNECTION''),
     (CMD_TERMINATESERVER, ''CMD_TERMINATESERVER''),
     (CMD_OPENPROCESS, ''CMD_OPENPROCESS''),
     (CMD_CREATETOOLHELP32SNAPSHOT, ''CMD_CREATETOOLHELP32SNAPSHOT''),
     (CMD_PROCESS32FIRST, ''CMD_PROCESS32FIRST''),
     (CMD_PROCESS32NEXT, ''CMD_PROCESS32NEXT''),
     (CMD_CLOSEHANDLE, ''CMD_CLOSEHANDLE''),
     (CMD_VIRTUALQUERYEX, ''CMD_VIRTUALQUERYEX''),
     (CMD_READPROCESSMEMORY, ''CMD_READPROCESSMEMORY''),
     (CMD_WRITEPROCESSMEMORY, ''CMD_WRITEPROCESSMEMORY''),
     (CMD_STARTDEBUG, ''CMD_STARTDEBUG''),
     (CMD_STOPDEBUG, ''CMD_STOPDEBUG''),
     (CMD_WAITFORDEBUGEVENT, ''CMD_WAITFORDEBUGEVENT''),
     (CMD_CONTINUEFROMDEBUGEVENT, ''CMD_CONTINUEFROMDEBUGEVENT''),
     (CMD_SETBREAKPOINT, ''CMD_SETBREAKPOINT''),
     (CMD_REMOVEBREAKPOINT, ''CMD_REMOVEBREAKPOINT''),
     (CMD_SUSPENDTHREAD, ''CMD_SUSPENDTHREAD''),
     (CMD_RESUMETHREAD, ''CMD_RESUMETHREAD''),
     (CMD_GETTHREADCONTEXT, ''CMD_GETTHREADCONTEXT''),
     (CMD_SETTHREADCONTEXT, ''CMD_SETTHREADCONTEXT''),
     (CMD_GETARCHITECTURE, ''CMD_GETARCHITECTURE''),
     (CMD_MODULE32FIRST, ''CMD_MODULE32FIRST''),
     (CMD_MODULE32NEXT, ''CMD_MODULE32NEXT''),
     (CMD_GETSYMBOLLISTFROMFILE, ''CMD_GETSYMBOLLISTFROMFILE''),
     (CMD_LOADEXTENSION, ''CMD_LOADEXTENSION''),
     (CMD_ALLOC, ''CMD_ALLOC''),
     (CMD_FREE, ''CMD_FREE''),
     (CMD_CREATETHREAD, ''CMD_CREATETHREAD''),
     (CMD_LOADMODULE, ''CMD_LOADMODULE''),
     (CMD_SPEEDHACK_SETSPEED, ''CMD_SPEEDHACK_SETSPEED''),
     (CMD_VIRTUALQUERYEXFULL, ''CMD_VIRTUALQUERYEXFULL''),
     (CMD_GETREGIONINFO, ''CMD_GETREGIONINFO''),
     (CMD_GETABI, ''CMD_GETABI''),
     (CMD_SET_CONNECTION_NAME, ''CMD_SET_CONNECTION_NAME''),
     (CMD_CREATETOOLHELP32SNAPSHOTEX, ''CMD_CREATETOOLHELP32SNAPSHOTEX''),
     (CMD_CHANGEMEMORYPROTECTION, ''CMD_CHANGEMEMORYPROTECTION''),
     (CMD_GETOPTIONS, ''CMD_GETOPTIONS''),
     (CMD_GETOPTIONVALUE, ''CMD_GETOPTIONVALUE''),
     (CMD_SETOPTIONVALUE, ''CMD_SETOPTIONVALUE''),
     (CMD_PTRACE_MMAP, ''CMD_PTRACE_MMAP''),
     (CMD_OPENNAMEDPIPE, ''CMD_OPENNAMEDPIPE''),
     (CMD_PIPEREAD, ''CMD_PIPEREAD''),
     (CMD_PIPEWRITE, ''CMD_PIPEWRITE''),
     (CMD_GETCESERVERPATH, ''CMD_GETCESERVERPATH''),
     (CMD_ISANDROID, ''CMD_ISANDROID''),
     (CMD_LOADMODULEEX, ''CMD_LOADMODULEEX''),
     (CMD_SETCURRENTPATH, ''CMD_SETCURRENTPATH''),
     (CMD_GETCURRENTPATH, ''CMD_GETCURRENTPATH''),
     (CMD_ENUMFILES, ''CMD_ENUMFILES''),
     (CMD_GETFILEPERMISSIONS, ''CMD_GETFILEPERMISSIONS''),
     (CMD_SETFILEPERMISSIONS, ''CMD_SETFILEPERMISSIONS''),
     (CMD_GETFILE, ''CMD_GETFILE''),
     (CMD_PUTFILE, ''CMD_PUTFILE''),
     (CMD_CREATEDIR, ''CMD_CREATEDIR''),
     (CMD_DELETEFILE, ''CMD_DELETEFILE''),
     (CMD_AOBSCAN, ''CMD_AOBSCAN''),
     (CMD_COMMANDLIST2, ''CMD_COMMANDLIST2'')]"


section \<open>Packed structures\<close>

record CeVersion =
  cv_version :: u32
  cv_stringsize :: byte

record CeProcessEntry =
  cpe_result :: u32
  cpe_pid :: u32
  cpe_processnamesize :: u32

record CeModuleEntry =
  cme_result :: u32
  cme_modulebase :: u64
  cme_modulepart :: u32
  cme_modulesize :: u32
  cme_modulenamesize :: u32

record CeVirtualQueryExOutput =
  cvq_result :: byte
  cvq_protection :: u32
  cvq_type :: u32
  cvq_baseaddress :: u64
  cvq_size :: u64

record CeRegionInfo =
  cri_baseaddress :: u64
  cri_size :: u64
  cri_protection :: u32
  cri_type :: u32

definition bytes_of_CeVersion :: "CeVersion \<Rightarrow> byte list" where
  "bytes_of_CeVersion v = le_bytes 4 (cv_version v) @ le_bytes 1 (cv_stringsize v)"

definition bytes_of_CeProcessEntry :: "CeProcessEntry \<Rightarrow> byte list" where
  "bytes_of_CeProcessEntry e =
     le_bytes 4 (cpe_result e) @ le_bytes 4 (cpe_pid e) @ le_bytes 4 (cpe_processnamesize e)"

definition bytes_of_CeModuleEntry :: "CeModuleEntry \<Rightarrow> byte list" where
  "bytes_of_CeModuleEntry e =
     le_bytes 4 (cme_result e) @ le_bytes 8 (cme_modulebase e) @ le_bytes 4 (cme_modulepart e)
     @ le_bytes 4 (cme_modulesize e) @ le_bytes 4 (cme_modulenamesize e)"

definition bytes_of_CeVirtualQueryExOutput :: "CeVirtualQueryExOutput \<Rightarrow> byte list" where
  "bytes_of_CeVirtualQueryExOutput r =
     le_bytes 1 (cvq_result r) @ le_bytes 4 (cvq_protection r) @ le_bytes 4 (cvq_type r)
     @ le_bytes 8 (cvq_baseaddress r) @ le_bytes 8 (cvq_size r)"

definition bytes_of_CeRegionInfo :: "CeRegionInfo \<Rightarrow> byte list" where
  "bytes_of_CeRegionInfo r =
     le_bytes 8 (cri_baseaddress r) @ le_bytes 8 (cri_size r)
     @ le_bytes 4 (cri_protection r) @ le_bytes 4 (cri_type r)"

lemma length_bytes_of [simp, wire_simps]:
  "length (bytes_of_CeVersion v) = 5"
  "length (bytes_of_CeProcessEntry pe) = 12"
  "length (bytes_of_CeModuleEntry me) = 24"
  "length (bytes_of_CeVirtualQueryExOutput q) = 25"
  "length (bytes_of_CeRegionInfo r) = 24"
  by (simp_all add: bytes_of_CeVersion_def bytes_of_CeProcessEntry_def bytes_of_CeModuleEntry_def
      bytes_of_CeVirtualQueryExOutput_def bytes_of_CeRegionInfo_def)


section \<open>Reading the packed layout\<close>

text \<open>The field of \<open>n\<close> bytes at an offset of the packed structure.\<close>

definition field_at :: "nat \<Rightarrow> nat \<Rightarrow> byte list \<Rightarrow> 'a::len word" where
  "field_at off n bs = le_word (take n (drop off bs))"

definition parse_CeVersion :: "byte list \<Rightarrow> CeVersion" where
  "parse_CeVersion bs = \<lparr>cv_version = field_at 0 4 bs, cv_stringsize = field_at 4 1 bs\<rparr>"

definition parse_CeProcessEntry :: "byte list \<Rightarrow> CeProcessEntry" where
  "parse_CeProcessEntry bs =
     \<lparr>cpe_result = field_at 0 4 bs, cpe_pid = field_at 4 4 bs, cpe_processnamesize = field_at 8 4 bs\<rparr>"

definition parse_CeModuleEntry :: "byte list \<Rightarrow> CeModuleEntry" where
  "parse_CeModuleEntry bs =
     \<lparr>cme_result = field_at 0 4 bs, cme_modulebase = field_at 4 8 bs, cme_modulepart = field_at 12 4 bs,
      cme_modulesize = field_at 16 4 bs, cme_modulenamesize = field_at 20 4 bs\<rparr>"

definition parse_CeVirtualQueryExOutput :: "byte list \<Rightarrow> CeVirtualQueryExOutput" where
  "parse_CeVirtualQueryExOutput bs =
     \<lparr>cvq_result = field_at 0 1 bs, cvq_protection = field_at 1 4 bs, cvq_type = field_at 5 4 bs,
      cvq_baseaddress = field_at 9 8 bs, cvq_size = field_at 17 8 bs\<rparr>"

definition parse_CeRegionInfo :: "byte list \<Rightarrow> CeRegionInfo" where
  "parse_CeRegionInfo bs =
     \<lparr>cri_baseaddress = field_at 0 8 bs, cri_size = field_at 8 8 bs,
      cri_protection = field_at 16 4 bs, cri_type = field_at 20 4 bs\<rparr>"

lemmas wire_layout_defs =
  bytes_of_CeVersion_def bytes_of_CeProcessEntry_def bytes_of_CeModuleEntry_def
  bytes_of_CeVirtualQueryExOutput_def bytes_of_CeRegionInfo_def
  parse_CeVersion_def parse_CeProcessEntry_def parse_CeModuleEntry_def
  parse_CeVirtualQueryExOutput_def parse_CeRegionInfo_def field_at_def

lemma parse_bytes_of:
  "parse_CeVersion (bytes_of_CeVersion v @ rest) = v"
  "parse_CeProcessEntry (bytes_of_CeProcessEntry pe @ rest) = pe"
  "parse_CeModuleEntry (bytes_of_CeModuleEntry me @ rest) = me"
  "parse_CeVirtualQueryExOutput (bytes_of_CeVirtualQueryExOutput q @ rest) = q"
  "parse_CeRegionInfo (bytes_of_CeRegionInfo r @ rest) = r"
  by (simp_all add: wire_layout_defs)

text \<open>A structure followed by a name whose length the structure carries.\<close>

definition parse_process_reply :: "byte list \<Rightarrow> CeProcessEntry \<times> byte list \<times> byte list" where
  "parse_process_reply bs =
     (let e = parse_CeProcessEntry bs; n = unat (cpe_processnamesize e); tl = drop 12 bs
      in (e, take n tl, drop n tl))"

definition parse_module_reply :: "byte list \<Rightarrow> CeModuleEntry \<times> byte list \<times> byte list" where
  "parse_module_reply bs =
     (let e = parse_CeModuleEntry bs; n = unat (cme_modulenamesize e); tl = drop 24 bs
      in (e, take n tl, drop n tl))"

lemma parse_process_reply_bytes:
  "unat (cpe_processnamesize e) = length name \<Longrightarrow>
     parse_process_reply (bytes_of_CeProcessEntry e @ name @ rest) = (e, name, rest)"
  by (simp add: parse_process_reply_def parse_bytes_of)

lemma parse_module_reply_bytes:
  "unat (cme_modulenamesize e) = length name \<Longrightarrow>
     parse_module_reply (bytes_of_CeModuleEntry e @ name @ rest) = (e, name, rest)"
  by (simp add: parse_module_reply_def parse_bytes_of)


section \<open>The command table\<close>

lemma commandToString_keys:
  "umap_contains commandToString c \<longleftrightarrow> c \<le> CMD_DELETEFILE \<or> c = CMD_AOBSCAN \<or> c = CMD_COMMANDLIST2"
proof -
  have "c \<in> fst ` set commandToString \<longleftrightarrow> c \<le> CMD_DELETEFILE \<or> c = CMD_AOBSCAN \<or> c = CMD_COMMANDLIST2"
  proof
    assume "c \<in> fst ` set commandToString"
    then show "c \<le> CMD_DELETEFILE \<or> c = CMD_AOBSCAN \<or> c = CMD_COMMANDLIST2"
      by (simp add: commandToString_def) (elim disjE; simp)
  next
    assume "c \<le> CMD_DELETEFILE \<or> c = CMD_AOBSCAN \<or> c = CMD_COMMANDLIST2"
    moreover have "c \<in> set (map word_of_nat [0..<56])" if "c \<le> CMD_DELETEFILE"
    proof -
      have "unat c < 56" using that by (simp add: word_le_nat_alt)
      then have "(word_of_nat (unat c) :: byte) \<in> word_of_nat ` set [0..<56]" by (intro imageI) simp
      then show ?thesis by simp
    qed
    ultimately show "c \<in> fst ` set commandToString"
      by (auto simp: commandToString_def upt_conv_Cons)
  qed
  then show ?thesis
    by (simp add: umap_contains_def map_of_eq_None_iff)
qed

end
