(* ===== verification/Socket.thy ===== *)
theory Socket
  imports Wire
begin

text \<open>
  Stream sockets as the program uses them: \<^verbatim>\<open>SocketWrapper.h\<close>, \<^verbatim>\<open>LinuxSocketWrapper.cpp\<close> and
  \<^verbatim>\<open>WinsockWrapper.cpp\<close>.

  A connected socket is a record. The peer is a script: \<open>sk_in\<close> holds the bytes it will have
  sent and that are not yet received, \<open>sk_end\<close> how the stream ends after them (\<open>None\<close> for an
  orderly shutdown, \<open>Some e\<close> for an error), and \<open>sk_arrived\<close> how much of that has arrived at
  each successive non-blocking attempt (the end of the stream counts as one more item; an
  exhausted schedule means that everything has arrived). \<open>sk_out\<close> collects what was sent.
  A blocking \<open>recv\<close> with \<^verbatim>\<open>MSG_WAITALL\<close>, the only blocking form in the program, returns fewer
  bytes than it asked for only where the stream ends. On a socket in non-blocking mode Winsock
  refuses \<^verbatim>\<open>MSG_WAITALL\<close> with \<^verbatim>\<open>WSAEOPNOTSUPP\<close> (10045), whatever has arrived; only
  \<open>WinsockWrapper_recvNonBlocking\<close> puts a socket in that mode. The flags of \<open>send\<close> are 0 throughout.
\<close>


section \<open>The socket calls\<close>

datatype errno = E_NONE | EWOULDBLOCK | EBADF | EPIPE | E_OTHER nat

datatype platform = Linux | Windows

datatype msg_flag = MSG_WAITALL | MSG_DONTWAIT

record sock =
  sk_in :: "byte list"
  sk_end :: "errno option"
  sk_arrived :: "nat list"
  sk_out :: "byte list"
  sk_up :: bool
  sk_errno :: errno
  sk_nonblocking :: bool
  sk_closed :: bool

definition recv_end :: "sock \<Rightarrow> int \<times> byte list \<times> sock" where
  "recv_end s = (case sk_end s of None \<Rightarrow> (0, [], s) | Some e \<Rightarrow> (- 1, [], s\<lparr>sk_errno := e\<rparr>))"

definition recv_some :: "sock \<Rightarrow> nat \<Rightarrow> int \<times> byte list \<times> sock" where
  "recv_some s k = (int k, take k (sk_in s), s\<lparr>sk_in := drop k (sk_in s)\<rparr>)"

definition recv_blocking :: "sock \<Rightarrow> nat \<Rightarrow> int \<times> byte list \<times> sock" where
  "recv_blocking s n =
     (if n = 0 \<or> sk_in s \<noteq> [] then recv_some s (min n (length (sk_in s))) else recv_end s)"

definition recv_polling :: "sock \<Rightarrow> nat \<Rightarrow> int \<times> byte list \<times> sock" where
  "recv_polling s n =
     (let a = (case sk_arrived s of [] \<Rightarrow> Suc (length (sk_in s)) | a # _ \<Rightarrow> a);
          s = s\<lparr>sk_arrived := tl (sk_arrived s)\<rparr>
      in if a = 0 then (- 1, [], s\<lparr>sk_errno := EWOULDBLOCK\<rparr>)
         else if sk_in s \<noteq> [] then recv_some s (min n (min a (length (sk_in s))))
         else recv_end s)"

definition os_recv :: "sock \<Rightarrow> nat \<Rightarrow> msg_flag list \<Rightarrow> int \<times> byte list \<times> sock" where
  "os_recv s n flags =
     (if sk_closed s then (- 1, [], s\<lparr>sk_errno := EBADF\<rparr>)
      else if sk_nonblocking s \<and> MSG_WAITALL \<in> set flags then (- 1, [], s\<lparr>sk_errno := E_OTHER 10045\<rparr>)
      else if sk_nonblocking s \<or> MSG_DONTWAIT \<in> set flags then recv_polling s n
      else recv_blocking s n)"

definition os_send :: "sock \<Rightarrow> byte list \<Rightarrow> int \<times> sock" where
  "os_send s bs =
     (if sk_closed s then (- 1, s\<lparr>sk_errno := EBADF\<rparr>)
      else if \<not> sk_up s then (- 1, s\<lparr>sk_errno := EPIPE\<rparr>)
      else (int (length bs), s\<lparr>sk_out := sk_out s @ bs\<rparr>))"

definition os_close :: "sock \<Rightarrow> sock" where
  "os_close s = s\<lparr>sk_closed := True\<rparr>"


section \<open>The wrappers\<close>

text \<open>
  Both wrappers pass \<open>recv\<close> and \<open>send\<close> through. The buffer of the caller is overwritten from
  its start with the bytes received.
\<close>

definition recv :: "sock \<Rightarrow> byte list \<Rightarrow> nat \<Rightarrow> msg_flag list \<Rightarrow> int \<times> byte list \<times> sock" where
  "recv s buf n flags = (let (r, bs, s') = os_recv s n flags in (r, overwrite buf bs, s'))"

definition send :: "sock \<Rightarrow> byte list \<Rightarrow> int \<times> sock" where
  "send s bs = os_send s bs"

text \<open>
  \<^verbatim>\<open>LinuxSocketWrapper::recvNonBlocking\<close> hands \<^verbatim>\<open>(char *) &buffer\<close> to \<open>recv\<close>: the address of its
  own parameter, an object of eight bytes. What arrives overwrites the local pointer, and the
  caller's buffer keeps its contents.
\<close>

definition LinuxSocketWrapper_recvNonBlocking ::
    "sock \<Rightarrow> byte list \<Rightarrow> nat \<Rightarrow> msg_flag list \<Rightarrow> fault + (int \<times> byte list \<times> sock)" where
  "LinuxSocketWrapper_recvNonBlocking s buf n flags =
     (let (r, bs, s') = os_recv s n (MSG_DONTWAIT # flags)
      in if length bs \<le> 8 then Inr (r, buf, s') else Inl Buffer_overflow)"

text \<open>
  \<^verbatim>\<open>WinsockWrapper::recvNonBlocking\<close> switches the socket to non-blocking mode and calls \<open>recv\<close>;
  nothing switches it back.
\<close>

definition WinsockWrapper_recvNonBlocking ::
    "sock \<Rightarrow> byte list \<Rightarrow> nat \<Rightarrow> msg_flag list \<Rightarrow> fault + (int \<times> byte list \<times> sock)" where
  "WinsockWrapper_recvNonBlocking s buf n flags = Inr (recv (s\<lparr>sk_nonblocking := True\<rparr>) buf n flags)"

definition recvNonBlocking ::
    "platform \<Rightarrow> sock \<Rightarrow> byte list \<Rightarrow> nat \<Rightarrow> msg_flag list \<Rightarrow> fault + (int \<times> byte list \<times> sock)" where
  "recvNonBlocking p =
     (case p of Linux \<Rightarrow> LinuxSocketWrapper_recvNonBlocking | Windows \<Rightarrow> WinsockWrapper_recvNonBlocking)"

text \<open>
  \<open>lastError\<close> is \<^verbatim>\<open>errno\<close> on Linux, which a successful call does not reset, and
  \<^verbatim>\<open>WSAGetLastError()\<close> on Windows, where a socket that is not ready reports
  \<^verbatim>\<open>WSAEWOULDBLOCK\<close> (10035) and not the C library's \<^verbatim>\<open>EWOULDBLOCK\<close>.
\<close>

definition lastError :: "platform \<Rightarrow> sock \<Rightarrow> errno" where
  "lastError p s =
     (case p of Linux \<Rightarrow> sk_errno s
      | Windows \<Rightarrow> if sk_errno s = EWOULDBLOCK then E_OTHER 10035 else sk_errno s)"

text \<open>
  \<^verbatim>\<open>SocketWrapper::recv<T>\<close> receives into a value-initialised object, \<open>send<T>\<close> sends the
  object's image. The object is an integer here; structures have their own images.
\<close>

definition recv_T :: "sock \<Rightarrow> msg_flag list \<Rightarrow> 'a::len word \<times> sock" where
  "recv_T s flags =
     (let n = LENGTH('a) div 8; (r, data, s') = recv s (replicate n 0) n flags in (le_word data, s'))"

definition send_T :: "sock \<Rightarrow> 'a::len word \<Rightarrow> sock" where
  "send_T s w = snd (send s (le_bytes (LENGTH('a) div 8) w))"


section \<open>An open connection in blocking mode\<close>

definition connected :: "sock \<Rightarrow> bool" where
  "connected s \<longleftrightarrow> \<not> sk_closed s \<and> sk_up s \<and> \<not> sk_nonblocking s"

lemma connected_update [simp]:
  "connected (s\<lparr>sk_in := i\<rparr>) = connected s"
  "connected (s\<lparr>sk_out := out\<rparr>) = connected s"
  "connected (s\<lparr>sk_errno := e\<rparr>) = connected s"
  by (simp_all add: connected_def)

lemma os_recv_enough:
  "connected s \<Longrightarrow> n \<le> length (sk_in s) \<Longrightarrow>
     os_recv s n [MSG_WAITALL] = (int n, take n (sk_in s), s\<lparr>sk_in := drop n (sk_in s)\<rparr>)"
  by (auto simp: os_recv_def recv_blocking_def recv_some_def connected_def min_def)

lemma recv_enough:
  "connected s \<Longrightarrow> sk_in s = bs @ rest \<Longrightarrow> length bs = length buf \<Longrightarrow>
     recv s buf (length buf) [MSG_WAITALL] = (int (length bs), bs, s\<lparr>sk_in := rest\<rparr>)"
  by (simp add: recv_def os_recv_enough overwrite_full)

text \<open>What one side sends as an integer, the other side receives as the same integer.\<close>

lemma recv_T_le_bytes:
  fixes w :: "'a::len word"
  assumes "connected s" "sk_in s = le_bytes n w @ rest" "8 * n = LENGTH('a)"
  shows "recv_T s [MSG_WAITALL] = (w, s\<lparr>sk_in := rest\<rparr>)"
proof -
  have n: "LENGTH('a) div 8 = n"
    using assms(3) by linarith
  have "recv s (replicate n 0) n [MSG_WAITALL] = (int n, le_bytes n w, s\<lparr>sk_in := rest\<rparr>)"
    using recv_enough [OF assms(1,2), of "replicate n 0"] by simp
  then show ?thesis
    using assms(3) by (simp add: recv_T_def n le_word_le_bytes)
qed

lemma recv_T_widths:
  "connected s \<Longrightarrow> sk_in s = le_bytes 1 b @ rest \<Longrightarrow> recv_T s [MSG_WAITALL] = (b :: byte, s\<lparr>sk_in := rest\<rparr>)"
  "connected s \<Longrightarrow> sk_in s = le_bytes 4 d @ rest \<Longrightarrow> recv_T s [MSG_WAITALL] = (d :: u32, s\<lparr>sk_in := rest\<rparr>)"
  "connected s \<Longrightarrow> sk_in s = le_bytes 8 q @ rest \<Longrightarrow> recv_T s [MSG_WAITALL] = (q :: u64, s\<lparr>sk_in := rest\<rparr>)"
  by (rule recv_T_le_bytes; simp)+

lemma send_connected:
  "connected s \<Longrightarrow> send s bs = (int (length bs), s\<lparr>sk_out := sk_out s @ bs\<rparr>)"
  by (simp add: send_def os_send_def connected_def)

lemma send_T_widths:
  "connected s \<Longrightarrow> send_T s (b :: byte) = s\<lparr>sk_out := sk_out s @ le_bytes 1 b\<rparr>"
  "connected s \<Longrightarrow> send_T s (h :: u16) = s\<lparr>sk_out := sk_out s @ le_bytes 2 h\<rparr>"
  "connected s \<Longrightarrow> send_T s (d :: u32) = s\<lparr>sk_out := sk_out s @ le_bytes 4 d\<rparr>"
  "connected s \<Longrightarrow> send_T s (q :: u64) = s\<lparr>sk_out := sk_out s @ le_bytes 8 q\<rparr>"
  by (simp_all add: send_T_def send_connected)

lemmas socket_io = recv_T_widths send_T_widths send_connected

text \<open>
  Receiving never touches what was sent, sending never what is to be received, and both keep the
  end of the stream.
\<close>

lemma os_recv_out: "os_recv s n flags = (r, bs, s') \<Longrightarrow> sk_out s' = sk_out s \<and> sk_end s' = sk_end s"
  by (auto simp: os_recv_def recv_polling_def recv_blocking_def recv_some_def recv_end_def Let_def
      split: if_splits option.splits list.splits)

lemma os_recv_prefix: "os_recv s n flags = (r, bs, s') \<Longrightarrow> sk_in s = bs @ sk_in s'"
  by (auto simp: os_recv_def recv_polling_def recv_blocking_def recv_some_def recv_end_def Let_def
      split: if_splits option.splits list.splits)

lemma os_recv_length:
  assumes "os_recv s n flags = (r, bs, s')"
  shows "length bs \<le> n \<and> (bs \<noteq> [] \<longrightarrow> r = int (length bs)) \<and> (r \<le> 0 \<longrightarrow> bs = [])"
  using assms
  by (auto simp: os_recv_def recv_polling_def recv_blocking_def recv_some_def recv_end_def Let_def
      split: if_splits option.splits list.splits)

end
