(* ===== verification/ClientState.thy ===== *)
theory ClientState
  imports MemoryTypes
begin

text \<open>
  \<^verbatim>\<open>ClientState\<close>: the handle table that all connections of a server share. Every public method
  takes the object's mutex, so each definition here is one atomic step; the methods that draw a
  handle and store under it are two such steps, and the last section interleaves them.

  \<open>CE_HANDLE\<close> is an \<^verbatim>\<open>int\<close>. The increment in \<open>generateHandle\<close> wraps here as it does on the
  supported targets; the first \<open>2 ^ 31 - 1\<close> handles are drawn without reaching that point.
\<close>


section \<open>The state and its operations\<close>

record client_state =
  lastHandleID :: handle
  processIter :: "(handle, u32) umap"
  moduleIter :: "(handle, u32) umap"
  handlesToProcessInfoSnapshots :: "(handle, ProcessInfo list) umap"
  handlesToModuleSnapshots :: "(handle, MemoryRegion list) umap"
  handlesToProcessIDs :: "(handle, pid) umap"

definition new_ClientState :: client_state where
  "new_ClientState =
     \<lparr>lastHandleID = 0, processIter = [], moduleIter = [], handlesToProcessInfoSnapshots = [],
      handlesToModuleSnapshots = [], handlesToProcessIDs = []\<rparr>"

definition generateHandle :: "client_state \<Rightarrow> handle \<times> client_state" where
  "generateHandle st =
     (let h = lastHandleID st + 1;
          h = (if (scast h :: u64) \<ge> 0xFFFFFFFFFFFFFFFF \<or> sint h < 0 then 0 else h)
      in (h, st\<lparr>lastHandleID := h\<rparr>))"

definition storeOpenProcess_at :: "client_state \<Rightarrow> pid \<Rightarrow> handle \<Rightarrow> handle \<times> client_state" where
  "storeOpenProcess_at st p h =
     (h, st\<lparr>handlesToProcessIDs := umap_assign h p (handlesToProcessIDs st)\<rparr>)"

definition storeOpenProcess :: "client_state \<Rightarrow> pid \<Rightarrow> handle \<times> client_state" where
  "storeOpenProcess st p = (let (h, st) = generateHandle st in storeOpenProcess_at st p h)"

definition storeProcessSnapshot_at ::
    "client_state \<Rightarrow> ProcessInfo list \<Rightarrow> handle \<Rightarrow> handle \<times> client_state" where
  "storeProcessSnapshot_at st snapshot h =
     (h, st\<lparr>handlesToProcessInfoSnapshots := umap_insert h snapshot (handlesToProcessInfoSnapshots st),
           processIter := umap_assign h 0 (processIter st)\<rparr>)"

definition storeProcessSnapshot :: "client_state \<Rightarrow> ProcessInfo list \<Rightarrow> handle \<times> client_state" where
  "storeProcessSnapshot st snapshot =
     (let (h, st) = generateHandle st in storeProcessSnapshot_at st snapshot h)"

definition storeModuleSnapshot_at ::
    "client_state \<Rightarrow> MemoryRegion list \<Rightarrow> handle \<Rightarrow> handle \<times> client_state" where
  "storeModuleSnapshot_at st snapshot h =
     (h, st\<lparr>handlesToModuleSnapshots := umap_insert h snapshot (handlesToModuleSnapshots st),
           moduleIter := umap_assign h 0 (moduleIter st)\<rparr>)"

definition storeModuleSnapshot :: "client_state \<Rightarrow> MemoryRegion list \<Rightarrow> handle \<times> client_state" where
  "storeModuleSnapshot st snapshot =
     (let (h, st) = generateHandle st in storeModuleSnapshot_at st snapshot h)"

definition closeHandle :: "client_state \<Rightarrow> handle \<Rightarrow> client_state" where
  "closeHandle st h =
     st\<lparr>handlesToProcessInfoSnapshots := umap_erase h (handlesToProcessInfoSnapshots st),
        handlesToModuleSnapshots := umap_erase h (handlesToModuleSnapshots st),
        processIter := umap_erase h (processIter st),
        moduleIter := umap_erase h (moduleIter st),
        handlesToProcessIDs := umap_erase h (handlesToProcessIDs st)\<rparr>"

text \<open>
  The cursor step of \<open>nextProcessInfo\<close> and \<open>nextMemoryRegion\<close>: \<open>iter[handle]\<close> is an
  \<^verbatim>\<open>int32_t\<close>, compared with the vector's size as a \<^verbatim>\<open>size_t\<close>; reading it inserts a zero when the
  handle has none.
\<close>

definition next_entry ::
    "(handle, u32) umap \<Rightarrow> (handle, 'a list) umap \<Rightarrow> handle \<Rightarrow> 'a option \<times> (handle, u32) umap" where
  "next_entry iter snapshots h =
     (case map_of snapshots h of
        None \<Rightarrow> (None, iter)
      | Some xs \<Rightarrow>
          (let (i, iter) = umap_index 0 h iter; k = unat (scast i :: u64)
           in if k \<ge> length xs then (None, iter)
              else (Some (xs ! k), umap_assign h (i + 1) iter)))"

definition nextProcessInfo :: "client_state \<Rightarrow> handle \<Rightarrow> ProcessInfo option \<times> client_state" where
  "nextProcessInfo st h =
     (let (p, iter) = next_entry (processIter st) (handlesToProcessInfoSnapshots st) h
      in (p, st\<lparr>processIter := iter\<rparr>))"

definition nextMemoryRegion :: "client_state \<Rightarrow> handle \<Rightarrow> MemoryRegion option \<times> client_state" where
  "nextMemoryRegion st h =
     (let (r, iter) = next_entry (moduleIter st) (handlesToModuleSnapshots st) h
      in (r, st\<lparr>moduleIter := iter\<rparr>))"

definition resetProcessIterator :: "client_state \<Rightarrow> handle \<Rightarrow> client_state" where
  "resetProcessIterator st h = st\<lparr>processIter := umap_assign h 0 (processIter st)\<rparr>"

definition resetModuleIterator :: "client_state \<Rightarrow> handle \<Rightarrow> client_state" where
  "resetModuleIterator st h = st\<lparr>moduleIter := umap_assign h 0 (moduleIter st)\<rparr>"

definition getProcessID :: "client_state \<Rightarrow> handle \<Rightarrow> pid" where
  "getProcessID st h = (case map_of (handlesToProcessIDs st) h of Some p \<Rightarrow> p | None \<Rightarrow> - 1)"

text \<open>
  \<open>begin()\<close> of an unordered map is any of its elements: the parameter \<open>first\<close> picks one. The
  method returns the element's \<open>second\<close>, the process id.
\<close>

definition getProcessHandleLegacyCE :: "(nat \<Rightarrow> nat) \<Rightarrow> client_state \<Rightarrow> handle" where
  "getProcessHandleLegacyCE first st =
     (let m = handlesToProcessIDs st
      in if m = [] then - 1 else snd (m ! (first (length m) mod length m)))"

definition containsProcessInfoHandle :: "client_state \<Rightarrow> handle \<Rightarrow> bool" where
  "containsProcessInfoHandle st h = umap_contains (handlesToProcessInfoSnapshots st) h"

definition containsMemoryRegionHandle :: "client_state \<Rightarrow> handle \<Rightarrow> bool" where
  "containsMemoryRegionHandle st h = umap_contains (handlesToModuleSnapshots st) h"

definition containsProcessIDHandle :: "client_state \<Rightarrow> handle \<Rightarrow> bool" where
  "containsProcessIDHandle st h = umap_contains (handlesToProcessIDs st) h"

lemmas client_state_defs =
  storeOpenProcess_at_def storeProcessSnapshot_at_def storeModuleSnapshot_at_def closeHandle_def
  nextProcessInfo_def nextMemoryRegion_def resetProcessIterator_def resetModuleIterator_def
  getProcessID_def containsProcessInfoHandle_def containsMemoryRegionHandle_def
  containsProcessIDHandle_def


section \<open>Drawing handles\<close>

lemma generateHandle_step:
  assumes "unat (lastHandleID st) < 2 ^ 31 - 1"
  shows "generateHandle st = (lastHandleID st + 1, st\<lparr>lastHandleID := lastHandleID st + 1\<rparr>)"
    and "unat (lastHandleID st + 1) = Suc (unat (lastHandleID st))"
proof -
  let ?h = "lastHandleID st + 1"
  show u: "unat ?h = Suc (unat (lastHandleID st))"
    using assms by (simp add: unat_word_ariths)
  then have small: "unat ?h < 2 ^ 31"
    using assms by simp
  then have "unat (scast ?h :: u64) < 2 ^ 31"
    by (simp only: unat_scast_small)
  then have "\<not> (scast ?h :: u64) \<ge> 0xFFFFFFFFFFFFFFFF"
    by (simp add: word_le_nat_alt)
  then show "generateHandle st = (?h, st\<lparr>lastHandleID := ?h\<rparr>)"
    using sint_small [OF small] by (simp add: generateHandle_def Let_def)
qed


section \<open>Snapshots with a cursor: the interface\<close>

text \<open>
  What the connection handlers rely on when a client walks a snapshot: a table from handles to a
  list and a position in it. \<open>cursor\<close> is the abstract view; the laws say how each operation of
  the interface acts on it. Both halves of the handle table (processes and modules) provide it.
\<close>

locale cursor_table =
  fixes store :: "'s \<Rightarrow> 'a list \<Rightarrow> handle \<Rightarrow> 's"
    and nxt :: "'s \<Rightarrow> handle \<Rightarrow> 'a option \<times> 's"
    and reset :: "'s \<Rightarrow> handle \<Rightarrow> 's"
    and close :: "'s \<Rightarrow> handle \<Rightarrow> 's"
    and contains :: "'s \<Rightarrow> handle \<Rightarrow> bool"
    and invar :: "'s \<Rightarrow> bool"
    and cursor :: "'s \<Rightarrow> handle \<rightharpoonup> 'a list \<times> nat"
  assumes contains_cursor: "contains s h \<longleftrightarrow> cursor s h \<noteq> None"
    and store_fresh: "invar s \<Longrightarrow> cursor s h = None \<Longrightarrow> length xs < 2 ^ 31 \<Longrightarrow>
          invar (store s xs h) \<and> cursor (store s xs h) = (cursor s)(h \<mapsto> (xs, 0))"
    and store_again: "invar s \<Longrightarrow> cursor s h = Some (ys, i) \<Longrightarrow>
          invar (store s xs h) \<and> cursor (store s xs h) = (cursor s)(h \<mapsto> (ys, 0))"
    and next_element: "invar s \<Longrightarrow> cursor s h = Some (xs, i) \<Longrightarrow> i < length xs \<Longrightarrow>
          \<exists>s'. nxt s h = (Some (xs ! i), s') \<and> invar s' \<and> cursor s' = (cursor s)(h \<mapsto> (xs, Suc i))"
    and next_end: "invar s \<Longrightarrow> cursor s h = Some (xs, i) \<Longrightarrow> length xs \<le> i \<Longrightarrow>
          \<exists>s'. nxt s h = (None, s') \<and> invar s' \<and> cursor s' = cursor s"
    and next_absent: "invar s \<Longrightarrow> cursor s h = None \<Longrightarrow> nxt s h = (None, s)"
    and reset_cursor: "invar s \<Longrightarrow> cursor s h = Some (xs, i) \<Longrightarrow>
          invar (reset s h) \<and> cursor (reset s h) = (cursor s)(h \<mapsto> (xs, 0))"
    and close_cursor: "invar s \<Longrightarrow>
          invar (close s h) \<and> cursor (close s h) = (cursor s)(h := None)"
begin

lemma next_invar:
  assumes "invar s" "nxt s h = (x, s')"
  shows "invar s'"
proof (cases "cursor s h")
  case None
  with next_absent [OF assms(1)] assms show ?thesis by simp
next
  case (Some c)
  then obtain xs i where "cursor s h = Some (xs, i)"
    by (cases c) simp
  with next_element [OF assms(1)] next_end [OF assms(1)] assms(2) show ?thesis
    by (cases "i < length xs") (fastforce simp: not_less)+
qed

lemma next_cursor:
  assumes "invar s" "nxt s h = (x, s')"
  shows "cursor s' h = None \<longleftrightarrow> cursor s h = None"
proof (cases "cursor s h")
  case None
  with next_absent [OF assms(1)] assms show ?thesis by simp
next
  case (Some c)
  then obtain xs i where "cursor s h = Some (xs, i)"
    by (cases c) simp
  with next_element [OF assms(1)] next_end [OF assms(1)] assms(2) show ?thesis
    by (cases "i < length xs") (fastforce simp: not_less)+
qed

text \<open>From any position the next calls return the rest of the list, one element each.\<close>

lemma drain_from:
  assumes "invar s" "cursor s h = Some (xs, i)" "n \<le> length xs - i"
  shows "\<exists>s'. repeat_call (\<lambda>s. nxt s h) n s = (map Some (take n (drop i xs)), s')
    \<and> invar s' \<and> cursor s' = (cursor s)(h \<mapsto> (xs, i + n))"
  using assms
proof (induction n arbitrary: s i)
  case 0
  then show ?case by auto
next
  case (Suc n)
  then have i: "i < length xs" by simp
  from next_element [OF Suc.prems(1,2) i] obtain s1 where s1: "nxt s h = (Some (xs ! i), s1)" "invar s1"
      "cursor s1 = (cursor s)(h \<mapsto> (xs, Suc i))"
    by blast
  have "cursor s1 h = Some (xs, Suc i)" "n \<le> length xs - Suc i"
    using s1(3) Suc.prems(3) by simp_all
  with Suc.IH [OF s1(2)] obtain s2 where
      "repeat_call (\<lambda>s. nxt s h) n s1 = (map Some (take n (drop (Suc i) xs)), s2)"
      "invar s2" "cursor s2 = (cursor s)(h \<mapsto> (xs, Suc i + n))"
    using s1(3) by fastforce
  with s1(1) i show ?case
    by (simp add: Cons_nth_drop_Suc [symmetric] fun_upd_def)
qed

lemma past_the_end:
  assumes "invar s" "cursor s h = Some (xs, i)" "length xs \<le> i"
  shows "\<exists>s'. repeat_call (\<lambda>s. nxt s h) n s = (replicate n None, s') \<and> invar s' \<and> cursor s' = cursor s"
  using assms
proof (induction n arbitrary: s)
  case 0
  then show ?case by auto
next
  case (Suc n)
  from next_end [OF Suc.prems] obtain s1 where "nxt s h = (None, s1)" "invar s1" "cursor s1 = cursor s"
    by blast
  with Suc.IH [of s1] Suc.prems(2,3) show ?case by fastforce
qed

text \<open>
  A walk: rewinding and then calling \<open>nxt\<close> any number of times returns the list in order, then
  nothing for ever, and moves no other handle's cursor.
\<close>

theorem walk:
  assumes "invar s" "cursor s h = Some (xs, i)"
  shows "\<exists>s'. repeat_call (\<lambda>s. nxt s h) (length xs + n) (reset s h)
      = (map Some xs @ replicate n None, s')
    \<and> invar s' \<and> cursor s' = (cursor s)(h \<mapsto> (xs, length xs))"
proof -
  note r = reset_cursor [OF assms]
  obtain s1 where s1: "repeat_call (\<lambda>s. nxt s h) (length xs) (reset s h) = (map Some xs, s1)"
      "invar s1" "cursor s1 = (cursor s)(h \<mapsto> (xs, length xs))"
    using drain_from [of "reset s h" h xs 0 "length xs"] r by auto
  obtain s2 where "repeat_call (\<lambda>s. nxt s h) n s1 = (replicate n None, s2)" "invar s2"
      "cursor s2 = cursor s1"
    using past_the_end [OF s1(2), of h xs "length xs" n] s1(3) by auto
  with s1 show ?thesis
    by (simp add: repeat_call_append)
qed

end


section \<open>The handle table provides the interface twice\<close>

definition cursor_of ::
    "(handle, u32) umap \<Rightarrow> (handle, 'a list) umap \<Rightarrow> handle \<rightharpoonup> 'a list \<times> nat" where
  "cursor_of iter snapshots h =
     map_option (\<lambda>xs. (xs, unat (case map_of iter h of Some i \<Rightarrow> i | None \<Rightarrow> 0))) (map_of snapshots h)"

definition cursors_ok :: "(handle, u32) umap \<Rightarrow> (handle, 'a list) umap \<Rightarrow> bool" where
  "cursors_ok iter snapshots \<longleftrightarrow>
     umap_ok iter \<and> umap_ok snapshots
     \<and> (\<forall>h xs i. cursor_of iter snapshots h = Some (xs, i) \<longrightarrow> i \<le> length xs \<and> length xs < 2 ^ 31)"

definition cs_inv :: "client_state \<Rightarrow> bool" where
  "cs_inv st \<longleftrightarrow>
     cursors_ok (processIter st) (handlesToProcessInfoSnapshots st)
     \<and> cursors_ok (moduleIter st) (handlesToModuleSnapshots st)
     \<and> umap_ok (handlesToProcessIDs st)"

lemma cursors_okI:
  assumes "umap_ok iter" "umap_ok snapshots"
    and "\<And>h xs i. cursor_of iter snapshots h = Some (xs, i) \<Longrightarrow> i \<le> length xs \<and> length xs < 2 ^ 31"
  shows "cursors_ok iter snapshots"
  using assms by (auto simp: cursors_ok_def)

lemma cursors_okD:
  assumes "cursors_ok iter snapshots"
  shows "umap_ok iter" "umap_ok snapshots"
    and "cursor_of iter snapshots h = Some (xs, i) \<Longrightarrow> i \<le> length xs"
    and "cursor_of iter snapshots h = Some (xs, i) \<Longrightarrow> length xs < 2 ^ 31"
  using assms by (auto simp: cursors_ok_def)

lemma cursor_of_insert_fresh:
  "cursor_of iter snapshots h = None \<Longrightarrow>
     cursor_of (umap_assign h 0 iter) (umap_insert h xs snapshots) = (cursor_of iter snapshots)(h \<mapsto> (xs, 0))"
  by (rule ext) (auto simp: cursor_of_def umap_simps umap_contains_def)

lemma cursor_of_insert_again:
  "cursor_of iter snapshots h = Some (ys, i) \<Longrightarrow>
     cursor_of (umap_assign h 0 iter) (umap_insert h xs snapshots) = (cursor_of iter snapshots)(h \<mapsto> (ys, 0))"
  by (rule ext) (auto simp: cursor_of_def umap_simps umap_contains_def)

lemma cursor_of_reset:
  "cursor_of iter snapshots h = Some (xs, i) \<Longrightarrow>
     cursor_of (umap_assign h 0 iter) snapshots = (cursor_of iter snapshots)(h \<mapsto> (xs, 0))"
  by (rule ext) (auto simp: cursor_of_def umap_simps)

lemma cursor_of_erase:
  "cursor_of (umap_erase h iter) (umap_erase h snapshots) = (cursor_of iter snapshots)(h := None)"
  by (rule ext) (auto simp: cursor_of_def umap_simps)

lemma cursors_ok_update:
  assumes "cursors_ok iter snapshots" "umap_ok iter'" "umap_ok snapshots'"
    and "cursor_of iter' snapshots' = (cursor_of iter snapshots)(h \<mapsto> (xs, i))"
    and "i \<le> length xs" "length xs < 2 ^ 31"
  shows "cursors_ok iter' snapshots'"
  using assms by (auto simp: cursors_ok_def split: if_splits)

lemma cursors_ok_erase:
  "cursors_ok iter snapshots \<Longrightarrow> cursors_ok (umap_erase h iter) (umap_erase h snapshots)"
  by (auto simp: cursors_ok_def cursor_of_erase split: if_splits)

lemma cursors_ok_reset:
  "cursors_ok iter snapshots \<Longrightarrow> cursors_ok (umap_assign h 0 iter) snapshots"
  by (auto simp: cursors_ok_def cursor_of_def umap_simps split: if_splits)

lemma cursors_ok_store:
  assumes "cursors_ok iter snapshots" "length xs < 2 ^ 31 \<or> cursor_of iter snapshots h \<noteq> None"
  shows "cursors_ok (umap_assign h 0 iter) (umap_insert h xs snapshots)"
  using assms
  by (auto simp: cursors_ok_def cursor_of_def umap_simps umap_contains_def split: if_splits)

lemma next_entry_absent:
  "cursor_of iter snapshots h = None \<Longrightarrow> next_entry iter snapshots h = (None, iter)"
  by (simp add: cursor_of_def next_entry_def)

lemma next_entry_cases:
  assumes ok: "cursors_ok iter snapshots" and c: "cursor_of iter snapshots h = Some (xs, i)"
  shows "\<exists>iter'. next_entry iter snapshots h
        = (if i < length xs then Some (xs ! i) else None, iter')
      \<and> cursors_ok iter' snapshots
      \<and> cursor_of iter' snapshots
        = (cursor_of iter snapshots)(h \<mapsto> (xs, if i < length xs then Suc i else i))"
proof -
  obtain w it where idx: "umap_index 0 h iter = (w, it)"
    by fastforce
  from c have xs: "map_of snapshots h = Some xs" and i: "unat w = i"
    using map_of_umap_index(1) [of 0 h iter] idx by (auto simp: cursor_of_def split: option.splits)
  have bound: "i \<le> length xs" "length xs < 2 ^ 31"
    using cursors_okD(3,4) [OF ok c] by simp_all
  then have k: "unat (scast w :: u64) = i"
    using i unat_scast_small [of w] by simp
  have it: "umap_ok it"
    using umap_ok_ops(5) [OF cursors_okD(1) [OF ok], of 0 h] idx by simp
  have same: "cursor_of it snapshots = cursor_of iter snapshots"
    using map_of_umap_index(2) [of 0 h iter] idx
    by (auto simp: cursor_of_def fun_eq_iff split: option.splits)
  show ?thesis
  proof (cases "i < length xs")
    case True
    have "unat (w + 1) = Suc i"
      using True bound i by (simp add: unat_word_ariths)
    then have cur: "cursor_of (umap_assign h (w + 1) it) snapshots = (cursor_of iter snapshots)(h \<mapsto> (xs, Suc i))"
      using xs same [symmetric] by (auto simp: cursor_of_def umap_simps fun_eq_iff)
    have "cursors_ok (umap_assign h (w + 1) it) snapshots"
      by (rule cursors_ok_update [OF ok _ _ cur]) (use True bound it cursors_okD(2) [OF ok] in auto)
    then show ?thesis
      using True cur xs k idx by (simp add: next_entry_def)
  next
    case False
    have "(cursor_of iter snapshots)(h \<mapsto> (xs, i)) = cursor_of iter snapshots"
      using c by (simp add: fun_upd_idem)
    moreover have "cursors_ok it snapshots"
      using ok it same by (simp add: cursors_ok_def)
    ultimately show ?thesis
      using False xs k idx same by (simp add: next_entry_def)
  qed
qed


definition process_cursor :: "client_state \<Rightarrow> handle \<rightharpoonup> ProcessInfo list \<times> nat" where
  "process_cursor st = cursor_of (processIter st) (handlesToProcessInfoSnapshots st)"

definition module_cursor :: "client_state \<Rightarrow> handle \<rightharpoonup> MemoryRegion list \<times> nat" where
  "module_cursor st = cursor_of (moduleIter st) (handlesToModuleSnapshots st)"

lemma cs_inv_new: "cs_inv new_ClientState"
  by (simp add: cs_inv_def new_ClientState_def cursors_ok_def cursor_of_def)

lemma generateHandle_frame:
  "generateHandle st = (h, st') \<Longrightarrow> st' = st\<lparr>lastHandleID := h\<rparr>"
  by (auto simp: generateHandle_def Let_def)

lemmas cursor_table_simps =
  cs_inv_def process_cursor_def module_cursor_def client_state_defs umap_contains_def
  cursor_of_insert_fresh cursor_of_insert_again cursor_of_reset cursor_of_erase
  cursors_ok_erase cursors_ok_reset cursors_ok_store next_entry_absent fun_upd_idem

interpretation processes: cursor_table
  "\<lambda>st xs h. snd (storeProcessSnapshot_at st xs h)" nextProcessInfo resetProcessIterator closeHandle
  containsProcessInfoHandle cs_inv process_cursor
proof (unfold_locales, goal_cases)
  case (1 s h)
  show ?case by (simp add: cursor_table_simps cursor_of_def)
next
  case (4 s h xs i)
  with next_entry_cases [of "processIter s" "handlesToProcessInfoSnapshots s" h xs i]
  show ?case by (auto simp: cursor_table_simps)
next
  case (5 s h xs i)
  with next_entry_cases [of "processIter s" "handlesToProcessInfoSnapshots s" h xs i]
  show ?case by (auto simp: cursor_table_simps)
qed (auto simp: cursor_table_simps)

interpretation modules: cursor_table
  "\<lambda>st xs h. snd (storeModuleSnapshot_at st xs h)" nextMemoryRegion resetModuleIterator closeHandle
  containsMemoryRegionHandle cs_inv module_cursor
proof (unfold_locales, goal_cases)
  case (1 s h)
  show ?case by (simp add: cursor_table_simps cursor_of_def)
next
  case (4 s h xs i)
  with next_entry_cases [of "moduleIter s" "handlesToModuleSnapshots s" h xs i]
  show ?case by (auto simp: cursor_table_simps)
next
  case (5 s h xs i)
  with next_entry_cases [of "moduleIter s" "handlesToModuleSnapshots s" h xs i]
  show ?case by (auto simp: cursor_table_simps)
qed (auto simp: cursor_table_simps)


section \<open>Connections drawing and storing handles at the same time\<close>

text \<open>
  Every connection has its own thread, and all of them share one handle table.
  \<open>storeOpenProcess(pid)\<close> and the two \<open>storeTlHelp32Snapshot(snapshot)\<close> take the mutex twice: once
  to draw a handle, once to store under it. Between the two, other threads may run. The system
  state adds to the table the handle that each thread has drawn and not yet stored under, and the
  number of handles drawn so far.
\<close>

record handle_sys =
  hs_table :: client_state
  hs_drawn :: "nat \<rightharpoonup> handle"
  hs_count :: nat

definition new_handle_sys :: handle_sys where
  "new_handle_sys = \<lparr>hs_table = new_ClientState, hs_drawn = Map.empty, hs_count = 0\<rparr>"

definition stored :: "handle_sys \<Rightarrow> nat \<Rightarrow> client_state \<Rightarrow> handle_sys" where
  "stored s t st = s\<lparr>hs_table := st, hs_drawn := (hs_drawn s)(t := None)\<rparr>"

inductive handle_step :: "handle_sys \<Rightarrow> handle_sys \<Rightarrow> bool" where
  draw: "hs_drawn s t = None \<Longrightarrow> generateHandle (hs_table s) = (h, st) \<Longrightarrow>
    handle_step s (s\<lparr>hs_table := st, hs_drawn := (hs_drawn s)(t \<mapsto> h), hs_count := Suc (hs_count s)\<rparr>)"
| store_open: "hs_drawn s t = Some h \<Longrightarrow>
    handle_step s (stored s t (snd (storeOpenProcess_at (hs_table s) p h)))"
| store_processes: "hs_drawn s t = Some h \<Longrightarrow>
    handle_step s (stored s t (snd (storeProcessSnapshot_at (hs_table s) ps h)))"
| store_modules: "hs_drawn s t = Some h \<Longrightarrow>
    handle_step s (stored s t (snd (storeModuleSnapshot_at (hs_table s) rs h)))"
| close: "handle_step s (s\<lparr>hs_table := closeHandle (hs_table s) h\<rparr>)"
| next_process: "handle_step s (s\<lparr>hs_table := snd (nextProcessInfo (hs_table s) h)\<rparr>)"
| next_module: "handle_step s (s\<lparr>hs_table := snd (nextMemoryRegion (hs_table s) h)\<rparr>)"
| reset_process: "handle_step s (s\<lparr>hs_table := resetProcessIterator (hs_table s) h\<rparr>)"
| reset_module: "handle_step s (s\<lparr>hs_table := resetModuleIterator (hs_table s) h\<rparr>)"

inductive handles_reachable :: "handle_sys \<Rightarrow> bool" where
  start: "handles_reachable new_handle_sys"
| step: "handles_reachable s \<Longrightarrow> handle_step s t \<Longrightarrow> handles_reachable t"

definition is_process :: "client_state \<Rightarrow> handle \<Rightarrow> bool" where
  "is_process st h \<longleftrightarrow> map_of (handlesToProcessInfoSnapshots st) h \<noteq> None"

definition is_module :: "client_state \<Rightarrow> handle \<Rightarrow> bool" where
  "is_module st h \<longleftrightarrow> map_of (handlesToModuleSnapshots st) h \<noteq> None"

definition is_open :: "client_state \<Rightarrow> handle \<Rightarrow> bool" where
  "is_open st h \<longleftrightarrow> map_of (handlesToProcessIDs st) h \<noteq> None"

definition in_use :: "client_state \<Rightarrow> handle \<Rightarrow> bool" where
  "in_use st h \<longleftrightarrow> is_process st h \<or> is_module st h \<or> is_open st h"

definition one_kind :: "client_state \<Rightarrow> handle \<Rightarrow> bool" where
  "one_kind st h \<longleftrightarrow>
     \<not> (is_process st h \<and> is_module st h) \<and> \<not> (is_process st h \<and> is_open st h)
     \<and> \<not> (is_module st h \<and> is_open st h)"

definition hs_inv :: "handle_sys \<Rightarrow> bool" where
  "hs_inv s \<longleftrightarrow>
     unat (lastHandleID (hs_table s)) = hs_count s
     \<and> (\<forall>t h. hs_drawn s t = Some h \<longrightarrow>
          0 < unat h \<and> unat h \<le> hs_count s \<and> \<not> in_use (hs_table s) h
          \<and> (\<forall>t'. hs_drawn s t' = Some h \<longrightarrow> t' = t))
     \<and> (\<forall>h. in_use (hs_table s) h \<longrightarrow> 0 < unat h \<and> unat h \<le> hs_count s \<and> one_kind (hs_table s) h)"

lemmas kind_defs = in_use_def one_kind_def is_process_def is_module_def is_open_def

lemma hs_inv_new: "hs_inv new_handle_sys"
  by (simp add: hs_inv_def new_handle_sys_def new_ClientState_def kind_defs)

lemma hs_invI:
  assumes "unat (lastHandleID (hs_table s)) = hs_count s"
    and "\<And>t h. hs_drawn s t = Some h \<Longrightarrow> 0 < unat h \<and> unat h \<le> hs_count s \<and> \<not> in_use (hs_table s) h"
    and "\<And>t t' h. hs_drawn s t = Some h \<Longrightarrow> hs_drawn s t' = Some h \<Longrightarrow> t' = t"
    and "\<And>h. in_use (hs_table s) h \<Longrightarrow> 0 < unat h \<and> unat h \<le> hs_count s \<and> one_kind (hs_table s) h"
  shows "hs_inv s"
  using assms unfolding hs_inv_def by blast

lemma hs_invD:
  assumes "hs_inv s"
  shows "unat (lastHandleID (hs_table s)) = hs_count s"
    and "hs_drawn s t = Some h \<Longrightarrow> 0 < unat h \<and> unat h \<le> hs_count s \<and> \<not> in_use (hs_table s) h"
    and "hs_drawn s t = Some h \<Longrightarrow> hs_drawn s t' = Some h \<Longrightarrow> t' = t"
    and "in_use (hs_table s) h \<Longrightarrow> 0 < unat h \<and> unat h \<le> hs_count s \<and> one_kind (hs_table s) h"
  using assms unfolding hs_inv_def by blast+

text \<open>Steps that draw nothing and add no entry keep the invariant.\<close>

lemma hs_inv_shrink:
  assumes inv: "hs_inv s" and last: "lastHandleID st = lastHandleID (hs_table s)"
    and less: "\<And>h. is_process st h \<Longrightarrow> is_process (hs_table s) h"
      "\<And>h. is_module st h \<Longrightarrow> is_module (hs_table s) h"
      "\<And>h. is_open st h \<Longrightarrow> is_open (hs_table s) h"
  shows "hs_inv (s\<lparr>hs_table := st\<rparr>)"
proof -
  have use: "in_use st h \<Longrightarrow> in_use (hs_table s) h" for h
    using less unfolding in_use_def by blast
  have kind: "one_kind (hs_table s) h \<Longrightarrow> one_kind st h" for h
    using less unfolding one_kind_def by blast
  show ?thesis
    by (rule hs_invI; simp add: last hs_invD(1) [OF inv]) (meson hs_invD(2,3,4) [OF inv] use kind)+
qed

text \<open>A store under a drawn handle adds exactly that handle, with exactly one kind.\<close>

lemma hs_inv_store:
  assumes inv: "hs_inv s" and drawn: "hs_drawn s t = Some h"
    and last: "lastHandleID st = lastHandleID (hs_table s)"
    and same: "\<And>h'. h' \<noteq> h \<Longrightarrow> is_process st h' = is_process (hs_table s) h'
        \<and> is_module st h' = is_module (hs_table s) h' \<and> is_open st h' = is_open (hs_table s) h'"
    and kind: "one_kind st h"
  shows "hs_inv (stored s t st)"
proof (rule hs_invI)
  show "unat (lastHandleID (hs_table (stored s t st))) = hs_count (stored s t st)"
    using hs_invD(1) [OF inv] last by (simp add: stored_def)
next
  fix t' h'
  assume "hs_drawn (stored s t st) t' = Some h'"
  then have "t' \<noteq> t" "hs_drawn s t' = Some h'"
    by (auto simp: stored_def split: if_splits)
  then have "h' \<noteq> h" "0 < unat h' \<and> unat h' \<le> hs_count s \<and> \<not> in_use (hs_table s) h'"
    using hs_invD(2,3) [OF inv] drawn by blast+
  then show "0 < unat h' \<and> unat h' \<le> hs_count (stored s t st) \<and> \<not> in_use (hs_table (stored s t st)) h'"
    using same [of h'] by (simp add: stored_def in_use_def)
next
  fix t1 t2 h'
  assume "hs_drawn (stored s t st) t1 = Some h'" "hs_drawn (stored s t st) t2 = Some h'"
  then show "t2 = t1"
    using hs_invD(3) [OF inv, of t1 h' t2] by (auto simp: stored_def split: if_splits)
next
  fix h'
  assume use: "in_use (hs_table (stored s t st)) h'"
  show "0 < unat h' \<and> unat h' \<le> hs_count (stored s t st) \<and> one_kind (hs_table (stored s t st)) h'"
  proof (cases "h' = h")
    case True
    with hs_invD(2) [OF inv drawn] kind show ?thesis by (simp add: stored_def)
  next
    case False
    with use same [of h'] have "in_use (hs_table s) h'"
      by (simp add: stored_def in_use_def)
    with hs_invD(4) [OF inv] same [of h'] False show ?thesis
      by (simp add: stored_def one_kind_def)
  qed
qed

lemma hs_inv_draw:
  assumes inv: "hs_inv s" and gen: "generateHandle (hs_table s) = (h, st)"
    and room: "hs_count s < 2 ^ 31 - 1"
  shows "hs_inv (s\<lparr>hs_table := st, hs_drawn := (hs_drawn s)(t \<mapsto> h), hs_count := Suc (hs_count s)\<rparr>)"
proof -
  let ?s = "s\<lparr>hs_table := st, hs_drawn := (hs_drawn s)(t \<mapsto> h), hs_count := Suc (hs_count s)\<rparr>"
  have small: "unat (lastHandleID (hs_table s)) < 2 ^ 31 - 1"
    using hs_invD(1) [OF inv] room by simp
  have h: "h = lastHandleID (hs_table s) + 1" and st: "st = (hs_table s)\<lparr>lastHandleID := h\<rparr>"
    using generateHandle_step(1) [OF small] gen by auto
  have u: "unat h = Suc (hs_count s)"
    using generateHandle_step(2) [OF small] hs_invD(1) [OF inv] h by simp
  have kinds: "in_use st = in_use (hs_table s)" "one_kind st = one_kind (hs_table s)"
    using st by (auto simp: kind_defs fun_eq_iff)
  have fresh: "\<not> in_use (hs_table s) h"
    using hs_invD(4) [OF inv, of h] u by auto
  have undrawn: "hs_drawn s t' \<noteq> Some h" for t'
    using hs_invD(2) [OF inv, of t' h] u by auto
  show ?thesis
  proof (rule hs_invI)
    fix t' h'
    assume "hs_drawn ?s t' = Some h'"
    then have "h' = h \<or> hs_drawn s t' = Some h'"
      by (auto split: if_splits)
    then show "0 < unat h' \<and> unat h' \<le> hs_count ?s \<and> \<not> in_use (hs_table ?s) h'"
      using hs_invD(2) [OF inv, of t' h'] u kinds fresh by auto
  next
    fix t1 t2 h'
    assume "hs_drawn ?s t1 = Some h'" "hs_drawn ?s t2 = Some h'"
    then show "t2 = t1"
      using hs_invD(3) [OF inv, of t1 h' t2] undrawn by (auto split: if_splits)
  next
    fix h'
    assume "in_use (hs_table ?s) h'"
    then show "0 < unat h' \<and> unat h' \<le> hs_count ?s \<and> one_kind (hs_table ?s) h'"
      using hs_invD(4) [OF inv, of h'] kinds by auto
  qed (use u st in simp)
qed

lemma hs_count_mono: "handle_step s s' \<Longrightarrow> hs_count s \<le> hs_count s'"
  by (induction rule: handle_step.induct) (simp_all add: stored_def)

lemma handle_step_inv:
  assumes "handle_step s s'" "hs_inv s" "hs_count s' < 2 ^ 31"
  shows "hs_inv s'"
  using assms
proof (induction rule: handle_step.induct)
  case (draw s t h st)
  then show ?case by (intro hs_inv_draw) simp_all
next
  case (store_open s t h p)
  then have "\<not> in_use (hs_table s) h" using hs_invD(2) by blast
  with store_open show ?case
    by (intro hs_inv_store) (auto simp: kind_defs client_state_defs umap_simps)
next
  case (store_processes s t h ps)
  then have "\<not> in_use (hs_table s) h" using hs_invD(2) by blast
  with store_processes show ?case
    by (intro hs_inv_store) (auto simp: kind_defs client_state_defs umap_simps umap_contains_def)
next
  case (store_modules s t h rs)
  then have "\<not> in_use (hs_table s) h" using hs_invD(2) by blast
  with store_modules show ?case
    by (intro hs_inv_store) (auto simp: kind_defs client_state_defs umap_simps umap_contains_def)
qed (rule hs_inv_shrink; auto simp: kind_defs client_state_defs umap_simps split: prod.splits if_splits)+

lemma reachable_hs_inv:
  assumes "handles_reachable s" "hs_count s < 2 ^ 31"
  shows "hs_inv s"
  using assms
proof (induction rule: handles_reachable.induct)
  case start
  show ?case by (rule hs_inv_new)
next
  case (step s t)
  with hs_count_mono [OF step.hyps(2)] have "hs_inv s" by simp
  with step show ?case by (blast intro: handle_step_inv)
qed

section \<open>Properties\<close>

text \<open>
  C14: in every interleaving of the connections' threads, as long as fewer than \<open>2 ^ 31\<close> handles
  were drawn, a handle that a thread has drawn is positive, names nothing in the table yet, and was
  drawn by no other thread.
\<close>

theorem drawn_handles_fresh:
  assumes "handles_reachable s" "hs_count s < 2 ^ 31" "hs_drawn s t = Some h"
  shows "0 < sint h \<and> \<not> in_use (hs_table s) h \<and> (\<forall>t'. hs_drawn s t' = Some h \<longrightarrow> t' = t)"
proof -
  have inv: "hs_inv s"
    using reachable_hs_inv [OF assms(1,2)] .
  have h: "0 < unat h" "unat h \<le> hs_count s" "\<not> in_use (hs_table s) h"
    using hs_invD(2) [OF inv assms(3)] by simp_all
  then have "sint h = int (unat h)"
    using assms(2) by (intro sint_small) simp
  with h(1) have "0 < sint h" by linarith
  with h(3) hs_invD(3) [OF inv assms(3)] show ?thesis by simp
qed

text \<open>Two threads that have both drawn a handle.\<close>

lemma new_ClientState_handles:
  "lastHandleID new_ClientState = 0"
  "generateHandle new_ClientState = (1, new_ClientState\<lparr>lastHandleID := 1\<rparr>)"
  "generateHandle (new_ClientState\<lparr>lastHandleID := 1\<rparr>) = (2, new_ClientState\<lparr>lastHandleID := 2\<rparr>)"
proof -
  show 0: "lastHandleID new_ClientState = 0"
    by (simp add: new_ClientState_def)
  show "generateHandle new_ClientState = (1, new_ClientState\<lparr>lastHandleID := 1\<rparr>)"
    using generateHandle_step(1) [of new_ClientState] by (simp add: 0)
  show "generateHandle (new_ClientState\<lparr>lastHandleID := 1\<rparr>) = (2, new_ClientState\<lparr>lastHandleID := 2\<rparr>)"
    using generateHandle_step(1) [of "new_ClientState\<lparr>lastHandleID := 1\<rparr>"] by simp
qed

definition two_drawn :: handle_sys where
  "two_drawn = \<lparr>hs_table = new_ClientState\<lparr>lastHandleID := 2\<rparr>, hs_drawn = [0 \<mapsto> 1, 1 \<mapsto> 2], hs_count = 2\<rparr>"

lemma two_drawn_reachable: "handles_reachable two_drawn"
proof -
  let ?s = "\<lparr>hs_table = new_ClientState\<lparr>lastHandleID := 1\<rparr>, hs_drawn = [0 \<mapsto> 1], hs_count = 1\<rparr>"
  have "handle_step new_handle_sys ?s"
    using handle_step.draw [of new_handle_sys 0 1 "new_ClientState\<lparr>lastHandleID := 1\<rparr>"]
    by (simp add: new_handle_sys_def new_ClientState_handles)
  moreover have "handle_step ?s two_drawn"
    using handle_step.draw [of ?s 1 2 "new_ClientState\<lparr>lastHandleID := 2\<rparr>"]
    by (simp add: two_drawn_def new_ClientState_handles numeral_2_eq_2)
  ultimately show ?thesis
    by (blast intro: handles_reachable.intros)
qed

theorem drawn_handles_fresh_witness:
  "0 < sint (2 :: handle) \<and> \<not> in_use (hs_table two_drawn) 2 \<and> hs_drawn two_drawn 0 \<noteq> Some 2"
proof -
  have "hs_count two_drawn < 2 ^ 31" "hs_drawn two_drawn 1 = Some 2"
    by (simp_all add: two_drawn_def)
  from drawn_handles_fresh [OF two_drawn_reachable this] show ?thesis by fastforce
qed

text \<open>
  Under the same bound every handle in the table is positive and names one thing only: a process
  snapshot, a module snapshot or an opened process.
\<close>

lemma handle_names_one_thing:
  assumes "handles_reachable s" "hs_count s < 2 ^ 31" "in_use (hs_table s) h"
  shows "0 < unat h \<and> one_kind (hs_table s) h"
  using hs_invD(4) [OF reachable_hs_inv [OF assms(1,2)] assms(3)] by blast

text \<open>
  Closing a handle removes whatever it named: it is no snapshot and no opened process any more,
  asking for its process id gives \<open>- 1\<close>, and every other handle keeps its snapshot, its position and
  its process.
\<close>

lemma close_forgets:
  assumes "cs_inv st"
  shows "\<not> containsProcessInfoHandle (closeHandle st h) h \<and> \<not> containsMemoryRegionHandle (closeHandle st h) h
    \<and> \<not> containsProcessIDHandle (closeHandle st h) h \<and> getProcessID (closeHandle st h) h = - 1
    \<and> process_cursor (closeHandle st h) = (process_cursor st)(h := None)
    \<and> module_cursor (closeHandle st h) = (module_cursor st)(h := None)
    \<and> (\<forall>h'. h' \<noteq> h \<longrightarrow> getProcessID (closeHandle st h) h' = getProcessID st h')"
  using processes.close_cursor [OF assms, of h] modules.close_cursor [OF assms, of h]
  by (simp add: client_state_defs umap_simps umap_contains_def)

end
