(* ===== verification/Client.thy ===== *)
theory Client
  imports Socket ClientState
begin

text \<open>
  \<^verbatim>\<open>Client\<close>: one connection and its command handlers, in the order of \<^verbatim>\<open>Client.cpp\<close>.

  A handler is a function on the connection: the socket, the connection's name, the memory adapter
  and the shared handle table. It returns whether the connection is to be kept open, and the
  connection afterwards, or the fault on which the process leaves the defined behaviour of C++.
  The mutex of \<open>dispatchCommand\<close> makes a handler one step of its connection.

  The memory adapter is called through its virtual methods: the record \<open>memory_ops\<close> is that table,
  so that the handlers do not depend on how \<^verbatim>\<open>Memory\<close> implements it.
\<close>


section \<open>The memory adapter as the handlers see it\<close>

record 'm memory_ops =
  mo_getProcessSnapshot :: "'m \<Rightarrow> fault + (ProcessInfo list \<times> 'm)"
  mo_getModuleSnapshot :: "'m \<Rightarrow> pid \<Rightarrow> MemoryRegion list \<times> 'm"
  mo_getThreadSnapshot :: "'m \<Rightarrow> pid \<Rightarrow> ThreadInfo list \<times> 'm"
  mo_read :: "'m \<Rightarrow> pid \<Rightarrow> address \<Rightarrow> u64 \<Rightarrow> fault + ((u64 \<times> byte list) \<times> 'm)"
  mo_write :: "'m \<Rightarrow> byte list \<Rightarrow> pid \<Rightarrow> address \<Rightarrow> u64 \<Rightarrow> u64 \<times> 'm"
  mo_getMemoryModel :: "'m \<Rightarrow> pid \<Rightarrow> MemoryModel \<times> 'm"

text \<open>
  What the program leaves to its environment: the platform it is built for, the order of an
  unordered map, what an uninitialised allocation of \<open>n\<close> bytes holds, the bytes behind a
  stack array up to the next zero, and the readings of the system clock in milliseconds.
\<close>

record client_env =
  env_platform :: platform
  env_first :: "nat \<Rightarrow> nat"
  env_junk :: "nat \<Rightarrow> byte list"
  env_stack :: string
  env_clock :: "nat list"

definition new_char :: "client_env \<Rightarrow> nat \<Rightarrow> byte list" where
  "new_char E n = take n (env_junk E n @ replicate n 0)"

lemma length_new_char [simp]: "length (new_char E n) = n"
  by (simp add: new_char_def)


section \<open>The connection\<close>

record 'm client =
  cl_socket :: sock
  cl_connectionName :: string
  cl_memory :: 'm
  cl_state :: client_state

definition VERSION_STRING :: string where
  "VERSION_STRING = ''CHEATENGINE Network 2.3''"

definition CE_SERVER_VERSION :: u32 where
  "CE_SERVER_VERSION = 6"

definition ABI_WINDOWS :: byte where
  "ABI_WINDOWS = 0"

abbreviation (input) TH32CS_SNAPMODULE :: u32 where "TH32CS_SNAPMODULE \<equiv> 0x00000008"
abbreviation (input) TH32CS_SNAPPROCESS :: u32 where "TH32CS_SNAPPROCESS \<equiv> 0x00000002"
abbreviation (input) TH32CS_SNAPTHREAD :: u32 where "TH32CS_SNAPTHREAD \<equiv> 0x00000004"

abbreviation (input) PAGE_READONLY :: u32 where "PAGE_READONLY \<equiv> 0x02"
abbreviation (input) PAGE_READWRITE :: u32 where "PAGE_READWRITE \<equiv> 0x04"
abbreviation (input) PAGE_EXECUTE_READ :: u32 where "PAGE_EXECUTE_READ \<equiv> 0x20"
abbreviation (input) PAGE_EXECUTE_READWRITE :: u32 where "PAGE_EXECUTE_READWRITE \<equiv> 0x40"

abbreviation (input) MEM_PRIVATE :: u32 where "MEM_PRIVATE \<equiv> 0x00020000"
abbreviation (input) MEM_MAPPED :: u32 where "MEM_MAPPED \<equiv> 0x00040000"
abbreviation (input) MEM_IMAGE :: u32 where "MEM_IMAGE \<equiv> 0x01000000"

definition read_T :: "'m client \<Rightarrow> 'a::len word \<times> 'm client" where
  "read_T c = (let (w, s) = recv_T (cl_socket c) [MSG_WAITALL] in (w, c\<lparr>cl_socket := s\<rparr>))"

definition read_buffer :: "'m client \<Rightarrow> byte list \<Rightarrow> nat \<Rightarrow> byte list \<times> 'm client" where
  "read_buffer c buf n = (let (r, buf, s) = recv (cl_socket c) buf n [MSG_WAITALL] in (buf, c\<lparr>cl_socket := s\<rparr>))"

definition send_value :: "'m client \<Rightarrow> 'a::len word \<Rightarrow> 'm client" where
  "send_value c w = c\<lparr>cl_socket := send_T (cl_socket c) w\<rparr>"

definition send_buffer :: "'m client \<Rightarrow> byte list \<Rightarrow> 'm client" where
  "send_buffer c bs = c\<lparr>cl_socket := snd (send (cl_socket c) bs)\<rparr>"


section \<open>Snapshots\<close>

definition handleCommandToolHelp32Snapshot ::
    "'m memory_ops \<Rightarrow> 'm client \<Rightarrow> fault + 'm client" where
  "handleCommandToolHelp32Snapshot ops c =
     (let (flags, c) = read_T c; (procId, c) = read_T c
      in if flags AND TH32CS_SNAPPROCESS \<noteq> 0 then
           (case mo_getProcessSnapshot ops (cl_memory c) of
              Inl e \<Rightarrow> Inl e
            | Inr (snapshot, m) \<Rightarrow>
                (let (h, st) = storeProcessSnapshot (cl_state c) snapshot
                 in Inr (send_value (c\<lparr>cl_memory := m, cl_state := st\<rparr>) h)))
         else if flags AND TH32CS_SNAPMODULE \<noteq> 0 then
           (let (snapshot, m) = mo_getModuleSnapshot ops (cl_memory c) procId;
                (h, st) = storeModuleSnapshot (cl_state c) snapshot
            in Inr (send_value (c\<lparr>cl_memory := m, cl_state := st\<rparr>) h))
         else Inr (send_value c (0 :: handle)))"

definition sendProcess32Entry :: "'m client \<Rightarrow> bool \<Rightarrow> pid \<Rightarrow> string \<Rightarrow> 'm client" where
  "sendProcess32Entry c hasNext p name =
     (let c = send_buffer c (bytes_of_CeProcessEntry
                \<lparr>cpe_result = (if hasNext then 1 else 0), cpe_pid = p,
                 cpe_processnamesize = word_of_nat (length name)\<rparr>)
      in if name \<noteq> '''' then send_buffer c (to_bytes name) else c)"

definition sendModule32Entry ::
    "'m client \<Rightarrow> bool \<Rightarrow> u64 \<Rightarrow> u32 \<Rightarrow> u32 \<Rightarrow> u32 \<Rightarrow> string \<Rightarrow> 'm client" where
  "sendModule32Entry c hasNext moduleBase modulePart memoryRegionSize fileOffset name =
     (let c = send_buffer c (bytes_of_CeModuleEntry
                \<lparr>cme_result = (if hasNext then 1 else 0), cme_modulebase = moduleBase,
                 cme_modulepart = modulePart, cme_modulesize = memoryRegionSize,
                 cme_modulenamesize = word_of_nat (length name)\<rparr>)
      in if name \<noteq> '''' then send_buffer c (to_bytes name) else c)"

definition sendThread32Entry :: "'m client \<Rightarrow> u32 \<Rightarrow> 'm client" where
  "sendThread32Entry c tid = send_value c tid"

definition send_region_entry :: "MemoryRegion \<Rightarrow> 'm client \<Rightarrow> 'm client" where
  "send_region_entry r c =
     sendModule32Entry c True (mr_startAddr r) (mr_part r) (mr_regionSize r) (mr_fileOffset r) (mr_name r)"

definition handleCommandToolHelp32SnapshotEx ::
    "'m memory_ops \<Rightarrow> 'm client \<Rightarrow> fault + 'm client" where
  "handleCommandToolHelp32SnapshotEx ops c =
     (let (flags, c) = read_T c; (procId, c) = read_T c
      in if (flags :: u32) AND TH32CS_SNAPTHREAD \<noteq> 0 then
           (let (snapshot, m) = mo_getThreadSnapshot ops (cl_memory c) procId;
                c = send_value (c\<lparr>cl_memory := m\<rparr>) (word_of_nat (length snapshot) :: u32)
            in Inr (fold (\<lambda>t c. sendThread32Entry c (dwTID (ti_threadentry t))) snapshot c))
         else if flags AND TH32CS_SNAPMODULE \<noteq> 0 then
           (let (snapshot, m) = mo_getModuleSnapshot ops (cl_memory c) procId;
                c = fold send_region_entry snapshot (c\<lparr>cl_memory := m\<rparr>)
            in Inr (sendModule32Entry c False 0 0 0 0 ''''))
         else
           (case mo_getProcessSnapshot ops (cl_memory c) of
              Inl e \<Rightarrow> Inl e
            | Inr (snapshot, m) \<Rightarrow>
                (let (h, st) = storeProcessSnapshot (cl_state c) snapshot
                 in Inr (send_value (c\<lparr>cl_memory := m, cl_state := st\<rparr>) h))))"

text \<open>The process name goes through a \<^verbatim>\<open>char *\<close>, the module name does not.\<close>

definition handleCommandIterateProcessesNext :: "byte \<Rightarrow> 'm client \<Rightarrow> 'm client" where
  "handleCommandIterateProcessesNext command c =
     (let (h, c) = read_T c
      in if \<not> containsProcessInfoHandle (cl_state c) h then sendProcess32Entry c False 0 ''''
         else
           (let c = (if command = CMD_PROCESS32FIRST
                     then c\<lparr>cl_state := resetProcessIterator (cl_state c) h\<rparr> else c);
                (procInfo, st) = nextProcessInfo (cl_state c) h;
                c = c\<lparr>cl_state := st\<rparr>
            in case procInfo of
                 None \<Rightarrow> sendProcess32Entry c False 0 ''''
               | Some p \<Rightarrow> sendProcess32Entry c True (pi_pid p) (c_str (to_bytes (pi_name p)))))"

definition handleCommandIterateModulesNext :: "byte \<Rightarrow> 'm client \<Rightarrow> 'm client" where
  "handleCommandIterateModulesNext command c =
     (let (h, c) = read_T c
      in if \<not> containsMemoryRegionHandle (cl_state c) h then sendModule32Entry c False 0 0 0 0 ''''
         else
           (let c = (if command = CMD_MODULE32FIRST
                     then c\<lparr>cl_state := resetModuleIterator (cl_state c) h\<rparr> else c);
                (region, st) = nextMemoryRegion (cl_state c) h;
                c = c\<lparr>cl_state := st\<rparr>
            in case region of
                 None \<Rightarrow> sendModule32Entry c False 0 0 0 0 ''''
               | Some r \<Rightarrow> send_region_entry r c))"

definition handleCommandCloseHandle :: "'m client \<Rightarrow> 'm client" where
  "handleCommandCloseHandle c =
     (let (h, c) = read_T c
      in send_value (c\<lparr>cl_state := closeHandle (cl_state c) h\<rparr>) (1 :: u32))"


section \<open>Version, name, processes\<close>

definition handleCommandGetVersion :: "'m client \<Rightarrow> 'm client" where
  "handleCommandGetVersion c =
     (let c = send_buffer c (bytes_of_CeVersion
                \<lparr>cv_version = CE_SERVER_VERSION, cv_stringsize = word_of_nat (length VERSION_STRING)\<rparr>)
      in send_buffer c (to_bytes VERSION_STRING))"

definition handleCommandGetABI :: "'m client \<Rightarrow> 'm client" where
  "handleCommandGetABI c = send_value c ABI_WINDOWS"

text \<open>
  \<open>nameLength + 1\<close> is computed in 32 bits: for the largest length the array has no element, and
  the terminating zero is written outside it.
\<close>

definition handleCommandSetConnectionName :: "client_env \<Rightarrow> 'm client \<Rightarrow> fault + 'm client" where
  "handleCommandSetConnectionName E c =
     (let (nameLength, c) = read_T c; n = unat (nameLength + 1 :: u32)
      in if n \<le> unat nameLength then Inl Buffer_overflow
         else
           (let (name, c) = read_buffer c (new_char E n) (unat nameLength);
                name = name[unat nameLength := 0]
            in Inr (c\<lparr>cl_connectionName := c_str name\<rparr>)))"

definition handleCommandOpenProcess :: "'m client \<Rightarrow> 'm client" where
  "handleCommandOpenProcess c =
     (let (p, c) = read_T c; (h, st) = storeOpenProcess (cl_state c) p
      in send_value (c\<lparr>cl_state := st\<rparr>) h)"


section \<open>Reading and writing memory\<close>

definition handleCommandReadProcessMemory ::
    "'m memory_ops \<Rightarrow> 'm client \<Rightarrow> fault + (bool \<times> 'm client)" where
  "handleCommandReadProcessMemory ops c =
     (let (h, c) = read_T c; (address, c) = read_T c; (size, c) = read_T c; (compress, c) = read_T c
      in if (compress :: byte) \<noteq> 0 then Inr (False, c)
         else if \<not> containsProcessIDHandle (cl_state c) h then Inr (False, c)
         else if address \<le> 0 then Inr (True, send_value c (0 :: u32))
         else if (size :: u32) \<le> 0 then Inr (True, send_value c (0 :: u32))
         else
           (case mo_read ops (cl_memory c) (getProcessID (cl_state c) h) address (ucast size) of
              Inl e \<Rightarrow> Inl e
            | Inr ((r, bs), m) \<Rightarrow>
                (let c = c\<lparr>cl_memory := m\<rparr>
                 in if r \<le> 0 then Inr (True, send_value c (0 :: u32))
                    else Inr (True, send_buffer (send_value c (ucast r :: u32)) bs))))"

text \<open>
  \<open>written\<close> is a \<^verbatim>\<open>size_t\<close>, so the test \<open>written < 0\<close> is false whatever the adapter returns.
\<close>

definition handleCommandWriteProcessMemory ::
    "'m memory_ops \<Rightarrow> client_env \<Rightarrow> 'm client \<Rightarrow> fault + (bool \<times> 'm client)" where
  "handleCommandWriteProcessMemory ops E c =
     (let (h, c) = read_T c; (address, c) = read_T c; (size, c) = read_T c
      in if sint (size :: u32) < 0 then Inl Bad_array_new_length
         else
           (let (buffer, c) = read_buffer c (new_char E (unat size)) (unat size)
            in if \<not> containsProcessIDHandle (cl_state c) h then Inr (False, c)
               else
                 (let (written, m) =
                        mo_write ops (cl_memory c) buffer (getProcessID (cl_state c) h) address (scast size);
                      c = c\<lparr>cl_memory := m\<rparr>
                  in if written < 0 then Inr (False, send_value c (0 :: u32))
                     else Inr (written = scast size, send_value c (ucast written :: u32)))))"


section \<open>The architecture of a process\<close>

definition getArchitectureFromMemoryModel :: "MemoryModel \<Rightarrow> byte" where
  "getArchitectureFromMemoryModel model =
     (case model of
        MemoryModel_X86 \<Rightarrow> 0
      | MemoryModel_X86PAE \<Rightarrow> 0
      | MemoryModel_X64 \<Rightarrow> 1
      | MemoryModel_ARM64 \<Rightarrow> 3
      | MemoryModel_UNKNOWN \<Rightarrow> - 1
      | MemoryModel_NA \<Rightarrow> - 1)"

text \<open>
  The loop that polls for the handle. Each failed attempt reads the clock once; a list of readings
  that ends before the deadline is a clock that never gets there.
\<close>

fun poll_handle ::
    "platform \<Rightarrow> nat \<Rightarrow> nat list \<Rightarrow> sock \<Rightarrow> byte list \<Rightarrow> fault + (byte list \<times> sock)" where
  "poll_handle p timeout clock s buf =
     (case recvNonBlocking p s buf 4 [] of
        Inl e \<Rightarrow> Inl e
      | Inr (result, buf, s) \<Rightarrow>
          (if result > 0 then Inr (buf, s)
           else
             (case clock of
                [] \<Rightarrow> Inl Never_returns
              | now # clock \<Rightarrow>
                  (if now \<ge> timeout then Inr (buf, s) else poll_handle p timeout clock s buf))))"

definition handleCommandGetArchitecture ::
    "'m memory_ops \<Rightarrow> client_env \<Rightarrow> 'm client \<Rightarrow> fault + (bool \<times> 'm client)" where
  "handleCommandGetArchitecture ops E c =
     (case env_clock E of
        [] \<Rightarrow> Inl Never_returns
      | now # clock \<Rightarrow>
          (case poll_handle (env_platform E) (now + 1000) clock (cl_socket c) (le_bytes 4 (- 1 :: handle)) of
             Inl e \<Rightarrow> Inl e
           | Inr (buf, s) \<Rightarrow>
               (let c = c\<lparr>cl_socket := s\<rparr>;
                    h = (if lastError (env_platform E) s = EWOULDBLOCK
                         then getProcessHandleLegacyCE (env_first E) (cl_state c) else le_word buf)
                in if \<not> containsProcessIDHandle (cl_state c) h then Inr (False, c)
                   else
                     (let (model, m) = mo_getMemoryModel ops (cl_memory c) (getProcessID (cl_state c) h)
                      in Inr (True, send_value (c\<lparr>cl_memory := m\<rparr>) (getArchitectureFromMemoryModel model))))))"

text \<open>
  The path is an array without a terminating zero, and it is logged as a C string: unless the client has sent a zero byte, the
  log reads behind the array.
\<close>

definition handleCommandGetSymbolListFromFile :: "client_env \<Rightarrow> 'm client \<Rightarrow> fault + 'm client" where
  "handleCommandGetSymbolListFromFile E c =
     (let (symbolPathSize, c) = read_T c
      in if sint (symbolPathSize :: u32) < 0 then Inl Bad_array_new_length
         else
           (let (symbolPath, c) = read_buffer c (new_char E (unat symbolPathSize)) (unat symbolPathSize)
            in if 0 \<notin> set symbolPath then Inl Buffer_overflow else Inr (send_value c (0 :: u64))))"


section \<open>Memory regions\<close>

text \<open>
  The six characters are not followed by a zero: the string takes in what lies behind the array
  on the stack, up to the next zero.
\<close>

definition vadProtectionToHumanReadable :: "client_env \<Rightarrow> vadentry \<Rightarrow> string" where
  "vadProtectionToHumanReadable E e =
     (let vh = drop_bit 3 (ucast (Protection e) :: byte);
          vl = (ucast (Protection e) :: byte) AND 7;
          s0 = (if fPrivateMemory e then CHR ''p'' else CHR ''-'');
          s1 = (if vh AND 2 \<noteq> 0 then (if vh AND 1 \<noteq> 0 then CHR ''m'' else CHR ''g'')
                else (if vh AND 1 \<noteq> 0 then CHR ''n'' else CHR ''-''));
          s2 = (if vl = 1 \<or> vl = 3 \<or> vl = 4 \<or> vl = 6 then CHR ''r'' else CHR ''-'');
          s3 = (if vl AND 4 \<noteq> 0 then CHR ''w'' else CHR ''-'');
          s4 = (if vl AND 2 \<noteq> 0 then CHR ''x'' else CHR ''-'');
          s5 = (if vl = 5 \<or> vl = 7 then CHR ''c'' else CHR ''-'');
          s1 = (if s1 \<noteq> CHR ''-'' \<and> s2 = CHR ''-'' \<and> s3 = CHR ''-'' \<and> s4 = CHR ''-'' \<and> s5 = CHR ''-''
                then CHR ''-'' else s1)
      in [s0, s1, s2, s3, s4, s5] @ env_stack E)"

definition vadProtectionToWin32Protection :: "client_env \<Rightarrow> vadentry \<Rightarrow> u32" where
  "vadProtectionToWin32Protection E e =
     (let humanReadable = vadProtectionToHumanReadable E e
      in if humanReadable ! 4 = CHR ''x'' then
           (if humanReadable ! 3 = CHR ''w'' then PAGE_EXECUTE_READWRITE else PAGE_EXECUTE_READ)
         else (if humanReadable ! 3 = CHR ''w'' then PAGE_READWRITE else PAGE_READONLY))"

definition vadTypeToWin32Type :: "vadentry \<Rightarrow> u32" where
  "vadTypeToWin32Type e =
     (if fPrivateMemory e then MEM_PRIVATE else if VadType e = 2 then MEM_IMAGE else MEM_MAPPED)"

text \<open>\<open>result.size\<close> is 64 bits wide: the signed 32-bit size is sign-extended.\<close>

definition sendVirtualQueryExResult :: "client_env \<Rightarrow> MemoryRegion option \<Rightarrow> 'm client \<Rightarrow> 'm client" where
  "sendVirtualQueryExResult E region c =
     send_buffer c (bytes_of_CeVirtualQueryExOutput
       (case region of
          None \<Rightarrow>
            \<lparr>cvq_result = 0, cvq_protection = 0, cvq_type = 0, cvq_baseaddress = 0, cvq_size = 0\<rparr>
        | Some r \<Rightarrow>
            \<lparr>cvq_result = 1, cvq_protection = vadProtectionToWin32Protection E (mr_vadEntry r),
             cvq_type = vadTypeToWin32Type (mr_vadEntry r), cvq_baseaddress = mr_startAddr r,
             cvq_size = scast (mr_regionSize r)\<rparr>))"

definition sendVirtualQueryExFullResult :: "client_env \<Rightarrow> MemoryRegion \<Rightarrow> 'm client \<Rightarrow> 'm client" where
  "sendVirtualQueryExFullResult E r c =
     send_buffer c (bytes_of_CeRegionInfo
       \<lparr>cri_baseaddress = mr_startAddr r, cri_size = scast (mr_regionSize r),
        cri_protection = vadProtectionToWin32Protection E (mr_vadEntry r),
        cri_type = vadTypeToWin32Type (mr_vadEntry r)\<rparr>)"

definition handleCommandGetRegionInfo ::
    "'m memory_ops \<Rightarrow> client_env \<Rightarrow> byte \<Rightarrow> 'm client \<Rightarrow> bool \<times> 'm client" where
  "handleCommandGetRegionInfo ops E command c =
     (let (h, c) = read_T c; (address, c) = read_T c
      in if \<not> containsProcessIDHandle (cl_state c) h then (False, c)
         else if address \<le> 0 then (True, sendVirtualQueryExResult E None c)
         else
           (let (regions, m) = mo_getModuleSnapshot ops (cl_memory c) (getProcessID (cl_state c) h);
                region = find (\<lambda>r. vaStart (mr_vadEntry r) \<le> address \<and> address \<le> vaEnd (mr_vadEntry r)) regions;
                c = sendVirtualQueryExResult E region (c\<lparr>cl_memory := m\<rparr>)
            in if command = CMD_GETREGIONINFO then
                 (let truncated = (case region of None \<Rightarrow> '''' | Some r \<Rightarrow> take (min 127 (length (mr_name r))) (mr_name r));
                      c = send_value c (word_of_nat (length truncated) :: byte)
                  in (True, if length truncated > 0 then send_buffer c (to_bytes truncated) else c))
               else (True, c)))"

definition handleCommandVirtualQueryExFull ::
    "'m memory_ops \<Rightarrow> client_env \<Rightarrow> 'm client \<Rightarrow> bool \<times> 'm client" where
  "handleCommandVirtualQueryExFull ops E c =
     (let (h, c) = read_T c; (flags, c) = (read_T c :: byte \<times> 'm client)
      in if \<not> containsProcessIDHandle (cl_state c) h then (False, c)
         else
           (let (regions, m) = mo_getModuleSnapshot ops (cl_memory c) (getProcessID (cl_state c) h);
                c = send_value (c\<lparr>cl_memory := m\<rparr>) (word_of_nat (length regions) :: u32)
            in (True, fold (sendVirtualQueryExFullResult E) regions c)))"

definition handleCommandStartDebug :: "'m client \<Rightarrow> 'm client" where
  "handleCommandStartDebug c = (let (h, c) = read_T c in send_value c (h :: handle))"

definition handleCommandGetOptions :: "'m client \<Rightarrow> 'm client" where
  "handleCommandGetOptions c = send_value c (0 :: u16)"


section \<open>Dispatching a command\<close>

text \<open>
  Handlers without a result leave the connection open. Commands that the protocol knows but the
  server does not implement, and unknown ones, get no reply and close it.
\<close>

definition kept_open :: "fault + 'm client \<Rightarrow> fault + (bool \<times> 'm client)" where
  "kept_open r = (case r of Inl e \<Rightarrow> Inl e | Inr c \<Rightarrow> Inr (True, c))"

definition handleUnknownCommand :: "'m client \<Rightarrow> 'm client" where
  "handleUnknownCommand c = c"

definition handleKnownButUnimplementedCommand :: "'m client \<Rightarrow> 'm client" where
  "handleKnownButUnimplementedCommand c = c"

definition unimplemented :: "byte list" where
  "unimplemented =
     [CMD_STOPDEBUG, CMD_WAITFORDEBUGEVENT, CMD_CONTINUEFROMDEBUGEVENT, CMD_SETBREAKPOINT,
      CMD_REMOVEBREAKPOINT, CMD_SUSPENDTHREAD, CMD_RESUMETHREAD, CMD_GETTHREADCONTEXT,
      CMD_SETTHREADCONTEXT, CMD_LOADEXTENSION, CMD_ALLOC, CMD_FREE, CMD_CREATETHREAD, CMD_LOADMODULE,
      CMD_SPEEDHACK_SETSPEED, CMD_CHANGEMEMORYPROTECTION, CMD_GETOPTIONVALUE, CMD_SETOPTIONVALUE,
      CMD_PTRACE_MMAP, CMD_OPENNAMEDPIPE, CMD_PIPEREAD, CMD_PIPEWRITE, CMD_GETCESERVERPATH,
      CMD_ISANDROID, CMD_LOADMODULEEX, CMD_SETCURRENTPATH, CMD_GETCURRENTPATH, CMD_ENUMFILES,
      CMD_GETFILEPERMISSIONS, CMD_SETFILEPERMISSIONS, CMD_GETFILE, CMD_PUTFILE, CMD_CREATEDIR,
      CMD_DELETEFILE, CMD_AOBSCAN, CMD_COMMANDLIST2]"

definition dispatchCommand ::
    "'m memory_ops \<Rightarrow> client_env \<Rightarrow> byte \<Rightarrow> 'm client \<Rightarrow> fault + (bool \<times> 'm client)" where
  "dispatchCommand ops E command c =
     (if command = CMD_CREATETOOLHELP32SNAPSHOT then kept_open (handleCommandToolHelp32Snapshot ops c)
      else if command = CMD_PROCESS32FIRST \<or> command = CMD_PROCESS32NEXT then
        Inr (True, handleCommandIterateProcessesNext command c)
      else if command = CMD_MODULE32FIRST \<or> command = CMD_MODULE32NEXT then
        Inr (True, handleCommandIterateModulesNext command c)
      else if command = CMD_CLOSEHANDLE then Inr (True, handleCommandCloseHandle c)
      else if command = CMD_GETVERSION then Inr (True, handleCommandGetVersion c)
      else if command = CMD_GETABI then Inr (True, handleCommandGetABI c)
      else if command = CMD_CREATETOOLHELP32SNAPSHOTEX then kept_open (handleCommandToolHelp32SnapshotEx ops c)
      else if command = CMD_SET_CONNECTION_NAME then kept_open (handleCommandSetConnectionName E c)
      else if command = CMD_CLOSECONNECTION then Inr (False, c)
      else if command = CMD_TERMINATESERVER then Inr (False, c)
      else if command = CMD_OPENPROCESS then Inr (True, handleCommandOpenProcess c)
      else if command = CMD_READPROCESSMEMORY then handleCommandReadProcessMemory ops c
      else if command = CMD_WRITEPROCESSMEMORY then handleCommandWriteProcessMemory ops E c
      else if command = CMD_GETARCHITECTURE then handleCommandGetArchitecture ops E c
      else if command = CMD_GETSYMBOLLISTFROMFILE then kept_open (handleCommandGetSymbolListFromFile E c)
      else if command = CMD_VIRTUALQUERYEX \<or> command = CMD_GETREGIONINFO then
        Inr (handleCommandGetRegionInfo ops E command c)
      else if command = CMD_VIRTUALQUERYEXFULL then Inr (handleCommandVirtualQueryExFull ops E c)
      else if command = CMD_STARTDEBUG then Inr (True, handleCommandStartDebug c)
      else if command = CMD_GETOPTIONS then Inr (True, handleCommandGetOptions c)
      else if command \<in> set unimplemented then Inr (False, handleKnownButUnimplementedCommand c)
      else Inr (False, handleUnknownCommand c))"

end
