(* ===== verification/Handlers.thy ===== *)
theory Handlers
  imports Client
begin

text \<open>
  What the handlers of \<open>Client\<close> do on an open connection, branch by branch: the bytes they take
  from the stream, the reply they send, and what becomes of the handle table and the memory
  adapter. \<open>exchange i out c\<close> is the connection \<open>c\<close> with the bytes \<open>i\<close> still to be received and \<open>out\<close>
  added to what it has sent; every equation has the form
  \<open>handler (exchange (request @ rest) out c) = exchange rest (out @ reply) c'\<close>.
\<close>

named_theorems client_io \<open>receiving and sending on an open connection\<close>


section \<open>Requests and replies on the stream\<close>

definition exchange :: "byte list \<Rightarrow> byte list \<Rightarrow> 'm client \<Rightarrow> 'm client" where
  "exchange i out c =
     c\<lparr>cl_socket := (cl_socket c)\<lparr>sk_in := i, sk_out := sk_out (cl_socket c) @ out\<rparr>\<rparr>"

definition open_connection :: "'m client \<Rightarrow> bool" where
  "open_connection c \<longleftrightarrow> connected (cl_socket c)"

lemma exchange_refl: "exchange (sk_in (cl_socket c)) [] c = c"
  by (simp add: exchange_def)

lemma exchange_sel [simp]:
  "cl_memory (exchange i out c) = cl_memory c"
  "cl_state (exchange i out c) = cl_state c"
  "cl_connectionName (exchange i out c) = cl_connectionName c"
  "open_connection (exchange i out c) = open_connection c"
  "sk_in (cl_socket (exchange i out c)) = i"
  "sk_out (cl_socket (exchange i out c)) = sk_out (cl_socket c) @ out"
  by (simp_all add: exchange_def open_connection_def connected_def)

lemma exchange_update [simp]:
  "(exchange i out c)\<lparr>cl_memory := m\<rparr> = exchange i out (c\<lparr>cl_memory := m\<rparr>)"
  "(exchange i out c)\<lparr>cl_state := st\<rparr> = exchange i out (c\<lparr>cl_state := st\<rparr>)"
  "(exchange i out c)\<lparr>cl_connectionName := name\<rparr> = exchange i out (c\<lparr>cl_connectionName := name\<rparr>)"
  by (simp_all add: exchange_def)

lemma open_connection_update [simp]:
  "open_connection (c\<lparr>cl_memory := m\<rparr>) = open_connection c"
  "open_connection (c\<lparr>cl_state := st\<rparr>) = open_connection c"
  "open_connection (c\<lparr>cl_connectionName := name\<rparr>) = open_connection c"
  by (simp_all add: open_connection_def)

lemma read_T_exchange [client_io]:
  "open_connection c \<Longrightarrow> read_T (exchange (le_bytes 1 b @ rest) out c) = (b :: byte, exchange rest out c)"
  "open_connection c \<Longrightarrow> read_T (exchange (le_bytes 4 d @ rest) out c) = (d :: u32, exchange rest out c)"
  "open_connection c \<Longrightarrow> read_T (exchange (le_bytes 8 q @ rest) out c) = (q :: u64, exchange rest out c)"
  by (simp_all add: read_T_def exchange_def open_connection_def recv_T_widths)

text \<open>Where the stream ends within a value, the missing bytes are those of the zero-initialised object.\<close>

lemma read_T_truncated:
  assumes "open_connection c" "sk_end (cl_socket c) = None" "length bs < n" "8 * n = LENGTH('a::len)"
  shows "read_T (exchange bs out c) = (le_word (bs @ replicate (n - length bs) 0) :: 'a word, exchange [] out c)"
proof -
  have n: "LENGTH('a) div 8 = n"
    using assms(4) by linarith
  let ?s = "cl_socket (exchange bs out c)"
  have s: "connected ?s" "sk_in ?s = bs" "sk_end ?s = None"
    using assms(1,2) by (simp_all add: open_connection_def exchange_def)
  have "\<exists>r. os_recv ?s n [MSG_WAITALL] = (r, bs, ?s\<lparr>sk_in := []\<rparr>)"
    using s assms(3) by (cases bs) (auto simp: os_recv_def recv_blocking_def recv_some_def recv_end_def connected_def)
  moreover have "(exchange bs out c)\<lparr>cl_socket := ?s\<lparr>sk_in := []\<rparr>\<rparr> = exchange [] out c"
    by (simp add: exchange_def)
  ultimately show ?thesis
    by (auto simp: read_T_def recv_T_def recv_def n overwrite_def)
qed

lemma read_byte_exchange [client_io]:
  "open_connection c \<Longrightarrow> read_T (exchange (b # rest) out c) = (b :: byte, exchange rest out c)"
  using read_T_exchange(1) [of c b rest out] by simp

lemma read_buffer_exchange [client_io]:
  assumes "open_connection c" "length bs = n"
  shows "read_buffer (exchange (bs @ rest) out c) buf n = (overwrite buf bs, exchange rest out c)"
  using assms
  by (simp add: read_buffer_def recv_def exchange_def open_connection_def os_recv_enough)

lemma send_value_exchange [client_io]:
  "open_connection c \<Longrightarrow> send_value (exchange i out c) (b :: byte) = exchange i (out @ le_bytes 1 b) c"
  "open_connection c \<Longrightarrow> send_value (exchange i out c) (h :: u16) = exchange i (out @ le_bytes 2 h) c"
  "open_connection c \<Longrightarrow> send_value (exchange i out c) (d :: u32) = exchange i (out @ le_bytes 4 d) c"
  "open_connection c \<Longrightarrow> send_value (exchange i out c) (q :: u64) = exchange i (out @ le_bytes 8 q) c"
  by (simp_all add: send_value_def exchange_def open_connection_def send_T_widths)

lemma send_buffer_exchange [client_io]:
  "open_connection c \<Longrightarrow> send_buffer (exchange i out c) bs = exchange i (out @ bs) c"
  by (simp add: send_buffer_def exchange_def open_connection_def send_connected)


section \<open>Entries of a list\<close>

definition process_entry :: "bool \<Rightarrow> pid \<Rightarrow> string \<Rightarrow> byte list" where
  "process_entry hasNext p name =
     bytes_of_CeProcessEntry
       \<lparr>cpe_result = (if hasNext then 1 else 0), cpe_pid = p, cpe_processnamesize = word_of_nat (length name)\<rparr>
     @ to_bytes name"

definition module_entry :: "bool \<Rightarrow> u64 \<Rightarrow> u32 \<Rightarrow> u32 \<Rightarrow> string \<Rightarrow> byte list" where
  "module_entry hasNext base part sz name =
     bytes_of_CeModuleEntry
       \<lparr>cme_result = (if hasNext then 1 else 0), cme_modulebase = base, cme_modulepart = part,
        cme_modulesize = sz, cme_modulenamesize = word_of_nat (length name)\<rparr>
     @ to_bytes name"

definition region_entry :: "MemoryRegion \<Rightarrow> byte list" where
  "region_entry r = module_entry True (mr_startAddr r) (mr_part r) (mr_regionSize r) (mr_name r)"

lemma sendProcess32Entry_exchange [client_io]:
  "open_connection c \<Longrightarrow>
     sendProcess32Entry (exchange i out c) hasNext p name = exchange i (out @ process_entry hasNext p name) c"
  by (simp add: sendProcess32Entry_def process_entry_def Let_def client_io)

lemma sendModule32Entry_exchange [client_io]:
  "open_connection c \<Longrightarrow>
     sendModule32Entry (exchange i out c) hasNext base part sz off name
       = exchange i (out @ module_entry hasNext base part sz name) c"
  by (simp add: sendModule32Entry_def module_entry_def Let_def client_io)

lemma send_region_entry_exchange [client_io]:
  "open_connection c \<Longrightarrow> send_region_entry r (exchange i out c) = exchange i (out @ region_entry r) c"
  by (simp add: send_region_entry_def region_entry_def client_io)

lemma fold_send_exchange:
  assumes "\<And>x out. f x (exchange i out c) = exchange i (out @ g x) c"
  shows "fold f xs (exchange i out c) = exchange i (out @ concat (map g xs)) c"
  by (induction xs arbitrary: out) (simp_all add: assms)

text \<open>A peer that reads an entry by the packed layout gets back what the handler was given.\<close>

lemma parse_process_entry:
  assumes "length name < 2 ^ 32"
  shows "parse_process_reply (process_entry hasNext p name @ rest) =
    (\<lparr>cpe_result = (if hasNext then 1 else 0), cpe_pid = p, cpe_processnamesize = word_of_nat (length name)\<rparr>,
     to_bytes name, rest)"
  using assms by (simp add: process_entry_def parse_process_reply_bytes unat_of_nat)

lemma parse_module_entry:
  assumes "length name < 2 ^ 32"
  shows "parse_module_reply (module_entry hasNext base part sz name @ rest) =
    (\<lparr>cme_result = (if hasNext then 1 else 0), cme_modulebase = base, cme_modulepart = part,
      cme_modulesize = sz, cme_modulenamesize = word_of_nat (length name)\<rparr>, to_bytes name, rest)"
  using assms by (simp add: module_entry_def parse_module_reply_bytes unat_of_nat)

section \<open>The handlers, branch by branch\<close>

lemma OpenProcess_exchange:
  assumes "open_connection c" "storeOpenProcess (cl_state c) p = (h, st)"
  shows "handleCommandOpenProcess (exchange (le_bytes 4 p @ rest) out c)
    = exchange rest (out @ le_bytes 4 h) (c\<lparr>cl_state := st\<rparr>)"
  using assms by (simp add: handleCommandOpenProcess_def client_io)

lemma CloseHandle_exchange:
  assumes "open_connection c"
  shows "handleCommandCloseHandle (exchange (le_bytes 4 h @ rest) out c)
    = exchange rest (out @ le_bytes 4 (1 :: u32)) (c\<lparr>cl_state := closeHandle (cl_state c) h\<rparr>)"
  using assms by (simp add: handleCommandCloseHandle_def client_io)

lemma ToolHelp32Snapshot_exchange:
  assumes "open_connection c"
  shows "flags AND TH32CS_SNAPPROCESS \<noteq> 0 \<Longrightarrow> mo_getProcessSnapshot ops (cl_memory c) = Inr (ps, m) \<Longrightarrow>
      storeProcessSnapshot (cl_state c) ps = (h, st) \<Longrightarrow>
      handleCommandToolHelp32Snapshot ops (exchange (le_bytes 4 flags @ le_bytes 4 p @ rest) out c)
        = Inr (exchange rest (out @ le_bytes 4 h) (c\<lparr>cl_memory := m, cl_state := st\<rparr>))"
    and "flags AND TH32CS_SNAPPROCESS = 0 \<Longrightarrow> flags AND TH32CS_SNAPMODULE \<noteq> 0 \<Longrightarrow>
      mo_getModuleSnapshot ops (cl_memory c) p = (rs, m) \<Longrightarrow> storeModuleSnapshot (cl_state c) rs = (h, st) \<Longrightarrow>
      handleCommandToolHelp32Snapshot ops (exchange (le_bytes 4 flags @ le_bytes 4 p @ rest) out c)
        = Inr (exchange rest (out @ le_bytes 4 h) (c\<lparr>cl_memory := m, cl_state := st\<rparr>))"
    and "flags AND TH32CS_SNAPPROCESS = 0 \<Longrightarrow> flags AND TH32CS_SNAPMODULE = 0 \<Longrightarrow>
      handleCommandToolHelp32Snapshot ops (exchange (le_bytes 4 flags @ le_bytes 4 p @ rest) out c)
        = Inr (exchange rest (out @ le_bytes 4 (0 :: u32)) c)"
  using assms by (simp_all add: handleCommandToolHelp32Snapshot_def client_io)

lemma ToolHelp32SnapshotEx_exchange:
  assumes "open_connection c"
  shows "flags AND TH32CS_SNAPTHREAD \<noteq> 0 \<Longrightarrow> mo_getThreadSnapshot ops (cl_memory c) p = (ts, m) \<Longrightarrow>
      handleCommandToolHelp32SnapshotEx ops (exchange (le_bytes 4 flags @ le_bytes 4 p @ rest) out c)
        = Inr (exchange rest (out @ le_bytes 4 (word_of_nat (length ts) :: u32)
            @ concat (map (\<lambda>t. le_bytes 4 (dwTID (ti_threadentry t))) ts)) (c\<lparr>cl_memory := m\<rparr>))"
    and "flags AND TH32CS_SNAPTHREAD = 0 \<Longrightarrow> flags AND TH32CS_SNAPMODULE \<noteq> 0 \<Longrightarrow>
      mo_getModuleSnapshot ops (cl_memory c) p = (rs, m) \<Longrightarrow>
      handleCommandToolHelp32SnapshotEx ops (exchange (le_bytes 4 flags @ le_bytes 4 p @ rest) out c)
        = Inr (exchange rest (out @ concat (map region_entry rs) @ module_entry False 0 0 0 '''')
            (c\<lparr>cl_memory := m\<rparr>))"
    and "flags AND TH32CS_SNAPTHREAD = 0 \<Longrightarrow> flags AND TH32CS_SNAPMODULE = 0 \<Longrightarrow>
      mo_getProcessSnapshot ops (cl_memory c) = Inr (ps, m) \<Longrightarrow> storeProcessSnapshot (cl_state c) ps = (h, st) \<Longrightarrow>
      handleCommandToolHelp32SnapshotEx ops (exchange (le_bytes 4 flags @ le_bytes 4 p @ rest) out c)
        = Inr (exchange rest (out @ le_bytes 4 h) (c\<lparr>cl_memory := m, cl_state := st\<rparr>))"
proof -
  have "fold (\<lambda>t c. sendThread32Entry c (dwTID (ti_threadentry t))) ts (exchange i out' (c\<lparr>cl_memory := m\<rparr>))
      = exchange i (out' @ concat (map (\<lambda>t. le_bytes 4 (dwTID (ti_threadentry t))) ts)) (c\<lparr>cl_memory := m\<rparr>)"
    for i out' m
    by (rule fold_send_exchange) (simp add: sendThread32Entry_def client_io assms)
  then show "flags AND TH32CS_SNAPTHREAD \<noteq> 0 \<Longrightarrow> mo_getThreadSnapshot ops (cl_memory c) p = (ts, m) \<Longrightarrow>
      handleCommandToolHelp32SnapshotEx ops (exchange (le_bytes 4 flags @ le_bytes 4 p @ rest) out c)
        = Inr (exchange rest (out @ le_bytes 4 (word_of_nat (length ts) :: u32)
            @ concat (map (\<lambda>t. le_bytes 4 (dwTID (ti_threadentry t))) ts)) (c\<lparr>cl_memory := m\<rparr>))"
    using assms by (simp add: handleCommandToolHelp32SnapshotEx_def client_io)
  have "fold send_region_entry rs (exchange i out' (c\<lparr>cl_memory := m\<rparr>))
      = exchange i (out' @ concat (map region_entry rs)) (c\<lparr>cl_memory := m\<rparr>)" for i out' m
    by (rule fold_send_exchange) (simp add: client_io assms)
  then show "flags AND TH32CS_SNAPTHREAD = 0 \<Longrightarrow> flags AND TH32CS_SNAPMODULE \<noteq> 0 \<Longrightarrow>
      mo_getModuleSnapshot ops (cl_memory c) p = (rs, m) \<Longrightarrow>
      handleCommandToolHelp32SnapshotEx ops (exchange (le_bytes 4 flags @ le_bytes 4 p @ rest) out c)
        = Inr (exchange rest (out @ concat (map region_entry rs) @ module_entry False 0 0 0 '''')
            (c\<lparr>cl_memory := m\<rparr>))"
    using assms by (simp add: handleCommandToolHelp32SnapshotEx_def client_io)
qed (use assms in \<open>simp add: handleCommandToolHelp32SnapshotEx_def client_io\<close>)

text \<open>Reading memory: every way the handler ends.\<close>

definition read_request :: "handle \<Rightarrow> address \<Rightarrow> u32 \<Rightarrow> byte \<Rightarrow> byte list" where
  "read_request h a n compress = le_bytes 4 h @ le_bytes 8 a @ le_bytes 4 n @ le_bytes 1 compress"

lemma ReadProcessMemory_exchange:
  assumes "open_connection c"
  shows "handleCommandReadProcessMemory ops (exchange (read_request h a n compress @ rest) out c) =
    (if compress \<noteq> 0 \<or> \<not> containsProcessIDHandle (cl_state c) h then Inr (False, exchange rest out c)
     else if a = 0 \<or> n = 0 then Inr (True, exchange rest (out @ le_bytes 4 (0 :: u32)) c)
     else
       (case mo_read ops (cl_memory c) (getProcessID (cl_state c) h) a (ucast n) of
          Inl e \<Rightarrow> Inl e
        | Inr ((r, bs), m) \<Rightarrow>
            Inr (True, exchange rest (out @ (if r = 0 then le_bytes 4 (0 :: u32) else le_bytes 4 (ucast r :: u32) @ bs))
              (c\<lparr>cl_memory := m\<rparr>))))"
proof (cases "compress = 0 \<and> containsProcessIDHandle (cl_state c) h \<and> a \<noteq> 0 \<and> n \<noteq> 0")
  case True
  then show ?thesis
    using assms
    by (cases "mo_read ops (cl_memory c) (getProcessID (cl_state c) h) a (ucast n)")
      (auto simp: handleCommandReadProcessMemory_def read_request_def client_io)
next
  case False
  with assms show ?thesis
    by (auto simp: handleCommandReadProcessMemory_def read_request_def client_io)
qed

text \<open>Writing memory.\<close>

definition write_request :: "handle \<Rightarrow> address \<Rightarrow> byte list \<Rightarrow> byte list" where
  "write_request h a bs = le_bytes 4 h @ le_bytes 8 a @ le_bytes 4 (word_of_nat (length bs) :: u32) @ bs"

lemma WriteProcessMemory_exchange:
  assumes "open_connection c" "length bs < 2 ^ 31" "mo_write ops (cl_memory c) bs (getProcessID (cl_state c) h) a
      (word_of_nat (length bs)) = (w, m)"
  shows "handleCommandWriteProcessMemory ops E (exchange (write_request h a bs @ rest) out c) =
    (if containsProcessIDHandle (cl_state c) h
     then Inr (w = word_of_nat (length bs), exchange rest (out @ le_bytes 4 (ucast w :: u32)) (c\<lparr>cl_memory := m\<rparr>))
     else Inr (False, exchange rest out c))"
proof -
  let ?n = "word_of_nat (length bs) :: u32"
  have n: "unat ?n = length bs"
    using assms(2) by (simp add: unat_of_nat)
  then have "\<not> sint ?n < 0"
    using sint_small [of ?n] assms(2) by simp
  moreover have "(scast ?n :: u64) = word_of_nat (length bs)"
    using unat_scast_small [of ?n] n assms(2) by (simp add: word_unat_eq_iff unat_of_nat)
  moreover have "overwrite (new_char E (length bs)) bs = bs"
    by (simp add: overwrite_full)
  ultimately show ?thesis
    using assms n by (simp add: handleCommandWriteProcessMemory_def write_request_def client_io)
qed

text \<open>Regions.\<close>

definition region_reply :: "client_env \<Rightarrow> MemoryRegion option \<Rightarrow> byte list" where
  "region_reply E region =
     bytes_of_CeVirtualQueryExOutput
       (case region of
          None \<Rightarrow> \<lparr>cvq_result = 0, cvq_protection = 0, cvq_type = 0, cvq_baseaddress = 0, cvq_size = 0\<rparr>
        | Some r \<Rightarrow>
            \<lparr>cvq_result = 1, cvq_protection = vadProtectionToWin32Protection E (mr_vadEntry r),
             cvq_type = vadTypeToWin32Type (mr_vadEntry r), cvq_baseaddress = mr_startAddr r,
             cvq_size = scast (mr_regionSize r)\<rparr>)"

definition region_info :: "client_env \<Rightarrow> MemoryRegion \<Rightarrow> byte list" where
  "region_info E r =
     bytes_of_CeRegionInfo
       \<lparr>cri_baseaddress = mr_startAddr r, cri_size = scast (mr_regionSize r),
        cri_protection = vadProtectionToWin32Protection E (mr_vadEntry r),
        cri_type = vadTypeToWin32Type (mr_vadEntry r)\<rparr>"

definition region_at :: "address \<Rightarrow> MemoryRegion list \<Rightarrow> MemoryRegion option" where
  "region_at a = find (\<lambda>r. vaStart (mr_vadEntry r) \<le> a \<and> a \<le> vaEnd (mr_vadEntry r))"

text \<open>The name that follows a region: one length byte, then at most 127 characters.\<close>

definition name_reply :: "MemoryRegion option \<Rightarrow> byte list" where
  "name_reply region =
     (let t = (case region of None \<Rightarrow> '''' | Some r \<Rightarrow> take 127 (mr_name r))
      in word_of_nat (length t) # to_bytes t)"

lemma sendVirtualQueryExResult_exchange [client_io]:
  "open_connection c \<Longrightarrow> sendVirtualQueryExResult E region (exchange i out c) = exchange i (out @ region_reply E region) c"
  by (simp add: sendVirtualQueryExResult_def region_reply_def client_io)

lemma sendVirtualQueryExFullResult_exchange [client_io]:
  "open_connection c \<Longrightarrow> sendVirtualQueryExFullResult E r (exchange i out c) = exchange i (out @ region_info E r) c"
  by (simp add: sendVirtualQueryExFullResult_def region_info_def client_io)

lemma GetRegionInfo_exchange:
  assumes "open_connection c" "mo_getModuleSnapshot ops (cl_memory c) (getProcessID (cl_state c) h) = (rs, m)"
  shows "handleCommandGetRegionInfo ops E command (exchange (le_bytes 4 h @ le_bytes 8 a @ rest) out c) =
    (if \<not> containsProcessIDHandle (cl_state c) h then (False, exchange rest out c)
     else if a = 0 then (True, exchange rest (out @ region_reply E None) c)
     else (True, exchange rest (out @ region_reply E (region_at a rs)
            @ (if command = CMD_GETREGIONINFO then name_reply (region_at a rs) else [])) (c\<lparr>cl_memory := m\<rparr>)))"
proof -
  have t: "take (min 127 (length s)) s = take 127 s" for s :: string
    by (simp add: min_def)
  show ?thesis
    using assms by (simp add: handleCommandGetRegionInfo_def client_io name_reply_def region_at_def [symmetric] t Let_def
        split: option.split)
qed

lemma VirtualQueryExFull_exchange:
  assumes "open_connection c" "mo_getModuleSnapshot ops (cl_memory c) (getProcessID (cl_state c) h) = (rs, m)"
  shows "handleCommandVirtualQueryExFull ops E (exchange (le_bytes 4 h @ flags # rest) out c) =
    (if \<not> containsProcessIDHandle (cl_state c) h then (False, exchange rest out c)
     else (True, exchange rest (out @ le_bytes 4 (word_of_nat (length rs) :: u32) @ concat (map (region_info E) rs))
            (c\<lparr>cl_memory := m\<rparr>)))"
proof -
  have "fold (sendVirtualQueryExFullResult E) rs (exchange rest out' (c\<lparr>cl_memory := m\<rparr>))
      = exchange rest (out' @ concat (map (region_info E) rs)) (c\<lparr>cl_memory := m\<rparr>)" for out'
    by (rule fold_send_exchange) (simp add: client_io assms(1))
  then show ?thesis
    using assms by (simp add: handleCommandVirtualQueryExFull_def client_io)
qed

text \<open>Walking a snapshot.\<close>

definition process_reply :: "ProcessInfo option \<Rightarrow> byte list" where
  "process_reply p =
     (case p of None \<Rightarrow> process_entry False 0 ''''
      | Some p \<Rightarrow> process_entry True (pi_pid p) (c_str (to_bytes (pi_name p))))"

definition module_reply :: "MemoryRegion option \<Rightarrow> byte list" where
  "module_reply r = (case r of None \<Rightarrow> module_entry False 0 0 0 '''' | Some r \<Rightarrow> region_entry r)"

lemma IterateProcesses_exchange:
  assumes "open_connection c" "containsProcessInfoHandle (cl_state c) h"
    and "nextProcessInfo (if command = CMD_PROCESS32FIRST then resetProcessIterator (cl_state c) h else cl_state c) h = (p, st)"
  shows "handleCommandIterateProcessesNext command (exchange (le_bytes 4 h @ rest) out c)
    = exchange rest (out @ process_reply p) (c\<lparr>cl_state := st\<rparr>)"
  using assms by (auto simp: handleCommandIterateProcessesNext_def process_reply_def client_io split: option.splits)

lemma IterateModules_exchange:
  assumes "open_connection c" "containsMemoryRegionHandle (cl_state c) h"
    and "nextMemoryRegion (if command = CMD_MODULE32FIRST then resetModuleIterator (cl_state c) h else cl_state c) h = (r, st)"
  shows "handleCommandIterateModulesNext command (exchange (le_bytes 4 h @ rest) out c)
    = exchange rest (out @ module_reply r) (c\<lparr>cl_state := st\<rparr>)"
  using assms by (auto simp: handleCommandIterateModulesNext_def module_reply_def client_io split: option.splits)

lemma Iterate_absent_exchange:
  assumes "open_connection c"
  shows "\<not> containsProcessInfoHandle (cl_state c) h \<Longrightarrow>
      handleCommandIterateProcessesNext command (exchange (le_bytes 4 h @ rest) out c)
        = exchange rest (out @ process_reply None) c"
    and "\<not> containsMemoryRegionHandle (cl_state c) h \<Longrightarrow>
      handleCommandIterateModulesNext command (exchange (le_bytes 4 h @ rest) out c)
        = exchange rest (out @ module_reply None) c"
  using assms by (simp_all add: handleCommandIterateProcessesNext_def handleCommandIterateModulesNext_def
      process_reply_def module_reply_def client_io)

text \<open>The connection's name.\<close>

lemma SetConnectionName_exchange:
  assumes "open_connection c" "length name < 2 ^ 32 - 1" "CHR 0x00 \<notin> set name"
  shows "handleCommandSetConnectionName E (exchange (le_bytes 4 (word_of_nat (length name) :: u32) @ to_bytes name @ rest) out c)
    = Inr (exchange rest out (c\<lparr>cl_connectionName := name\<rparr>))"
proof -
  let ?n = "word_of_nat (length name) :: u32"
  have n: "unat ?n = length name" "unat (?n + 1) = Suc (length name)"
    using assms(2) by (simp_all add: unat_word_ariths unat_of_nat)
  let ?buf = "new_char E (Suc (length name))"
  have "length (drop (length name) ?buf) = Suc 0"
    by simp
  then obtain b where "drop (length name) ?buf = [b]"
    by (auto simp: length_Suc_conv simp del: length_drop)
  then have "overwrite ?buf (to_bytes name) = to_bytes name @ [b]"
    by (simp add: overwrite_def)
  then have "c_str ((overwrite (new_char E (Suc (length name))) (to_bytes name))[length name := 0]) = name"
    using c_str_to_bytes [OF assms(3), of "[]"] by (simp add: list_update_append)
  with assms(1) n show ?thesis
    by (simp add: handleCommandSetConnectionName_def client_io)
qed

lemma SetConnectionName_overflow:
  assumes "open_connection c"
  shows "handleCommandSetConnectionName E (exchange (le_bytes 4 (- 1 :: u32) @ rest) out c) = Inl Buffer_overflow"
  using assms by (simp add: handleCommandSetConnectionName_def client_io)

text \<open>Symbol lists and sizes that no array can have.\<close>

lemma GetSymbolList_exchange:
  assumes "open_connection c" "length path < 2 ^ 31"
  shows "handleCommandGetSymbolListFromFile E (exchange (le_bytes 4 (word_of_nat (length path) :: u32) @ path @ rest) out c)
    = (if 0 \<in> set path then Inr (exchange rest (out @ le_bytes 8 (0 :: u64)) c) else Inl Buffer_overflow)"
proof -
  let ?n = "word_of_nat (length path) :: u32"
  have n: "unat ?n = length path"
    using assms(2) by (simp add: unat_of_nat)
  then have "\<not> sint ?n < 0"
    using sint_small [of ?n] assms(2) by simp
  with assms(1) n show ?thesis
    by (simp add: handleCommandGetSymbolListFromFile_def client_io overwrite_full)
qed

lemma negative_size_exchange:
  assumes "open_connection c" "sint (n :: u32) < 0"
  shows "handleCommandWriteProcessMemory ops E (exchange (le_bytes 4 (h :: handle) @ le_bytes 8 (a :: address) @ le_bytes 4 n @ rest) out c)
      = Inl Bad_array_new_length"
    and "handleCommandGetSymbolListFromFile E (exchange (le_bytes 4 n @ rest) out c) = Inl Bad_array_new_length"
  using assms by (simp_all add: handleCommandWriteProcessMemory_def handleCommandGetSymbolListFromFile_def client_io)


section \<open>Polling for a handle\<close>

declare poll_handle.simps [simp del]

lemma recvNonBlocking_returns:
  "\<exists>r buf' s'. recvNonBlocking p s buf 4 [] = Inr (r, buf', s')"
proof (cases p)
  case Linux
  obtain r bs s' where *: "os_recv s 4 [MSG_DONTWAIT] = (r, bs, s')"
    by (metis prod_cases3)
  from os_recv_length [OF *] have "length bs \<le> 8" by simp
  with Linux * show ?thesis
    by (simp add: recvNonBlocking_def LinuxSocketWrapper_recvNonBlocking_def)
next
  case Windows
  then show ?thesis
    by (metis WinsockWrapper_recvNonBlocking_def platform.simps(4) prod_cases3 recvNonBlocking_def)
qed

text \<open>The loop ends once the clock has reached the deadline.\<close>

lemma poll_handle_returns:
  assumes "\<exists>now \<in> set clock. timeout \<le> now"
  shows "\<exists>buf' s'. poll_handle p timeout clock s buf = Inr (buf', s')"
  using assms
proof (induction clock arbitrary: s buf)
  case (Cons now clock)
  obtain r buf1 s1 where rx: "recvNonBlocking p s buf 4 [] = Inr (r, buf1, s1)"
    using recvNonBlocking_returns by blast
  show ?case
  proof (cases "r > 0 \<or> timeout \<le> now")
    case True
    with rx show ?thesis by (auto simp: poll_handle.simps)
  next
    case False
    with Cons.prems have "\<exists>now \<in> set clock. timeout \<le> now" by auto
    from Cons.IH [OF this] False rx show ?thesis
      by (simp add: poll_handle.simps)
  qed
qed simp

text \<open>On Linux the caller's buffer keeps what it held.\<close>

lemma poll_handle_linux:
  assumes "poll_handle Linux timeout clock s buf = Inr (buf', s')"
  shows "buf' = buf"
  using assms
proof (induction clock arbitrary: s)
  case Nil
  then show ?case
    by (auto simp: poll_handle.simps recvNonBlocking_def LinuxSocketWrapper_recvNonBlocking_def
        split: sum.splits prod.splits if_splits)
next
  case (Cons now clock)
  obtain r bs s1 where rx: "os_recv s 4 [MSG_DONTWAIT] = (r, bs, s1)"
    by (metis prod_cases3)
  from os_recv_length [OF rx] have "length bs \<le> 8" by simp
  with rx have "recvNonBlocking Linux s buf 4 [] = Inr (r, buf, s1)"
    by (simp add: recvNonBlocking_def LinuxSocketWrapper_recvNonBlocking_def)
  with Cons show ?case
    by (auto simp: poll_handle.simps split: if_splits)
qed

text \<open>A peer that sends no handle: every attempt finds nothing, until the deadline.\<close>

lemma recvNonBlocking_nothing:
  assumes "\<not> sk_closed s" "sk_arrived s = 0 # as"
  shows "recvNonBlocking Linux s buf 4 [] = Inr (- 1, buf, s\<lparr>sk_arrived := as, sk_errno := EWOULDBLOCK\<rparr>)"
  using assms by (simp add: recvNonBlocking_def LinuxSocketWrapper_recvNonBlocking_def os_recv_def recv_polling_def)

lemma poll_handle_silent:
  assumes "\<not> sk_closed s" "sk_arrived s = replicate (Suc (length early)) 0"
    and "\<forall>now \<in> set early. now < timeout" "timeout \<le> late"
  shows "poll_handle Linux timeout (early @ late # later) s buf
    = Inr (buf, s\<lparr>sk_arrived := [], sk_errno := EWOULDBLOCK\<rparr>)"
  using assms
proof (induction early arbitrary: s)
  case Nil
  then show ?case by (simp add: poll_handle.simps recvNonBlocking_nothing)
next
  case (Cons now early)
  let ?s = "s\<lparr>sk_arrived := replicate (Suc (length early)) 0, sk_errno := EWOULDBLOCK\<rparr>"
  have "poll_handle Linux timeout ((now # early) @ late # later) s buf = poll_handle Linux timeout (early @ late # later) ?s buf"
    using Cons.prems by (simp add: poll_handle.simps recvNonBlocking_nothing)
  also have "\<dots> = Inr (buf, ?s\<lparr>sk_arrived := [], sk_errno := EWOULDBLOCK\<rparr>)"
    using Cons.prems by (intro Cons.IH) simp_all
  finally show ?case by simp
qed

text \<open>A peer whose handle has arrived.\<close>

definition handle_arrived :: "sock \<Rightarrow> bool" where
  "handle_arrived s \<longleftrightarrow> (case sk_arrived s of [] \<Rightarrow> True | a # _ \<Rightarrow> 4 \<le> a)"

lemma poll_handle_arrived:
  assumes "\<not> sk_closed s" "handle_arrived s" "sk_in s = le_bytes 4 h @ rest"
  shows "poll_handle Linux timeout clock s buf = Inr (buf, s\<lparr>sk_arrived := tl (sk_arrived s), sk_in := rest\<rparr>)"
    and "length buf = 4 \<Longrightarrow> poll_handle Windows timeout clock s buf
      = Inr (le_bytes 4 h, s\<lparr>sk_nonblocking := True, sk_arrived := tl (sk_arrived s), sk_in := rest\<rparr>)"
proof -
  have "sk_in s \<noteq> []"
    using assms(3) by (metis append_is_Nil_conv length_0_conv length_le_bytes zero_neq_numeral)
  then have rx: "recv_polling s 4 = (4, le_bytes 4 h, s\<lparr>sk_arrived := tl (sk_arrived s), sk_in := rest\<rparr>)"
      "recv_polling (s\<lparr>sk_nonblocking := True\<rparr>) 4
        = (4, le_bytes 4 h, s\<lparr>sk_nonblocking := True, sk_arrived := tl (sk_arrived s), sk_in := rest\<rparr>)"
    using assms by (auto simp: recv_polling_def recv_some_def handle_arrived_def Let_def split: list.splits)
  show "poll_handle Linux timeout clock s buf = Inr (buf, s\<lparr>sk_arrived := tl (sk_arrived s), sk_in := rest\<rparr>)"
    using assms(1) rx(1) by (simp add: poll_handle.simps recvNonBlocking_def LinuxSocketWrapper_recvNonBlocking_def os_recv_def)
  show "poll_handle Windows timeout clock s buf
      = Inr (le_bytes 4 h, s\<lparr>sk_nonblocking := True, sk_arrived := tl (sk_arrived s), sk_in := rest\<rparr>)" if "length buf = 4"
    using assms(1) rx(2) that
    by (simp add: poll_handle.simps recvNonBlocking_def WinsockWrapper_recvNonBlocking_def recv_def os_recv_def overwrite_full)
qed


section \<open>The architecture of a process\<close>

lemma GetArchitecture_windows:
  assumes "open_connection c" "env_platform E = Windows" "env_clock E = now # clock" "handle_arrived (cl_socket c)"
    and "containsProcessIDHandle (cl_state c) h"
    and "mo_getMemoryModel ops (cl_memory c) (getProcessID (cl_state c) h) = (model, m)"
  shows "\<exists>c'. handleCommandGetArchitecture ops E (exchange (le_bytes 4 h @ rest) out c) = Inr (True, c')
    \<and> sk_in (cl_socket c') = rest \<and> sk_nonblocking (cl_socket c') \<and> \<not> sk_closed (cl_socket c')
    \<and> sk_arrived (cl_socket c') = tl (sk_arrived (cl_socket c))
    \<and> sk_out (cl_socket c') = sk_out (cl_socket c) @ out @ [getArchitectureFromMemoryModel model]
    \<and> cl_memory c' = m \<and> cl_state c' = cl_state c"
proof -
  let ?c = "exchange (le_bytes 4 h @ rest) out c"
  let ?s = "(cl_socket ?c)\<lparr>sk_nonblocking := True, sk_arrived := tl (sk_arrived (cl_socket ?c)), sk_in := rest\<rparr>"
  have up: "\<not> sk_closed (cl_socket ?c)" "sk_up (cl_socket ?c)" "handle_arrived (cl_socket ?c)"
      "sk_arrived (cl_socket ?c) = sk_arrived (cl_socket c)"
    using assms(1,4) by (simp_all add: open_connection_def connected_def exchange_def handle_arrived_def)
  have poll: "poll_handle Windows t clock (cl_socket ?c) (le_bytes 4 (- 1 :: handle)) = Inr (le_bytes 4 h, ?s)" for t
    using up by (intro poll_handle_arrived(2)) simp_all
  have e: "lastError Windows s \<noteq> EWOULDBLOCK" for s
    by (simp add: lastError_def)
  show ?thesis
    using assms(2,3,5,6) up
    by (simp add: handleCommandGetArchitecture_def poll e send_value_def send_T_def send_def os_send_def Let_def)
qed

text \<open>
  On Linux the handle that the peer sent is lost, and the one looked up is the initial \<open>- 1\<close>, or a
  process id when an attempt has failed before.
\<close>

lemma GetArchitecture_linux:
  assumes "open_connection c" "env_platform E = Linux" "env_clock E = now # clock" "sk_arrived (cl_socket c) = []"
    and "sk_errno (cl_socket c) \<noteq> EWOULDBLOCK" "\<not> containsProcessIDHandle (cl_state c) (- 1)"
  shows "handleCommandGetArchitecture ops E (exchange (le_bytes 4 (h :: handle) @ rest) out c) = Inr (False, exchange rest out c)"
proof -
  let ?c = "exchange (le_bytes 4 h @ rest) out c"
  have up: "\<not> sk_closed (cl_socket ?c)" "handle_arrived (cl_socket ?c)" "sk_arrived (cl_socket ?c) = []" "sk_errno (cl_socket ?c) \<noteq> EWOULDBLOCK"
    using assms(1,4,5) by (simp_all add: open_connection_def connected_def exchange_def handle_arrived_def)
  have poll: "poll_handle Linux t clock (cl_socket ?c) (le_bytes 4 (- 1 :: handle))
      = Inr (le_bytes 4 (- 1 :: handle), (cl_socket ?c)\<lparr>sk_in := rest\<rparr>)" for t
    using poll_handle_arrived(1) [of "cl_socket ?c" h rest t clock "le_bytes 4 (- 1 :: handle)"] up by simp
  have "?c\<lparr>cl_socket := (cl_socket ?c)\<lparr>sk_in := rest\<rparr>\<rparr> = exchange rest out c"
    by (simp add: exchange_def)
  then show ?thesis
    using assms(2,3,6) up by (simp add: handleCommandGetArchitecture_def poll lastError_def Let_def)
qed

lemma GetArchitecture_legacy:
  assumes "open_connection c" "env_platform E = Linux" "env_clock E = now # early @ late # later"
    and "\<forall>r \<in> set early. r < now + 1000" "now + 1000 \<le> late"
    and "sk_arrived (cl_socket c) = replicate (Suc (length early)) 0"
    and "handlesToProcessIDs (cl_state c) = [(h, p)]" "p \<noteq> h"
  shows "\<exists>c'. handleCommandGetArchitecture ops E c = Inr (False, c')
    \<and> sk_out (cl_socket c') = sk_out (cl_socket c) \<and> cl_state c' = cl_state c \<and> cl_memory c' = cl_memory c"
proof -
  have "\<not> sk_closed (cl_socket c)"
    using assms(1) by (simp add: open_connection_def connected_def)
  from poll_handle_silent [OF this assms(6,4,5)] have poll: "poll_handle Linux (now + 1000) (early @ late # later) (cl_socket c) buf
      = Inr (buf, (cl_socket c)\<lparr>sk_arrived := [], sk_errno := EWOULDBLOCK\<rparr>)" for buf .
  have "getProcessHandleLegacyCE (env_first E) (cl_state c) = p"
    using assms(7) by (simp add: getProcessHandleLegacyCE_def)
  moreover have "\<not> containsProcessIDHandle (cl_state c) p"
    using assms(7,8) by (simp add: containsProcessIDHandle_def umap_contains_def)
  ultimately show ?thesis
    using assms(2,3) by (simp add: handleCommandGetArchitecture_def poll lastError_def Let_def)
qed


section \<open>Protection and type of a region\<close>

text \<open>What lies behind the array does not matter: only two of its characters are looked at.\<close>

lemma Win32Protection_bits:
  "vadProtectionToWin32Protection E e =
     (if bit (Protection e) 1 then (if bit (Protection e) 2 then PAGE_EXECUTE_READWRITE else PAGE_EXECUTE_READ)
      else (if bit (Protection e) 2 then PAGE_READWRITE else PAGE_READONLY))"
proof -
  have two: "x AND 2 \<noteq> 0 \<longleftrightarrow> bit x 1" and four: "x AND 4 \<noteq> 0 \<longleftrightarrow> bit x 2" for x :: byte
    using bit_iff_and_push_bit_not_eq_0 [of x 1] bit_iff_and_push_bit_not_eq_0 [of x 2] by (simp_all add: push_bit_eq_mult)
  have "(ucast (Protection e) AND 7 :: byte) AND 2 \<noteq> 0 \<longleftrightarrow> bit (Protection e) 1"
    and "(ucast (Protection e) AND 7 :: byte) AND 4 \<noteq> 0 \<longleftrightarrow> bit (Protection e) 2"
    by (simp_all add: and.assoc two four bit_simps)
  then show ?thesis
    by (simp add: vadProtectionToWin32Protection_def vadProtectionToHumanReadable_def Let_def)
qed

section \<open>The contract with the memory adapter\<close>

text \<open>
  What the two memory commands rely on: a read returns as many bytes as it reports and no more than
  were asked for, and a write reports the full size or the largest \<^verbatim>\<open>size_t\<close>.
\<close>

locale memory_interface =
  fixes ops :: "'m memory_ops"
  assumes read_bounded: "mo_read ops M p a n = Inr ((r, bs), M') \<Longrightarrow> length bs = unat r \<and> unat r \<le> unat n"
    and write_result: "mo_write ops M buf p a n = (w, M') \<Longrightarrow> w = n \<or> w = - 1"
begin

text \<open>Every answered read is a 32-bit count followed by that many bytes, at most as many as were requested.\<close>

lemma read_reply:
  assumes "open_connection c"
    and "handleCommandReadProcessMemory ops (exchange (read_request h a n compress @ rest) out c) = Inr (True, c')"
  shows "\<exists>data m. c' = exchange rest (out @ le_bytes 4 (word_of_nat (length data) :: u32) @ data) (c\<lparr>cl_memory := m\<rparr>)
    \<and> length data \<le> unat n"
proof -
  let ?read = "mo_read ops (cl_memory c) (getProcessID (cl_state c) h) a (ucast n)"
  have ok: "compress = 0" "containsProcessIDHandle (cl_state c) h"
    using assms by (auto simp: ReadProcessMemory_exchange split: if_splits)
  show ?thesis
  proof (cases "a = 0 \<or> n = 0")
    case True
    with assms ok have "c' = exchange rest (out @ le_bytes 4 (0 :: u32)) c"
      by (simp add: ReadProcessMemory_exchange split: if_splits)
    then show ?thesis by (intro exI [of _ "[]"] exI [of _ "cl_memory c"]) simp
  next
    case False
    with assms ok obtain r bs m where rd: "?read = Inr ((r, bs), m)"
        and c': "c' = exchange rest (out @ (if r = 0 then le_bytes 4 (0 :: u32) else le_bytes 4 (ucast r :: u32) @ bs)) (c\<lparr>cl_memory := m\<rparr>)"
      by (auto simp: ReadProcessMemory_exchange split: sum.splits)
    have len: "length bs = unat r" "unat r \<le> unat n"
      using read_bounded [OF rd] by simp_all
    then have "(ucast r :: u32) = word_of_nat (length bs)"
      by simp
    moreover have "r = 0 \<Longrightarrow> bs = []"
      using len by simp
    ultimately show ?thesis
      using c' len by (intro exI [of _ bs] exI [of _ m]) auto
  qed
qed

text \<open>A write that keeps the connection open wrote everything; one that fails answers \<open>- 1\<close> and closes it.\<close>

lemma write_reply:
  assumes "open_connection c" "length bs < 2 ^ 31" "containsProcessIDHandle (cl_state c) h"
    and "handleCommandWriteProcessMemory ops E (exchange (write_request h a bs @ rest) out c) = Inr (k, c')"
  shows "\<exists>m. c' = exchange rest (out @ le_bytes 4 (if k then word_of_nat (length bs) else - 1 :: u32)) (c\<lparr>cl_memory := m\<rparr>)
    \<and> mo_write ops (cl_memory c) bs (getProcessID (cl_state c) h) a (word_of_nat (length bs))
        = (if k then word_of_nat (length bs) else - 1, m)"
proof -
  obtain w m where w: "mo_write ops (cl_memory c) bs (getProcessID (cl_state c) h) a (word_of_nat (length bs)) = (w, m)"
    by fastforce
  have k: "k \<longleftrightarrow> w = word_of_nat (length bs)" and c': "c' = exchange rest (out @ le_bytes 4 (ucast w :: u32)) (c\<lparr>cl_memory := m\<rparr>)"
    using assms(3,4) WriteProcessMemory_exchange [OF assms(1,2) w] by simp_all
  have "ucast (word_of_nat (length bs) :: u64) = (word_of_nat (length bs) :: u32)"
    using of_nat_unat [of "word_of_nat (length bs) :: u64", symmetric] assms(2) by (simp add: unat_of_nat)
  moreover have "(ucast (- 1 :: u64) :: u32) = - 1"
    by (rule bit_word_eqI) (simp add: bit_simps)
  ultimately show ?thesis
    using write_result [OF w] k c' w by auto
qed

end


section \<open>What a command does to the handle table\<close>

text \<open>
  The operations that a command may perform, for the handle that it was asked to close, if any: no other command
  closes one, and none but that one is closed.
\<close>

inductive table_op :: "handle option \<Rightarrow> client_state \<Rightarrow> client_state \<Rightarrow> bool" for request :: "handle option" where
  nothing_done: "table_op request st st"
| opened: "storeOpenProcess st p = (h, st') \<Longrightarrow> table_op request st st'"
| processes_stored: "storeProcessSnapshot st ps = (h, st') \<Longrightarrow> length ps < 2 ^ 31 \<Longrightarrow> table_op request st st'"
| modules_stored: "storeModuleSnapshot st rs = (h, st') \<Longrightarrow> length rs < 2 ^ 31 \<Longrightarrow> table_op request st st'"
| closed: "request = Some h \<Longrightarrow> table_op request st (closeHandle st h)"
| process_advanced: "nextProcessInfo st h = (p, st') \<Longrightarrow> table_op request st st'"
| process_rewound: "nextProcessInfo (resetProcessIterator st h) h = (p, st') \<Longrightarrow> table_op request st st'"
| module_advanced: "nextMemoryRegion st h = (r, st') \<Longrightarrow> table_op request st st'"
| module_rewound: "nextMemoryRegion (resetModuleIterator st h) h = (r, st') \<Longrightarrow> table_op request st st'"

definition small_snapshots :: "'m memory_ops \<Rightarrow> bool" where
  "small_snapshots ops \<longleftrightarrow>
     (\<forall>M ps M'. mo_getProcessSnapshot ops M = Inr (ps, M') \<longrightarrow> length ps < 2 ^ 31)
     \<and> (\<forall>M p rs M'. mo_getModuleSnapshot ops M p = (rs, M') \<longrightarrow> length rs < 2 ^ 31)"

lemma snapshot_stored:
  assumes "small_snapshots ops"
  shows "mo_getProcessSnapshot ops M = Inr (ps, M') \<Longrightarrow> storeProcessSnapshot st ps = (h, st') \<Longrightarrow> table_op request st st'"
    and "mo_getModuleSnapshot ops M p = (rs, M') \<Longrightarrow> storeModuleSnapshot st rs = (h, st') \<Longrightarrow> table_op request st st'"
  using assms unfolding small_snapshots_def by (blast intro: table_op.intros)+

lemma io_frame [simp]:
  "cl_state (snd (read_T c)) = cl_state c" "cl_memory (snd (read_T c)) = cl_memory c"
  "cl_state (snd (read_buffer c buf n)) = cl_state c" "cl_memory (snd (read_buffer c buf n)) = cl_memory c"
  "cl_state (send_value c w) = cl_state c" "cl_memory (send_value c w) = cl_memory c"
  "cl_state (send_buffer c bs) = cl_state c" "cl_memory (send_buffer c bs) = cl_memory c"
  by (simp_all add: read_T_def read_buffer_def send_value_def send_buffer_def split_def Let_def)

lemma io_frame_eq:
  "read_T c = (w, c') \<Longrightarrow> cl_state c' = cl_state c \<and> cl_memory c' = cl_memory c"
  "read_buffer c buf n = (buf', c') \<Longrightarrow> cl_state c' = cl_state c \<and> cl_memory c' = cl_memory c"
  by (metis io_frame snd_conv)+

lemma send_frame [simp]:
  "cl_state (sendProcess32Entry c hn p name) = cl_state c"
  "cl_state (sendModule32Entry c hn b pt sz off name) = cl_state c"
  "cl_state (send_region_entry r c) = cl_state c"
  "cl_state (sendVirtualQueryExResult E region c) = cl_state c"
  "cl_state (sendVirtualQueryExFullResult E r c) = cl_state c"
  "cl_state (sendThread32Entry c tid) = cl_state c"
  by (simp_all add: sendProcess32Entry_def sendModule32Entry_def send_region_entry_def sendVirtualQueryExResult_def
      sendVirtualQueryExFullResult_def sendThread32Entry_def Let_def)

lemma fold_frame: "(\<And>x c. cl_state (f x c) = cl_state c) \<Longrightarrow> cl_state (fold f xs c) = cl_state c"
  by (induction xs arbitrary: c) simp_all

lemma snapshot_table:
  assumes "small_snapshots ops"
  shows "handleCommandToolHelp32Snapshot ops c = Inr c' \<Longrightarrow> table_op request (cl_state c) (cl_state c')"
    and "handleCommandToolHelp32SnapshotEx ops c = Inr c' \<Longrightarrow> table_op request (cl_state c) (cl_state c')"
  by (auto simp: handleCommandToolHelp32Snapshot_def handleCommandToolHelp32SnapshotEx_def Let_def
      fold_frame dest!: io_frame_eq intro: table_op.intros snapshot_stored [OF assms] split: prod.splits if_splits sum.splits)

lemma iterate_table:
  "table_op request (cl_state c) (cl_state (handleCommandIterateProcessesNext command c))"
  "table_op request (cl_state c) (cl_state (handleCommandIterateModulesNext command c))"
  by (auto simp: handleCommandIterateProcessesNext_def handleCommandIterateModulesNext_def Let_def
      dest!: io_frame_eq intro: table_op.intros split: prod.splits option.splits)

lemma small_commands_table:
  "table_op (Some (fst (read_T c))) (cl_state c) (cl_state (handleCommandCloseHandle c))"
  "table_op request (cl_state c) (cl_state (handleCommandOpenProcess c))"
  "table_op request (cl_state c) (cl_state (handleCommandGetVersion c))"
  "table_op request (cl_state c) (cl_state (handleCommandGetABI c))"
  "table_op request (cl_state c) (cl_state (handleCommandStartDebug c))"
  "table_op request (cl_state c) (cl_state (handleCommandGetOptions c))"
  "handleCommandSetConnectionName E c = Inr c' \<Longrightarrow> table_op request (cl_state c) (cl_state c')"
  "handleCommandGetSymbolListFromFile E c = Inr c' \<Longrightarrow> table_op request (cl_state c) (cl_state c')"
  by (auto simp: handleCommandCloseHandle_def handleCommandOpenProcess_def handleCommandGetVersion_def handleCommandGetABI_def
      handleCommandStartDebug_def handleCommandGetOptions_def handleCommandSetConnectionName_def
      handleCommandGetSymbolListFromFile_def Let_def
      dest!: io_frame_eq intro: table_op.intros split: prod.splits if_splits)

lemma memory_commands_table:
  "handleCommandReadProcessMemory ops c = Inr (k, c') \<Longrightarrow> cl_state c' = cl_state c"
  "handleCommandWriteProcessMemory ops E c = Inr (k, c') \<Longrightarrow> cl_state c' = cl_state c"
  "handleCommandGetArchitecture ops E c = Inr (k, c') \<Longrightarrow> cl_state c' = cl_state c"
  by (auto simp: handleCommandReadProcessMemory_def handleCommandWriteProcessMemory_def handleCommandGetArchitecture_def Let_def
      dest!: io_frame_eq split: prod.splits if_splits sum.splits list.splits)

lemma region_commands_table:
  "handleCommandGetRegionInfo ops E command c = (k, c') \<Longrightarrow> cl_state c' = cl_state c"
  "handleCommandVirtualQueryExFull ops E c = (k, c') \<Longrightarrow> cl_state c' = cl_state c"
  by (auto simp: handleCommandGetRegionInfo_def handleCommandVirtualQueryExFull_def Let_def fold_frame
      dest!: io_frame_eq split: prod.splits if_splits)

lemmas command_tables =
  snapshot_table iterate_table small_commands_table memory_commands_table region_commands_table

lemma kept_open_eq: "kept_open r = Inr (k, c') \<Longrightarrow> r = Inr c'"
  by (auto simp: kept_open_def split: sum.splits)

lemma table_op_same: "cl_state c' = cl_state c \<Longrightarrow> table_op request (cl_state c) (cl_state c')"
  by (simp add: table_op.nothing_done)

lemma dispatch_table:
  assumes "small_snapshots ops" "dispatchCommand ops E command c = Inr (k, c')"
  shows "table_op (if command = CMD_CLOSEHANDLE then Some (fst (read_T c)) else None) (cl_state c) (cl_state c')"
  using assms(2) unfolding dispatchCommand_def
  by (auto simp: handleKnownButUnimplementedCommand_def handleUnknownCommand_def
      intro: table_op.intros iterate_table small_commands_table(1-6) snapshot_table [OF assms(1)]
        small_commands_table(7,8) table_op_same [OF memory_commands_table(1)] table_op_same [OF memory_commands_table(2)]
        table_op_same [OF memory_commands_table(3)] table_op_same [OF region_commands_table(1)]
        table_op_same [OF region_commands_table(2)]
      dest!: kept_open_eq split: if_splits)

lemma table_op_inv:
  assumes "table_op request st st'" "cs_inv st"
  shows "cs_inv st'"
  using assms
proof (induction rule: table_op.induct)
  case (opened st p h st')
  then show ?case
    by (auto simp: storeOpenProcess_def cursor_table_simps dest!: generateHandle_frame split: prod.splits)
next
  case (processes_stored st ps h st')
  then show ?case
    by (auto simp: storeProcessSnapshot_def cursor_table_simps dest!: generateHandle_frame split: prod.splits)
next
  case (modules_stored st rs h st')
  then show ?case
    by (auto simp: storeModuleSnapshot_def cursor_table_simps dest!: generateHandle_frame split: prod.splits)
next
  case (closed st h)
  then show ?case by (simp add: processes.close_cursor)
next
  case (process_advanced st h p st')
  then show ?case using processes.next_invar by blast
next
  case (process_rewound st h p st')
  then have "cs_inv (resetProcessIterator st h)"
    by (simp add: cursor_table_simps)
  with process_rewound show ?case using processes.next_invar by blast
next
  case (module_advanced st h p st')
  then show ?case using modules.next_invar by blast
next
  case (module_rewound st h p st')
  then have "cs_inv (resetModuleIterator st h)"
    by (simp add: cursor_table_simps)
  with module_rewound show ?case using modules.next_invar by blast
qed simp

text \<open>Commands that close the connection.\<close>

lemma closing_command:
  assumes "command \<in> set unimplemented \<or> command = CMD_CLOSECONNECTION \<or> command = CMD_TERMINATESERVER"
  shows "dispatchCommand ops E command c = Inr (False, c)"
proof -
  have "dispatchCommand ops E command c = Inr (False, c)" if "command \<in> set unimplemented"
    using that unfolding unimplemented_def
    by (simp add: dispatchCommand_def handleKnownButUnimplementedCommand_def handleUnknownCommand_def) (elim disjE; simp)
  then show ?thesis
    using assms by (auto simp: dispatchCommand_def)
qed


section \<open>Properties\<close>

text \<open>An adapter and an environment to evaluate on: every read gives as many bytes as were asked for.\<close>

definition echo_ops :: "nat memory_ops" where
  "echo_ops =
     \<lparr>mo_getProcessSnapshot = (\<lambda>m. Inr ([\<lparr>pi_name = ''a.exe'', pi_pid = 4\<rparr>], m)),
      mo_getModuleSnapshot = (\<lambda>m p. ([MemoryRegion_of flat_vad], m)),
      mo_getThreadSnapshot = (\<lambda>m p. ([\<lparr>ti_threadentry = \<lparr>dwTID = 8\<rparr>\<rparr>], m)),
      mo_read = (\<lambda>m p a n. Inr ((n, replicate (unat n) 7), m)),
      mo_write = (\<lambda>m buf p a n. (n, Suc m)),
      mo_getMemoryModel = (\<lambda>m p. (MemoryModel_X64, m))\<rparr>"

definition plain_env :: "platform \<Rightarrow> client_env" where
  "plain_env p = \<lparr>env_platform = p, env_first = (\<lambda>n. 0), env_junk = (\<lambda>n. []), env_stack = '''', env_clock = [0, 1000]\<rparr>"

definition plain_socket :: sock where
  "plain_socket =
     \<lparr>sk_in = [], sk_end = None, sk_arrived = [], sk_out = [], sk_up = True, sk_errno = E_NONE,
      sk_nonblocking = False, sk_closed = False\<rparr>"

text \<open>A connection that has opened process 4 under handle 1.\<close>

definition opened_client :: "nat client" where
  "opened_client =
     \<lparr>cl_socket = plain_socket, cl_connectionName = '''', cl_memory = 0,
      cl_state = new_ClientState\<lparr>lastHandleID := 1, handlesToProcessIDs := [(1, 4)]\<rparr>\<rparr>"

lemma opened_client_simps:
  "open_connection opened_client" "containsProcessIDHandle (cl_state opened_client) 1"
  "getProcessID (cl_state opened_client) 1 = 4" "sk_out (cl_socket opened_client) = []"
  "sk_arrived (cl_socket opened_client) = []" "cl_memory opened_client = 0" "cs_inv (cl_state opened_client)"
  "\<not> containsProcessIDHandle (cl_state opened_client) (- 1)" "sk_errno (cl_socket opened_client) = E_NONE"
  "opened_client\<lparr>cl_memory := 0\<rparr> = opened_client"
  by (simp_all add: opened_client_def open_connection_def connected_def plain_socket_def client_state_defs
      umap_contains_def cs_inv_def new_ClientState_def cursors_ok_def cursor_of_def umap_ok_def)

text \<open>
  Every command keeps the handle table's invariant: each snapshot has less than \<open>2 ^ 31\<close> entries, its
  cursor never passes its end, and no handle is listed twice in a table. The hypothesis bounds what the
  adapter's snapshots return.
\<close>

lemma command_keeps_table:
  assumes "small_snapshots ops" "cs_inv (cl_state c)" "dispatchCommand ops E command c = Inr (keep, c')"
  shows "cs_inv (cl_state c')"
  using table_op_inv [OF dispatch_table [OF assms(1,3)] assms(2)] .

text \<open>
  \<open>CMD_READPROCESSMEMORY\<close> on every branch: compression or a handle without a process closes the connection
  without a reply and without a device access; address or size zero is answered with zero; otherwise
  the reply is the count that the adapter returned followed by the bytes, or a zero count.
\<close>

lemma read_command:
  assumes "open_connection c"
  shows "dispatchCommand ops E CMD_READPROCESSMEMORY (exchange (read_request h a n compress @ rest) out c) =
    (if compress \<noteq> 0 \<or> \<not> containsProcessIDHandle (cl_state c) h then Inr (False, exchange rest out c)
     else if a = 0 \<or> n = 0 then Inr (True, exchange rest (out @ le_bytes 4 (0 :: u32)) c)
     else
       (case mo_read ops (cl_memory c) (getProcessID (cl_state c) h) a (ucast n) of
          Inl e \<Rightarrow> Inl e
        | Inr ((r, bs), m) \<Rightarrow>
            Inr (True, exchange rest (out @ (if r = 0 then le_bytes 4 (0 :: u32) else le_bytes 4 (ucast r :: u32) @ bs))
              (c\<lparr>cl_memory := m\<rparr>))))"
  using ReadProcessMemory_exchange [OF assms] by (simp add: dispatchCommand_def)

lemma read_command_witness:
  "dispatchCommand echo_ops (plain_env Linux) CMD_READPROCESSMEMORY (exchange (read_request 1 0x1000 2 0 @ [9]) [] opened_client)
     = Inr (True, exchange [9] (le_bytes 4 (2 :: u32) @ replicate 2 7) opened_client)"
  using read_command [OF opened_client_simps(1), of echo_ops "plain_env Linux" 1 "0x1000" 2 0 "[9]" "[]"]
  by (simp add: opened_client_simps echo_ops_def)

text \<open>
  \<open>CMD_GETREGIONINFO\<close> and \<open>CMD_VIRTUALQUERYEX\<close>: for a non-zero address the reply is the 25-byte result for the
  first region that contains the address (or the empty result), and only the former adds a length byte
  and at most 127 characters of the region's name. For address zero the length byte is missing: the
  reply to \<open>CMD_GETREGIONINFO\<close> then is one byte shorter than any other.
\<close>

lemma region_info_framing:
  assumes "open_connection c" "containsProcessIDHandle (cl_state c) h"
    and "dispatchCommand ops E CMD_GETREGIONINFO (exchange (le_bytes 4 h @ le_bytes 8 (a :: address) @ rest) out c) = Inr (True, c')"
  shows "\<exists>reply m. c' = exchange rest (out @ reply) (c\<lparr>cl_memory := m\<rparr>)
    \<and> (if a = 0 then length reply = 25
       else 26 \<le> length reply \<and> length reply \<le> 153 \<and> length reply = 26 + unat (reply ! 25))"
proof -
  obtain rs m where rs: "mo_getModuleSnapshot ops (cl_memory c) (getProcessID (cl_state c) h) = (rs, m)"
    by fastforce
  have c': "(True, c') = (if a = 0 then (True, exchange rest (out @ region_reply E None) c)
      else (True, exchange rest (out @ region_reply E (region_at a rs) @ name_reply (region_at a rs)) (c\<lparr>cl_memory := m\<rparr>)))"
    using assms GetRegionInfo_exchange [OF assms(1) rs] by (auto simp: dispatchCommand_def split: if_splits)
  show ?thesis
  proof (cases "a = 0")
    case True
    with c' show ?thesis
      by (intro exI [of _ "region_reply E None"] exI [of _ "cl_memory c"]) (simp add: region_reply_def)
  next
    case False
    define t where "t = (case region_at a rs of None \<Rightarrow> '''' | Some r \<Rightarrow> take 127 (mr_name r))"
    have t: "name_reply (region_at a rs) = word_of_nat (length t) # to_bytes t" "length t \<le> 127"
      by (simp_all add: name_reply_def t_def Let_def split: option.split)
    have "unat (word_of_nat (length t) :: byte) = length t"
      using t(2) by (simp add: unat_of_nat)
    moreover have "length (region_reply E (region_at a rs)) = 25"
      by (simp add: region_reply_def)
    ultimately show ?thesis
      using c' False t by (intro exI [of _ "region_reply E (region_at a rs) @ name_reply (region_at a rs)"] exI [of _ m])
        (simp add: nth_append)
  qed
qed

lemma region_info_framing_witness:
  "\<exists>c' reply m. dispatchCommand echo_ops (plain_env Linux) CMD_GETREGIONINFO
       (exchange (le_bytes 4 (1 :: handle) @ le_bytes 8 (0 :: address) @ []) [] opened_client) = Inr (True, c')
     \<and> c' = exchange [] reply (opened_client\<lparr>cl_memory := m\<rparr>) \<and> length reply = 25"
proof -
  let ?c = "exchange (le_bytes 4 (1 :: handle) @ le_bytes 8 (0 :: address) @ []) [] opened_client"
  have d: "dispatchCommand echo_ops (plain_env Linux) CMD_GETREGIONINFO ?c
      = Inr (True, exchange [] (region_reply (plain_env Linux) None) opened_client)"
    using GetRegionInfo_exchange [OF opened_client_simps(1), of echo_ops 1 "[MemoryRegion_of flat_vad]" 0 "plain_env Linux" CMD_GETREGIONINFO 0 "[]" "[]"]
    by (simp add: dispatchCommand_def echo_ops_def opened_client_simps)
  from region_info_framing [OF opened_client_simps(1,2) d] obtain reply m where
      "exchange [] (region_reply (plain_env Linux) None) opened_client = exchange [] ([] @ reply) (opened_client\<lparr>cl_memory := m\<rparr>)"
      "length reply = 25"
    by (metis (no_types, lifting))
  with d show ?thesis
    by (metis append_Nil)
qed

text \<open>
  \<open>CMD_VIRTUALQUERYEXFULL\<close> sends the number of regions and then one 24-byte record per region of the adapter's
  snapshot, in order: a peer that reads the \<open>i\<close>-th record by the packed layout gets the start, the
  sign-extended size, the protection and the type of the \<open>i\<close>-th region.
\<close>

lemma region_list_parses:
  assumes "open_connection c" "containsProcessIDHandle (cl_state c) h"
    and "mo_getModuleSnapshot ops (cl_memory c) (getProcessID (cl_state c) h) = (rs, m)"
  shows "\<exists>reply. dispatchCommand ops E CMD_VIRTUALQUERYEXFULL (exchange (le_bytes 4 h @ flags # rest) out c)
      = Inr (True, exchange rest (out @ reply) (c\<lparr>cl_memory := m\<rparr>))
    \<and> length reply = 4 + 24 * length rs \<and> field_at 0 4 reply = (word_of_nat (length rs) :: u32)
    \<and> (\<forall>i < length rs. parse_CeRegionInfo (drop (4 + 24 * i) reply) =
        \<lparr>cri_baseaddress = mr_startAddr (rs ! i), cri_size = scast (mr_regionSize (rs ! i)),
         cri_protection = vadProtectionToWin32Protection E (mr_vadEntry (rs ! i)),
         cri_type = vadTypeToWin32Type (mr_vadEntry (rs ! i))\<rparr>)"
proof -
  let ?reply = "le_bytes 4 (word_of_nat (length rs) :: u32) @ concat (map (region_info E) rs)"
  have len: "length (concat (map (region_info E) xs)) = 24 * length xs" for xs
    by (induction xs) (simp_all add: region_info_def)
  have nth: "drop (24 * i) (concat (map (region_info E) xs)) = region_info E (xs ! i) @ concat (map (region_info E) (drop (Suc i) xs))"
    if "i < length xs" for i xs
  proof -
    have "concat (map (region_info E) xs) = concat (map (region_info E) (take i xs)) @ concat (map (region_info E) (drop i xs))"
      by (metis append_take_drop_id concat_append map_append)
    then have "drop (24 * i) (concat (map (region_info E) xs)) = concat (map (region_info E) (drop i xs))"
      using len [of "take i xs"] that by simp
    then show ?thesis
      using that by (simp add: Cons_nth_drop_Suc [symmetric])
  qed
  have "dispatchCommand ops E CMD_VIRTUALQUERYEXFULL (exchange (le_bytes 4 h @ flags # rest) out c)
      = Inr (True, exchange rest (out @ ?reply) (c\<lparr>cl_memory := m\<rparr>))"
    using VirtualQueryExFull_exchange [OF assms(1,3)] assms(2) by (simp add: dispatchCommand_def)
  moreover have "\<forall>i < length rs. parse_CeRegionInfo (drop (4 + 24 * i) ?reply) =
      \<lparr>cri_baseaddress = mr_startAddr (rs ! i), cri_size = scast (mr_regionSize (rs ! i)),
       cri_protection = vadProtectionToWin32Protection E (mr_vadEntry (rs ! i)),
       cri_type = vadTypeToWin32Type (mr_vadEntry (rs ! i))\<rparr>"
    by (simp add: nth parse_bytes_of) (simp add: region_info_def parse_bytes_of)
  ultimately show ?thesis
    by (intro exI [of _ ?reply]) (simp add: len field_at_def)
qed

text \<open>
  A command that the server does not support, one that the command table does not know, and the two
  commands that end a connection get no reply: the connection is left as it is and closed.
\<close>

lemma unsupported_command_closes:
  assumes "command \<in> set unimplemented \<or> \<not> umap_contains commandToString command
    \<or> command = CMD_CLOSECONNECTION \<or> command = CMD_TERMINATESERVER"
  shows "dispatchCommand ops E command c = Inr (False, c)"
proof -
  have "dispatchCommand ops E command c = Inr (False, c)" if "\<not> umap_contains commandToString command"
    using that unfolding commandToString_keys
    by (auto simp: dispatchCommand_def handleKnownButUnimplementedCommand_def handleUnknownCommand_def word_le_nat_alt)
  then show ?thesis
    using assms closing_command by blast
qed

text \<open>
  The loop that waits for the handle of \<open>CMD_GETARCHITECTURE\<close> ends: once the clock has reached the deadline it
  returns on both platforms, whatever the peer does.
\<close>

lemma architecture_poll_ends:
  assumes "\<exists>now \<in> set clock. timeout \<le> now"
  shows "\<exists>buf' s'. poll_handle p timeout clock s buf = Inr (buf', s')"
  using poll_handle_returns [OF assms] .

text \<open>
  On Linux \<open>CMD_GETARCHITECTURE\<close> loses the handle that the peer sent: the bytes are consumed, but the handle looked
  up is the initial \<open>- 1\<close>, and the connection is closed without a reply.
\<close>

lemma architecture_linux_closes:
  assumes "open_connection c" "env_platform E = Linux" "env_clock E = now # clock" "sk_arrived (cl_socket c) = []"
    and "sk_errno (cl_socket c) \<noteq> EWOULDBLOCK" "\<not> containsProcessIDHandle (cl_state c) (- 1)"
  shows "dispatchCommand ops E CMD_GETARCHITECTURE (exchange (le_bytes 4 (h :: handle) @ rest) out c)
    = Inr (False, exchange rest out c)"
  using GetArchitecture_linux [OF assms] by (simp add: dispatchCommand_def)

lemma architecture_linux_closes_witness:
  "dispatchCommand echo_ops (plain_env Linux) CMD_GETARCHITECTURE (exchange (le_bytes 4 (1 :: handle) @ [9]) [] opened_client)
     = Inr (False, exchange [9] [] opened_client)"
  using architecture_linux_closes [OF opened_client_simps(1), of "plain_env Linux" 0 "[1000]"]
  by (simp add: plain_env_def opened_client_simps)

text \<open>
  A client that sends no handle (Cheat Engine before 7.4.1) is answered on Linux only by chance: with one opened
  process the handle looked up is the process id, so that the connection is closed without a reply
  whenever handle and process id differ.
\<close>

lemma architecture_legacy_closes:
  assumes "open_connection c" "env_platform E = Linux" "env_clock E = now # early @ late # later"
    and "\<forall>r \<in> set early. r < now + 1000" "now + 1000 \<le> late"
    and "sk_arrived (cl_socket c) = replicate (Suc (length early)) 0"
    and "handlesToProcessIDs (cl_state c) = [(h, p)]" "p \<noteq> h"
  shows "\<exists>c'. dispatchCommand ops E CMD_GETARCHITECTURE c = Inr (False, c') \<and> sk_out (cl_socket c') = sk_out (cl_socket c)"
  using GetArchitecture_legacy [OF assms, of ops] by (auto simp: dispatchCommand_def)

text \<open>
  \<open>CMD_SET_CONNECTION_NAME\<close> stores the name that the peer sent, for every name without a zero character and
  shorter than \<open>2 ^ 32 - 1\<close>, whatever the uninitialised buffer held; nothing is sent.
\<close>

lemma connection_name_stored:
  assumes "open_connection c" "length name < 2 ^ 32 - 1" "CHR 0x00 \<notin> set name"
  shows "dispatchCommand ops E CMD_SET_CONNECTION_NAME
      (exchange (le_bytes 4 (word_of_nat (length name) :: u32) @ to_bytes name @ rest) out c)
    = Inr (True, exchange rest out (c\<lparr>cl_connectionName := name\<rparr>))"
  using SetConnectionName_exchange [OF assms] by (simp add: dispatchCommand_def kept_open_def)

text \<open>
  C39: lengths that a request can carry and that no array can have are not rejected: a name length of
  \<open>2 ^ 32 - 1\<close> writes outside an array of no elements, and a negative size in
  \<open>CMD_WRITEPROCESSMEMORY\<close> or \<open>CMD_GETSYMBOLLISTFROMFILE\<close> ends the process by an uncaught exception.
\<close>

theorem bad_lengths_fault:
  assumes "open_connection c" "sint (n :: u32) < 0"
  shows "dispatchCommand ops E CMD_SET_CONNECTION_NAME (exchange (le_bytes 4 (- 1 :: u32) @ rest) out c) = Inl Buffer_overflow
    \<and> dispatchCommand ops E CMD_WRITEPROCESSMEMORY
        (exchange (le_bytes 4 (h :: handle) @ le_bytes 8 (a :: address) @ le_bytes 4 n @ rest) out c) = Inl Bad_array_new_length
    \<and> dispatchCommand ops E CMD_GETSYMBOLLISTFROMFILE (exchange (le_bytes 4 n @ rest) out c) = Inl Bad_array_new_length"
  using SetConnectionName_overflow [OF assms(1)] negative_size_exchange [OF assms]
  by (simp add: dispatchCommand_def kept_open_def)

theorem bad_lengths_fault_witness:
  "dispatchCommand echo_ops (plain_env Linux) CMD_GETSYMBOLLISTFROMFILE (exchange (le_bytes 4 (- 1 :: u32) @ []) [] opened_client)
     = Inl Bad_array_new_length"
  using bad_lengths_fault [OF opened_client_simps(1), of "- 1" echo_ops "plain_env Linux" "[]" "[]"] by simp

text \<open>
  A path without a zero byte is no C string: \<open>CMD_GETSYMBOLLISTFROMFILE\<close> logs it, and so reads behind the array.
\<close>

lemma unterminated_path_faults:
  assumes "open_connection c" "length path < 2 ^ 31" "0 \<notin> set path"
  shows "dispatchCommand ops E CMD_GETSYMBOLLISTFROMFILE
      (exchange (le_bytes 4 (word_of_nat (length path) :: u32) @ path @ rest) out c) = Inl Buffer_overflow"
  using GetSymbolList_exchange [OF assms(1,2)] assms(3) by (simp add: dispatchCommand_def kept_open_def)

text \<open>
  The Windows protection reported for a region depends on two bits of the VAD entry only: executable and
  writable. The bytes that the conversion reads behind its six-character array never reach the result.
\<close>

lemma protection_bits:
  "vadProtectionToWin32Protection E e =
     (if bit (Protection e) 1 then (if bit (Protection e) 2 then PAGE_EXECUTE_READWRITE else PAGE_EXECUTE_READ)
      else (if bit (Protection e) 2 then PAGE_READWRITE else PAGE_READONLY))"
  by (rule Win32Protection_bits)

text \<open>
  An entry of a process or module list, with a name of less than \<open>2 ^ 32\<close> characters, is parsed back by
  the peer to the same fields and the same name, and the parser stops where the entry ends.
\<close>

lemma list_entries_round_trip:
  assumes "open_connection c" "length name < 2 ^ 32" "sk_out (cl_socket c) = []"
  shows "fst (parse_process_reply (sk_out (cl_socket (sendProcess32Entry (exchange i [] c) hasNext p name)) @ rest))
      = \<lparr>cpe_result = (if hasNext then 1 else 0), cpe_pid = p, cpe_processnamesize = word_of_nat (length name)\<rparr>
    \<and> snd (parse_process_reply (sk_out (cl_socket (sendProcess32Entry (exchange i [] c) hasNext p name)) @ rest)) = (to_bytes name, rest)
    \<and> fst (parse_module_reply (sk_out (cl_socket (sendModule32Entry (exchange i [] c) hasNext base part sz off name)) @ rest))
      = \<lparr>cme_result = (if hasNext then 1 else 0), cme_modulebase = base, cme_modulepart = part,
         cme_modulesize = sz, cme_modulenamesize = word_of_nat (length name)\<rparr>
    \<and> snd (parse_module_reply (sk_out (cl_socket (sendModule32Entry (exchange i [] c) hasNext base part sz off name)) @ rest)) = (to_bytes name, rest)"
  using assms by (simp add: client_io parse_process_entry parse_module_entry)

lemma list_entries_round_trip_witness:
  "snd (parse_process_reply (sk_out (cl_socket (sendProcess32Entry (exchange [] [] opened_client) True 4 ''a.exe'')) @ [9]))
     = (to_bytes ''a.exe'', [9])"
  using list_entries_round_trip [OF opened_client_simps(1), of "''a.exe''" "[]" True 4 "[9]"] by (simp add: opened_client_simps)

text \<open>
  A peer that shuts down in the middle of a request is served as if it had sent zeros: after an incomplete process
  id, \<open>CMD_OPENPROCESS\<close> opens the process whose id has the missing bytes zero, stores a handle for it,
  answers it and keeps the connection.
\<close>

lemma truncated_open_is_served:
  assumes "open_connection c" "sk_end (cl_socket c) = None" "length bs < 4"
    and "storeOpenProcess (cl_state c) (le_word (bs @ replicate (4 - length bs) 0)) = (h, st)"
  shows "dispatchCommand ops E CMD_OPENPROCESS (exchange bs out c)
    = Inr (True, exchange [] (out @ le_bytes 4 h) (c\<lparr>cl_state := st\<rparr>))"
proof -
  have "read_T (exchange bs out c) = (le_word (bs @ replicate (4 - length bs) 0) :: u32, exchange [] out c)"
    by (rule read_T_truncated) (use assms in simp_all)
  then show ?thesis
    using assms(1,4) by (simp add: dispatchCommand_def handleCommandOpenProcess_def client_io)
qed

lemma truncated_open_is_served_witness:
  "\<exists>st. dispatchCommand echo_ops (plain_env Linux) CMD_OPENPROCESS (exchange [9] [] opened_client)
     = Inr (True, exchange [] (le_bytes 4 (2 :: handle)) (opened_client\<lparr>cl_state := st\<rparr>)) \<and> getProcessID st 2 = 9"
proof -
  let ?st = "(cl_state opened_client)\<lparr>lastHandleID := 2, handlesToProcessIDs := umap_assign 2 9 (handlesToProcessIDs (cl_state opened_client))\<rparr>"
  have p: "le_word ([9] @ replicate (4 - length [9 :: byte]) 0) = (9 :: u32)"
    by (simp add: numeral_3_eq_3)
  have "storeOpenProcess (cl_state opened_client) 9 = (2, ?st)"
    by (simp add: opened_client_def new_ClientState_def storeOpenProcess_def storeOpenProcess_at_def generateHandle_def Let_def)
  with p have st: "storeOpenProcess (cl_state opened_client) (le_word ([9] @ replicate (4 - length [9 :: byte]) 0)) = (2, ?st)"
    by simp
  have "sk_end (cl_socket opened_client) = None"
    by (simp add: opened_client_def plain_socket_def)
  from truncated_open_is_served [OF opened_client_simps(1) this _ st, of echo_ops "plain_env Linux" "[]"] show ?thesis
    by (intro exI [of _ ?st]) (simp add: getProcessID_def umap_simps umap_contains_def)
qed

text \<open>
  \<open>CMD_CREATETOOLHELP32SNAPSHOTEX\<close> on every branch. For threads the reply is their number and their ids; for modules
  one entry per region and an end-of-list entry, and no handle is drawn; for anything else a process
  snapshot is stored under a new handle, which is the reply. A fault of the adapter is passed on.
\<close>

lemma snapshot_ex_command:
  assumes "open_connection c"
  shows "dispatchCommand ops E CMD_CREATETOOLHELP32SNAPSHOTEX (exchange (le_bytes 4 flags @ le_bytes 4 (p :: pid) @ rest) out c) =
    (if flags AND TH32CS_SNAPTHREAD \<noteq> 0 then
       (case mo_getThreadSnapshot ops (cl_memory c) p of (ts, m) \<Rightarrow>
          Inr (True, exchange rest (out @ le_bytes 4 (word_of_nat (length ts) :: u32)
            @ concat (map (\<lambda>t. le_bytes 4 (dwTID (ti_threadentry t))) ts)) (c\<lparr>cl_memory := m\<rparr>)))
     else if flags AND TH32CS_SNAPMODULE \<noteq> 0 then
       (case mo_getModuleSnapshot ops (cl_memory c) p of (rs, m) \<Rightarrow>
          Inr (True, exchange rest (out @ concat (map region_entry rs) @ module_entry False 0 0 0 '''') (c\<lparr>cl_memory := m\<rparr>)))
     else
       (case mo_getProcessSnapshot ops (cl_memory c) of
          Inl e \<Rightarrow> Inl e
        | Inr (ps, m) \<Rightarrow>
            (case storeProcessSnapshot (cl_state c) ps of (h, st) \<Rightarrow>
               Inr (True, exchange rest (out @ le_bytes 4 h) (c\<lparr>cl_memory := m, cl_state := st\<rparr>)))))"
proof -
  let ?c = "exchange (le_bytes 4 flags @ le_bytes 4 p @ rest) out c"
  have "dispatchCommand ops E CMD_CREATETOOLHELP32SNAPSHOTEX ?c = kept_open (handleCommandToolHelp32SnapshotEx ops ?c)"
    by (simp add: dispatchCommand_def)
  moreover have "mo_getProcessSnapshot ops (cl_memory c) = Inl e \<Longrightarrow> flags AND TH32CS_SNAPTHREAD = 0 \<Longrightarrow>
      flags AND TH32CS_SNAPMODULE = 0 \<Longrightarrow> handleCommandToolHelp32SnapshotEx ops ?c = Inl e" for e
    using assms by (simp add: handleCommandToolHelp32SnapshotEx_def client_io)
  ultimately show ?thesis
    by (auto simp: ToolHelp32SnapshotEx_exchange [OF assms] kept_open_def split: prod.split sum.split)
qed

lemma snapshot_ex_command_witness:
  "dispatchCommand echo_ops (plain_env Linux) CMD_CREATETOOLHELP32SNAPSHOTEX
     (exchange (le_bytes 4 (4 :: u32) @ le_bytes 4 (4 :: pid) @ []) [] opened_client)
   = Inr (True, exchange [] (le_bytes 4 (1 :: u32) @ le_bytes 4 (8 :: u32)) opened_client)"
  using snapshot_ex_command [OF opened_client_simps(1), of echo_ops "plain_env Linux" 4 4 "[]" "[]"]
  by (simp add: echo_ops_def)

end
