(* ===== verification/Adapter.thy ===== *)
theory Adapter
  imports Readers Handlers
begin

text \<open>
  \<^verbatim>\<open>Memory\<close> behind the interface of the command handlers: the table of its virtual methods, and the
  proof that they keep the contract \<open>memory_interface\<close> for every device behaviour and every
  outcome of the race on a promise's buffer. With it the handlers' lemmas hold of the real adapter.
\<close>

definition Memory_ops :: "'d vmmdll \<Rightarrow> (nat \<Rightarrow> bool) \<Rightarrow> 'd memory memory_ops" where
  "Memory_ops api copied =
     \<lparr>mo_getProcessSnapshot = getProcessSnapshot api, mo_getModuleSnapshot = getModuleSnapshot api,
      mo_getThreadSnapshot = getThreadSnapshot api, mo_read = read_mem api copied, mo_write = write_mem api,
      mo_getMemoryModel = getMemoryModel api\<rparr>"

lemma read_mem_bounded:
  assumes "read_mem api copied M p a n = Inr ((r, bs), M')"
  shows "length bs = unat r \<and> unat r \<le> unat n"
proof -
  obtain r' bs' D where rd: "sequential_read api (hVMM M) p (device M) (new_BacklogItem p a n) = ((r', bs'), D)"
    by (metis prod.collapse)
  then have "length bs' = unat n"
    using sequential_read_length by (fastforce simp: new_BacklogItem_def)
  with rd assms show ?thesis
    by (auto simp: read_mem_def Let_def split: if_splits)
qed

interpretation adapter: memory_interface "Memory_ops api copied" for api copied
proof
  fix M p a n r bs M'
  assume "mo_read (Memory_ops api copied) M p a n = Inr ((r, bs), M')"
  then show "length bs = unat r \<and> unat r \<le> unat n"
    using read_mem_bounded by (simp add: Memory_ops_def)
next
  fix M buf p a n w M'
  assume "mo_write (Memory_ops api copied) M buf p a n = (w, M')"
  then show "w = n \<or> w = - 1"
    by (auto simp: Memory_ops_def write_mem_def split: prod.splits if_splits)
qed

text \<open>
  A read of the adapter is a run of the threads: the reader's request, the dispatch thread's batch of
  one, and the reader's copy in the order that \<open>copied\<close> says.
\<close>

lemma read_mem_run:
  assumes "read_mem api copied M p a n = Inr ((r, bs), M')"
  shows "\<exists>s. read_steps api (hVMM M) (new_read_sys (device M)) s
    \<and> rs_done s t = Some (\<lparr>rd_pid = p, rd_address = a, rd_size = n, rd_item = 0\<rparr>, r, bs)
    \<and> rs_backlog s = [] \<and> rs_phase s = Idle \<and> rs_device s = device M'"
proof -
  obtain r' bs' D where rd: "sequential_read api (hVMM M) p (device M) (new_BacklogItem p a n) = ((r', bs'), D)"
    by (metis prod.collapse)
  with assms have *: "n < MAX_BYTES_PER_DISPATCH" "r = r'" "bs = take (unat r') bs'" "unat r' \<le> unat n"
      "device M' = VMMDLL_MemFree D PromiseBuffer"
    by (auto simp: read_mem_def Let_def split: if_splits)
  with read_alone_run [OF *(1) rd *(4), of t] show ?thesis by simp
qed

section \<open>Properties\<close>

text \<open>A connection on the concrete device that has opened process 4 under handle 1.\<close>

definition flat_client :: "byte list memory client" where
  "flat_client =
     \<lparr>cl_socket = plain_socket, cl_connectionName = '''', cl_memory = snd (init flat_api Written (new_Memory ''mmap.txt'' None flat_device)),
      cl_state = new_ClientState\<lparr>lastHandleID := 1, handlesToProcessIDs := [(1, 4)]\<rparr>\<rparr>"

lemma flat_client_simps:
  "open_connection flat_client" "containsProcessIDHandle (cl_state flat_client) 1"
  "getProcessID (cl_state flat_client) 1 = 4" "sk_out (cl_socket flat_client) = []"
  by (simp_all add: flat_client_def open_connection_def connected_def plain_socket_def client_state_defs umap_contains_def)

text \<open>
  With the real adapter, and whatever the device answers, a \<open>CMD_READPROCESSMEMORY\<close> that keeps the connection open
  sends a 32-bit count and exactly that many bytes, never more than the client asked for, and leaves
  the handle table as it was.
\<close>

lemma read_reply_framed:
  assumes "open_connection c"
    and "handleCommandReadProcessMemory (Memory_ops api copied) (exchange (read_request h a n compress @ rest) out c) = Inr (True, c')"
  shows "\<exists>data M. c' = exchange rest (out @ le_bytes 4 (word_of_nat (length data) :: u32) @ data) (c\<lparr>cl_memory := M\<rparr>)
    \<and> length data \<le> unat n"
  using adapter.read_reply [OF assms] .

lemma flat_client_read:
  "read_mem flat_api (\<lambda>k. True) (cl_memory flat_client) 4 2 4
     = Inr ((4, [12, 13, 14, 15]), (cl_memory flat_client)\<lparr>device := VMMDLL_MemFree (called (device (cl_memory flat_client))
         (Call_MemReadEx 1 4 2 4 (scatterFlags flat_api)) [10, 11, 12, 13, 14, 15, 16, 17]) PromiseBuffer\<rparr>)"
proof -
  have "api_MemReadEx flat_api d h p a n fl = flat_read d a n" for d h p a n fl
    by (simp add: flat_api_def)
  then show ?thesis
    by (simp add: read_mem_def flat_client_def flat_init sequential_read_def VMMDLL_MemReadEx_def flat_read_def
        new_BacklogItem_def promise_buffer_def overwrite_def MAX_BYTES_PER_DISPATCH_def)
qed

lemma device_write:
  assumes "VMMDLL_MemWrite api (device M) (hVMM M) p a bs (word_of_nat (length bs)) = (ok, D)" "length bs < 2 ^ 31"
  shows "mo_write (Memory_ops api copied) M bs p a (word_of_nat (length bs)) = (if ok then word_of_nat (length bs) else - 1, M\<lparr>device := D\<rparr>)"
proof -
  have "ucast (word_of_nat (length bs) :: u64) = (word_of_nat (length bs) :: u32)"
    using of_nat_unat [of "word_of_nat (length bs) :: u64", symmetric] assms(2) by (simp add: unat_of_nat)
  with assms(1) show ?thesis by (simp add: Memory_ops_def write_mem_def)
qed

text \<open>
  C16: with the real adapter, \<open>CMD_WRITEPROCESSMEMORY\<close> makes one call of \<open>VMMDLL_MemWrite\<close>, with the device handle, the process of
  the client's handle, and the address, bytes and size of the request. When the device accepts the write, the
  reply is the full size and the connection stays open; when it refuses, the reply is \<open>- 1\<close> and the connection is
  closed. The reply \<open>0\<close>, which the handler's failure branch would send, never occurs for a non-empty write.
\<close>

theorem write_reply_framed:
  assumes "open_connection c" "length bs < 2 ^ 31" "containsProcessIDHandle (cl_state c) h"
    and "VMMDLL_MemWrite api (device (cl_memory c)) (hVMM (cl_memory c)) (getProcessID (cl_state c) h) a bs (word_of_nat (length bs))
      = (ok, D)"
  shows "handleCommandWriteProcessMemory (Memory_ops api copied) E (exchange (write_request h a bs @ rest) out c)
    = Inr (ok, exchange rest (out @ le_bytes 4 (if ok then word_of_nat (length bs) else - 1 :: u32))
        (c\<lparr>cl_memory := (cl_memory c)\<lparr>device := D\<rparr>\<rparr>))"
proof -
  note w = device_write [OF assms(4,2), of copied]
  obtain k c' where r: "handleCommandWriteProcessMemory (Memory_ops api copied) E (exchange (write_request h a bs @ rest) out c) = Inr (k, c')"
    using WriteProcessMemory_exchange [OF assms(1,2) w] assms(3) by auto
  have "(word_of_nat (length bs) :: u64) \<noteq> - 1"
    using assms(2) by (simp add: word_unat_eq_iff unat_of_nat unsigned_minus_1_eq_mask mask_eq_exp_minus_1)
  with adapter.write_reply [OF assms(1-3) r] w r show ?thesis
    by (auto split: if_splits)
qed

text \<open>The concrete device accepts a write; a device that refuses every write is asked as well.\<close>

theorem write_reply_framed_witness:
  "(\<exists>M. handleCommandWriteProcessMemory (Memory_ops flat_api (\<lambda>k. True)) (plain_env Linux) (exchange (write_request 1 2 [1, 1] @ []) [] flat_client)
       = Inr (True, exchange [] (le_bytes 4 (2 :: u32)) (flat_client\<lparr>cl_memory := M\<rparr>)) \<and> dev (device M) = [10, 11, 1, 1, 14, 15, 16, 17])
   \<and> (\<exists>M. handleCommandWriteProcessMemory (Memory_ops (flat_api\<lparr>api_MemWrite := \<lambda>d h pid a buf n. (0, d)\<rparr>) (\<lambda>k. True)) (plain_env Linux)
         (exchange (write_request 1 2 [1, 1] @ []) [] flat_client)
       = Inr (False, exchange [] (le_bytes 4 (- 1 :: u32)) (flat_client\<lparr>cl_memory := M\<rparr>)) \<and> dev (device M) = [10, 11, 12, 13, 14, 15, 16, 17])"
proof -
  have len: "length [1 :: byte, 1] < 2 ^ 31" by simp
  let ?refusing = "flat_api\<lparr>api_MemWrite := \<lambda>d h pid a buf n. (0, d)\<rparr>"
  let ?M = "cl_memory flat_client"
  have "VMMDLL_MemWrite flat_api (device ?M) (hVMM ?M) (getProcessID (cl_state flat_client) 1) 2 [1, 1] (word_of_nat (length [1 :: byte, 1]))
      = (True, called (device ?M) (Call_MemWrite 1 4 2 [1, 1] 2) [10, 11, 1, 1, 14, 15, 16, 17])"
    "VMMDLL_MemWrite ?refusing (device ?M) (hVMM ?M) (getProcessID (cl_state flat_client) 1) 2 [1, 1] (word_of_nat (length [1 :: byte, 1]))
      = (False, called (device ?M) (Call_MemWrite 1 4 2 [1, 1] 2) [10, 11, 12, 13, 14, 15, 16, 17])"
    by (simp_all add: VMMDLL_MemWrite_def flat_client_simps flat_api_def) (simp_all add: flat_client_def flat_init)
  from this [THEN write_reply_framed [OF flat_client_simps(1) len flat_client_simps(2)],
      of "\<lambda>k. True" "plain_env Linux" "[]" "[]"] show ?thesis
    by (auto simp: called_def intro!: exI [of _ "?M\<lparr>device := _\<rparr>"])
qed

text \<open>
  C29: the sequential reading of \<open>Memory::read\<close> that the handlers use is a run of the threads: whenever it returns a
  value, the reader and the dispatch thread, started with an empty backlog, can reach a state in which
  the read has returned that value, the backlog is empty again and the device is in the same state.
\<close>

theorem read_refines_threads:
  assumes "mo_read (Memory_ops api copied) M p a n = Inr ((r, bs), M')"
  shows "\<exists>s. read_steps api (hVMM M) (new_read_sys (device M)) s
    \<and> rs_done s t = Some (\<lparr>rd_pid = p, rd_address = a, rd_size = n, rd_item = 0\<rparr>, r, bs)
    \<and> rs_backlog s = [] \<and> rs_phase s = Idle \<and> rs_device s = device M'"
  using assms read_mem_run by (fastforce simp: Memory_ops_def)

theorem read_refines_threads_witness:
  "\<exists>s. read_steps flat_api 1 (new_read_sys (device (cl_memory flat_client))) s
     \<and> rs_done s 0 = Some (\<lparr>rd_pid = 4, rd_address = 2, rd_size = 4, rd_item = 0\<rparr>, 4, [12, 13, 14, 15])"
proof -
  have "hVMM (cl_memory flat_client) = 1"
    by (simp add: flat_client_def flat_init)
  with read_refines_threads [of flat_api "\<lambda>k. True" "cl_memory flat_client" 4 2 4, where t = 0] flat_client_read show ?thesis
    by (auto simp: Memory_ops_def)
qed

text \<open>
  C33: \<open>CMD_VIRTUALQUERYEXFULL\<close> reports the target's memory. With the real adapter the reply holds the number of VAD
  entries of the opened process and one 24-byte record for each, in order. Read by the packed layout,
  the record has the start of the entry, the Windows protection that follows from its execute and write
  bits, and its type. The size is kept in a signed 32-bit field on the way: for an extent of less than
  \<open>2 ^ 63\<close> bytes it is right exactly when the extent is below \<open>2 ^ 31\<close>. The map is freed afterwards.
\<close>

theorem regions_reported:
  assumes "open_connection c" "containsProcessIDHandle (cl_state c) h"
    and "VMMDLL_Map_GetVadU api (device (cl_memory c)) (hVMM (cl_memory c)) (getProcessID (cl_state c) h) True = (True, es, D)"
  shows "\<exists>reply. dispatchCommand (Memory_ops api copied) E CMD_VIRTUALQUERYEXFULL (exchange (le_bytes 4 h @ flags # rest) out c)
      = Inr (True, exchange rest (out @ reply) (c\<lparr>cl_memory := (cl_memory c)\<lparr>device := VMMDLL_MemFree D VadMap\<rparr>\<rparr>))
    \<and> length reply = 4 + 24 * length es \<and> field_at 0 4 reply = (word_of_nat (length es) :: u32)
    \<and> (\<forall>i < length es. let r = parse_CeRegionInfo (drop (4 + 24 * i) reply); e = es ! i in
          cri_baseaddress r = vaStart e
        \<and> (vaEnd e - vaStart e + 1 < 2 ^ 63 \<longrightarrow>
             (cri_size r = vaEnd e - vaStart e + 1 \<longleftrightarrow> vaEnd e - vaStart e + 1 < 2 ^ 31))
        \<and> cri_protection r =
            (if bit (Protection e) 1 then (if bit (Protection e) 2 then PAGE_EXECUTE_READWRITE else PAGE_EXECUTE_READ)
             else (if bit (Protection e) 2 then PAGE_READWRITE else PAGE_READONLY))
        \<and> cri_type r = (if fPrivateMemory e then MEM_PRIVATE else if VadType e = 2 then MEM_IMAGE else MEM_MAPPED))"
proof -
  let ?M = "(cl_memory c)\<lparr>device := VMMDLL_MemFree D VadMap\<rparr>"
  have "mo_getModuleSnapshot (Memory_ops api copied) (cl_memory c) (getProcessID (cl_state c) h) = (map MemoryRegion_of es, ?M)"
    using assms(3) by (simp add: Memory_ops_def getModuleSnapshot_def)
  from region_list_parses [OF assms(1,2) this, of E flags rest out] obtain reply where reply:
      "dispatchCommand (Memory_ops api copied) E CMD_VIRTUALQUERYEXFULL (exchange (le_bytes 4 h @ flags # rest) out c)
        = Inr (True, exchange rest (out @ reply) (c\<lparr>cl_memory := ?M\<rparr>))"
      "length reply = 4 + 24 * length es" "field_at 0 4 reply = (word_of_nat (length es) :: u32)"
      "\<forall>i < length es. parse_CeRegionInfo (drop (4 + 24 * i) reply) =
        \<lparr>cri_baseaddress = vaStart (es ! i), cri_size = scast (mr_regionSize (MemoryRegion_of (es ! i))),
         cri_protection = vadProtectionToWin32Protection E (es ! i), cri_type = vadTypeToWin32Type (es ! i)\<rparr>"
    by auto
  then show ?thesis
    by (intro exI [of _ reply]) (simp add: Let_def protection_bits vadTypeToWin32Type_def region_size_exact)
qed

theorem regions_reported_witness:
  "\<exists>reply M. dispatchCommand (Memory_ops flat_api (\<lambda>k. True)) (plain_env Linux) CMD_VIRTUALQUERYEXFULL
        (exchange (le_bytes 4 (1 :: handle) @ 0 # []) [] flat_client)
      = Inr (True, exchange [] reply (flat_client\<lparr>cl_memory := M\<rparr>))
    \<and> length reply = 28 \<and> cri_baseaddress (parse_CeRegionInfo (drop 4 reply)) = 0x1000
    \<and> cri_size (parse_CeRegionInfo (drop 4 reply)) = 0x1000"
proof -
  let ?M = "cl_memory flat_client"
  have vad: "VMMDLL_Map_GetVadU flat_api (device ?M) (hVMM ?M) (getProcessID (cl_state flat_client) 1) True
      = (True, [flat_vad], called (device ?M) (Call_Map_GetVadU (hVMM ?M) (getProcessID (cl_state flat_client) 1) True) (dev (device ?M)))"
    by (simp add: VMMDLL_Map_GetVadU_def flat_api_def)
  from regions_reported [OF flat_client_simps(1,2) vad, of "\<lambda>k. True" "plain_env Linux" 0 "[]" "[]"] show ?thesis
    by (fastforce simp: flat_vad_def Let_def)
qed

end
