(* ===== verification/Server.thy ===== *)
theory Server
  imports Adapter
begin

text \<open>
  \<^verbatim>\<open>Server.cpp\<close> and \<^verbatim>\<open>main.cpp\<close>: the listening socket, the thread that accepts connections, the loop
  of a connection's thread, and the program that starts them.

  The operating system's answers to the calls on the listening socket are parameters. A connection's
  loop reads \<open>bStop\<close> and its environment anew in every round: both are functions of the round's number.
  The loop may run for ever, so it is a \<open>partial_function\<close>: \<open>None\<close> is a thread that never returns.
\<close>


section \<open>The loop of a connection\<close>

definition close_client :: "'m client \<Rightarrow> 'm client" where
  "close_client c = c\<lparr>cl_socket := os_close (cl_socket c)\<rparr>"

text \<open>One round: whether the loop goes on, and the connection.\<close>

definition connection_round ::
    "'m memory_ops \<Rightarrow> client_env \<Rightarrow> 'm client \<Rightarrow> fault + (bool \<times> 'm client)" where
  "connection_round ops E c =
     (let (recvSize, buffer, s) = recv (cl_socket c) [0] 1 [MSG_WAITALL];
          c = c\<lparr>cl_socket := s\<rparr>
      in if recvSize < 0 then Inr (False, close_client c)
         else if recvSize = 0 then Inr (True, c)
         else
           (case dispatchCommand ops E (hd buffer) c of
              Inl e \<Rightarrow> Inl e
            | Inr (keep, c) \<Rightarrow> Inr (keep, if keep then c else close_client c)))"

partial_function (option) handleClientConnection ::
    "(nat \<Rightarrow> bool) \<Rightarrow> 'm memory_ops \<Rightarrow> (nat \<Rightarrow> client_env) \<Rightarrow> nat \<Rightarrow> 'm client \<Rightarrow> (fault + 'm client) option" where
  "handleClientConnection stop ops E k c =
     (if stop k then Some (Inr c)
      else
        (case connection_round ops (E k) c of
           Inl e \<Rightarrow> Some (Inl e)
         | Inr (keep, c) \<Rightarrow>
             (if keep then handleClientConnection stop ops E (Suc k) c else Some (Inr c))))"

text \<open>The state of a fresh connection.\<close>

definition new_Client :: "sock \<Rightarrow> 'm \<Rightarrow> client_state \<Rightarrow> 'm client" where
  "new_Client s m st = \<lparr>cl_socket = s, cl_connectionName = '''', cl_memory = m, cl_state = st\<rparr>"


section \<open>The server\<close>

record server =
  sv_bStop :: bool
  sv_serverThread :: thread_ptr
  sv_clientThreads :: "sock list"
  sv_refused :: "sock list"
  sv_bound :: bool
  sv_listening :: bool

record socket_results =
  so_reuseaddr :: int
  so_bind :: int
  so_listen :: int

definition new_Server :: server where
  "new_Server =
     \<lparr>sv_bStop = False, sv_serverThread = Null, sv_clientThreads = [], sv_refused = [], sv_bound = False,
      sv_listening = False\<rparr>"

definition Server_init :: "socket_results \<Rightarrow> server \<Rightarrow> bool \<times> server" where
  "Server_init so sv =
     (if so_reuseaddr so \<noteq> 0 then (False, sv)
      else if so_bind so \<noteq> 0 then (False, sv)
      else (True, sv\<lparr>sv_bound := True\<rparr>))"

definition Server_start :: "socket_results \<Rightarrow> server \<Rightarrow> bool \<times> server" where
  "Server_start so sv =
     (if sv_serverThread sv \<noteq> Null then (False, sv)
      else if so_listen so \<noteq> 0 then (False, sv)
      else (True, sv\<lparr>sv_listening := True, sv_serverThread := Running\<rparr>))"

text \<open>
  What \<open>accept\<close> and \<open>setsockopt(TCP_NODELAY)\<close> return in each round of the accepting thread; it stops
  at the first round that finds \<open>bStop\<close> set.
\<close>

datatype accepted = Nullptr | Connection sock int

fun accept_loop :: "accepted list \<Rightarrow> server \<Rightarrow> server" where
  "accept_loop [] sv = sv"
| "accept_loop (a # as) sv =
     (if sv_bStop sv then sv
      else
        (case a of
           Nullptr \<Rightarrow> accept_loop as sv
         | Connection s nodelay \<Rightarrow>
             (if nodelay \<noteq> 0 then accept_loop as (sv\<lparr>sv_refused := sv_refused sv @ [os_close s]\<rparr>)
              else accept_loop as (sv\<lparr>sv_clientThreads := sv_clientThreads sv @ [s]\<rparr>))))"

definition Server_stop :: "server \<Rightarrow> server" where
  "Server_stop sv = sv\<lparr>sv_bStop := True\<rparr>"

text \<open>\<open>join\<close> deletes the thread object and keeps the pointer, as \<open>Memory::shutdown\<close> does.\<close>

definition Server_join :: "server \<Rightarrow> fault + server" where
  "Server_join sv =
     (case sv_serverThread sv of
        Null \<Rightarrow> Inr sv
      | Running \<Rightarrow> Inr (sv\<lparr>sv_serverThread := Dangling\<rparr>)
      | Dangling \<Rightarrow> Inl Use_after_free)"


section \<open>The program\<close>

text \<open>
  The system decides whether the file for the memory map can be written (\<open>w\<close>); \<open>file\<close> is what an earlier run has left there.
  \<open>main\<close> up to the point where it waits for the server's thread: it has left with an exit code,
  after the destructor of the memory adapter, or it serves. The result of \<open>Server::init\<close> is ignored.
\<close>

datatype 'd outcome = Exit int "fault + 'd memory" | Serving server "'d memory"

definition main :: "'d vmmdll \<Rightarrow> socket_results \<Rightarrow> file_outcome \<Rightarrow> string \<Rightarrow> string option \<Rightarrow> 'd device \<Rightarrow> 'd outcome" where
  "main api so w mmap file D =
     (let (ok, M) = init api w (new_Memory mmap file D)
      in if \<not> ok then Exit 1 (delete_Memory api M)
         else
           (let (_, sv) = Server_init so new_Server;
                (started, sv) = Server_start so sv
            in if \<not> started then Exit 1 (delete_Memory api M) else Serving sv M))"

text \<open>On Windows the program leaves at once, with code 1 and nothing opened, when \<^verbatim>\<open>WSAStartup\<close> fails.\<close>

definition main_on ::
    "platform \<Rightarrow> int \<Rightarrow> 'd vmmdll \<Rightarrow> socket_results \<Rightarrow> file_outcome \<Rightarrow> string \<Rightarrow> string option \<Rightarrow> 'd device \<Rightarrow> int + 'd outcome" where
  "main_on p startup api so w mmap file D =
     (case p of
        Windows \<Rightarrow> (if startup \<noteq> 0 then Inl 1 else Inr (main api so w mmap file D))
      | Linux \<Rightarrow> Inr (main api so w mmap file D))"

section \<open>Rounds on an open connection\<close>

lemma connection_round_command:
  assumes "open_connection c"
  shows "connection_round ops E (exchange (command # i) out c) =
    (case dispatchCommand ops E command (exchange i out c) of
       Inl e \<Rightarrow> Inl e
     | Inr (keep, c) \<Rightarrow> Inr (keep, if keep then c else close_client c))"
proof -
  let ?s = "cl_socket (exchange (command # i) out c)"
  have "os_recv ?s 1 [MSG_WAITALL] = (1, [command], ?s\<lparr>sk_in := i\<rparr>)"
    using assms os_recv_enough [of ?s 1] by (simp add: open_connection_def exchange_def)
  moreover have "(exchange (command # i) out c)\<lparr>cl_socket := ?s\<lparr>sk_in := i\<rparr>\<rparr> = exchange i out c"
    by (simp add: exchange_def)
  ultimately show ?thesis
    by (simp add: connection_round_def recv_def overwrite_def)
qed

lemma connection_round_end:
  assumes "open_connection c" "sk_in (cl_socket c) = []"
  shows "sk_end (cl_socket c) = None \<Longrightarrow> connection_round ops E c = Inr (True, c)"
    and "sk_end (cl_socket c) = Some e \<Longrightarrow>
      connection_round ops E c = Inr (False, close_client (c\<lparr>cl_socket := (cl_socket c)\<lparr>sk_errno := e\<rparr>\<rparr>))"
  using assms
  by (simp_all add: connection_round_def recv_def os_recv_def recv_blocking_def recv_end_def open_connection_def connected_def)

text \<open>A round that goes on without change is repeated for ever.\<close>

lemma connection_spins:
  assumes "\<And>k. \<not> stop k" "\<And>k. connection_round ops (E k) c = Inr (True, c)"
  shows "handleClientConnection stop ops E k c = None"
proof -
  have "\<not> ((\<forall>j. \<not> stop j) \<and> (\<forall>j. connection_round ops (E j) c = Inr (True, c)))"
    if "handleClientConnection stop ops E k c = Some y" for y
    by (rule handleClientConnection.raw_induct [OF _ that, where
          P = "\<lambda>stop ops E k c y. \<not> ((\<forall>j. \<not> stop j) \<and> (\<forall>j. connection_round ops (E j) c = Inr (True, c)))"])
      (force split: if_splits)
  then show ?thesis
    using assms by (cases "handleClientConnection stop ops E k c") auto
qed

lemma handleClientConnection_step:
  assumes "\<not> stop k" "connection_round ops (E k) c = Inr (True, c')"
  shows "handleClientConnection stop ops E k c = handleClientConnection stop ops E (Suc k) c'"
  using assms by (simp add: handleClientConnection.simps [of stop ops E k c])

lemma handleClientConnection_last:
  assumes "\<not> stop k" "connection_round ops (E k) c = Inr (False, c')"
  shows "handleClientConnection stop ops E k c = Some (Inr c')"
  using assms by (simp add: handleClientConnection.simps [of stop ops E k c])

lemma handleClientConnection_stop:
  "stop k \<Longrightarrow> handleClientConnection stop ops E k c = Some (Inr c)"
  by (simp add: handleClientConnection.simps [of stop ops E k c])


section \<open>Connections side by side\<close>

text \<open>
  The connections share the handle table and the adapter. A step is one round of one connection's
  loop; finer interleavings on the handle table are those of \<open>handle_step\<close>, and finer ones on the
  read path those of \<open>read_step\<close>.
\<close>

record 'm server_sys =
  ss_table :: client_state
  ss_memory :: 'm
  ss_conns :: "nat \<rightharpoonup> sock \<times> string"

definition conn_client :: "'m server_sys \<Rightarrow> sock \<times> string \<Rightarrow> 'm client" where
  "conn_client s x =
     \<lparr>cl_socket = fst x, cl_connectionName = snd x, cl_memory = ss_memory s, cl_state = ss_table s\<rparr>"

inductive server_step :: "'m memory_ops \<Rightarrow> 'm server_sys \<Rightarrow> 'm server_sys \<Rightarrow> bool" for ops :: "'m memory_ops" where
  accepted: "ss_conns s i = None \<Longrightarrow> server_step ops s (s\<lparr>ss_conns := (ss_conns s)(i \<mapsto> (sk, ''''))\<rparr>)"
| served: "ss_conns s i = Some x \<Longrightarrow> connection_round ops E (conn_client s x) = Inr (True, c) \<Longrightarrow>
    server_step ops s (s\<lparr>ss_table := cl_state c, ss_memory := cl_memory c,
      ss_conns := (ss_conns s)(i \<mapsto> (cl_socket c, cl_connectionName c))\<rparr>)"
| ended: "ss_conns s i = Some x \<Longrightarrow> connection_round ops E (conn_client s x) = Inr (False, c) \<Longrightarrow>
    server_step ops s (s\<lparr>ss_table := cl_state c, ss_memory := cl_memory c, ss_conns := (ss_conns s)(i := None)\<rparr>)"

inductive server_steps :: "'m memory_ops \<Rightarrow> 'm server_sys \<Rightarrow> 'm server_sys \<Rightarrow> bool" for ops :: "'m memory_ops" where
  none: "server_steps ops s s"
| more: "server_steps ops s s' \<Longrightarrow> server_step ops s' s'' \<Longrightarrow> server_steps ops s s''"

inductive_cases server_stepE: "server_step ops s s'"

definition new_server_sys :: "'m \<Rightarrow> 'm server_sys" where
  "new_server_sys m = \<lparr>ss_table = new_ClientState, ss_memory = m, ss_conns = Map.empty\<rparr>"

text \<open>The handle that the next request of a connection asks to close.\<close>

definition close_request :: "sock \<Rightarrow> handle option" where
  "close_request s =
     (case sk_in s of
        command # rest \<Rightarrow> (if command = CMD_CLOSEHANDLE then Some (le_word (take 4 rest)) else None)
      | [] \<Rightarrow> None)"

lemma le_word_zeros: "le_word (replicate n 0) = 0" "le_word (bs @ replicate n 0) = le_word bs"
proof -
  show zeros: "le_word (replicate n 0) = 0" for n
    by (induction n) simp_all
  show "le_word (bs @ replicate n 0) = le_word bs"
    by (induction bs) (simp_all add: zeros)
qed

lemma command_received:
  assumes "recv sk [0] 1 [MSG_WAITALL] = (r, buf, s)" "0 < r"
  shows "\<exists>command rest. buf = [command] \<and> sk_in sk = command # rest \<and> s = sk\<lparr>sk_in := rest\<rparr>
    \<and> \<not> sk_closed sk \<and> \<not> sk_nonblocking sk"
  using assms
  by (cases "sk_in sk")
    (auto simp: recv_def os_recv_def recv_blocking_def recv_some_def recv_end_def overwrite_def split: if_splits option.splits)

lemma value_received:
  assumes "\<not> sk_closed s" "\<not> sk_nonblocking s"
  shows "fst (recv_T s [MSG_WAITALL]) = (le_word (take (LENGTH('a::len) div 8) (sk_in s)) :: 'a word)"
proof (cases "LENGTH('a) div 8 = 0 \<or> sk_in s \<noteq> []")
  case True
  with assms show ?thesis
    by (auto simp: recv_T_def recv_def os_recv_def recv_blocking_def recv_some_def overwrite_def le_word_zeros min_def Let_def)
next
  case False
  with assms show ?thesis
    by (auto simp: recv_T_def recv_def os_recv_def recv_blocking_def recv_end_def le_word_zeros Let_def split: option.splits)
qed

lemma round_table:
  assumes "small_snapshots ops" "connection_round ops E c = Inr (keep, c')"
  shows "table_op (close_request (cl_socket c)) (cl_state c) (cl_state c')"
proof -
  obtain r buf s where rx: "recv (cl_socket c) [0] 1 [MSG_WAITALL] = (r, buf, s)"
    by (metis prod_cases3)
  let ?c = "c\<lparr>cl_socket := s\<rparr>"
  show ?thesis
  proof (cases "0 < r")
    case True
    with assms(2) rx obtain k c'' where d: "dispatchCommand ops E (hd buf) ?c = Inr (k, c'')" "cl_state c' = cl_state c''"
      by (auto simp: connection_round_def close_client_def Let_def split: if_splits sum.splits)
    from command_received [OF rx True] obtain command rest where "buf = [command]" "sk_in (cl_socket c) = command # rest"
        "s = (cl_socket c)\<lparr>sk_in := rest\<rparr>" "\<not> sk_closed (cl_socket c)" "\<not> sk_nonblocking (cl_socket c)"
      by blast
    then have "(if hd buf = CMD_CLOSEHANDLE then Some (fst (read_T ?c)) else None) = close_request (cl_socket c)"
      using value_received [of s, where 'a = 32] by (simp add: close_request_def read_T_def split_def Let_def)
    with dispatch_table [OF assms(1) d(1)] d(2) show ?thesis by simp
  next
    case False
    with assms(2) rx have "cl_state c' = cl_state c"
      by (auto simp: connection_round_def close_client_def Let_def split: if_splits)
    then show ?thesis by (rule table_op_same)
  qed
qed

lemma server_step_inv:
  assumes "small_snapshots ops" "server_step ops s s'" "cs_inv (ss_table s)"
  shows "cs_inv (ss_table s')"
  using assms(2)
proof (rule server_stepE)
  fix i x E c
  assume "connection_round ops E (conn_client s x) = Inr (True, c)"
    "s' = s\<lparr>ss_table := cl_state c, ss_memory := cl_memory c, ss_conns := (ss_conns s)(i \<mapsto> (cl_socket c, cl_connectionName c))\<rparr>"
  with round_table [OF assms(1)] table_op_inv assms(3) show ?thesis
    by (fastforce simp: conn_client_def)
next
  fix i x E c
  assume "connection_round ops E (conn_client s x) = Inr (False, c)"
    "s' = s\<lparr>ss_table := cl_state c, ss_memory := cl_memory c, ss_conns := (ss_conns s)(i := None)\<rparr>"
  with round_table [OF assms(1)] table_op_inv assms(3) show ?thesis
    by (fastforce simp: conn_client_def)
qed (use assms(3) in simp)


section \<open>Properties\<close>

text \<open>
  C37: a peer that closes its side in an orderly way leaves the connection's thread in its loop for ever:
  \<open>recv\<close> returns zero in every round, and the thread neither closes the socket nor returns.
\<close>

theorem orderly_shutdown_spins:
  assumes "open_connection c" "sk_in (cl_socket c) = []" "sk_end (cl_socket c) = None" "\<forall>k. \<not> stop k"
  shows "handleClientConnection stop ops E k c = None"
  using connection_spins [of stop ops E c k] connection_round_end(1) [OF assms(1-3)] assms(4) by simp

theorem orderly_shutdown_spins_witness:
  "handleClientConnection (\<lambda>k. False) echo_ops (\<lambda>k. plain_env Linux) 0 opened_client = None"
  by (rule orderly_shutdown_spins) (simp_all add: opened_client_simps(1), simp_all add: opened_client_def plain_socket_def)

text \<open>
  A connection that fails, that asks to be closed, that tries to terminate the server, or that sends
  a command the server does not support, is closed by its own thread, which then returns; the handle
  table keeps its entries and nothing is sent.
\<close>

lemma failed_connection_closes:
  assumes "open_connection c" "\<not> stop k"
    and "(\<exists>e. sk_in (cl_socket c) = [] \<and> sk_end (cl_socket c) = Some e)
      \<or> (\<exists>command i. sk_in (cl_socket c) = command # i
          \<and> (command \<in> set unimplemented \<or> command = CMD_CLOSECONNECTION \<or> command = CMD_TERMINATESERVER))"
  shows "\<exists>c'. handleClientConnection stop ops E k c = Some (Inr c') \<and> sk_closed (cl_socket c')
    \<and> sk_out (cl_socket c') = sk_out (cl_socket c) \<and> cl_state c' = cl_state c"
proof -
  consider (failed) e where "sk_in (cl_socket c) = []" "sk_end (cl_socket c) = Some e"
    | (command) command i where "sk_in (cl_socket c) = command # i"
        "command \<in> set unimplemented \<or> command = CMD_CLOSECONNECTION \<or> command = CMD_TERMINATESERVER"
    using assms(3) by blast
  then show ?thesis
  proof cases
    case failed
    from handleClientConnection_last [of stop k ops E, OF assms(2) connection_round_end(2) [OF assms(1) this]] show ?thesis
      by (simp add: close_client_def os_close_def)
  next
    case (command command i)
    have c: "exchange (command # i) [] c = c"
      using command(1) by (simp add: exchange_def)
    have "dispatchCommand ops (E k) command (exchange i [] c) = Inr (False, exchange i [] c)"
      using command(2) by (rule closing_command)
    then have "connection_round ops (E k) c = Inr (False, close_client (exchange i [] c))"
      using connection_round_command [OF assms(1), of ops "E k" command i "[]"] c by simp
    from handleClientConnection_last [of stop k ops E, OF assms(2) this] show ?thesis
      by (simp add: close_client_def os_close_def exchange_def)
  qed
qed

lemma failed_connection_closes_witness:
  "\<exists>c'. handleClientConnection (\<lambda>k. False) echo_ops (\<lambda>k. plain_env Linux) 0 (exchange [2] [] opened_client) = Some (Inr c')
     \<and> sk_closed (cl_socket c')"
  using failed_connection_closes [of "exchange [2] [] opened_client" "\<lambda>k. False" 0 echo_ops "\<lambda>k. plain_env Linux"]
  by (auto simp: opened_client_simps)

text \<open>
  C17: whatever connections do side by side, the shared handle table keeps its invariant, and a round of one
  connection touches neither the socket nor the name of another one.
\<close>

theorem shared_table_invariant:
  assumes "small_snapshots ops" "server_steps ops (new_server_sys m) s"
  shows "cs_inv (ss_table s)
    \<and> (\<forall>s'. server_step ops s s' \<longrightarrow> (\<exists>i. \<forall>j. j \<noteq> i \<longrightarrow> ss_conns s' j = ss_conns s j))"
proof
  show "cs_inv (ss_table s)"
    using assms(2)
  proof (induction "new_server_sys m" s rule: server_steps.induct)
    case none
    show ?case by (simp add: new_server_sys_def cs_inv_new)
  next
    case (more s' s'')
    with server_step_inv [OF assms(1)] show ?case by blast
  qed
  show "\<forall>s'. server_step ops s s' \<longrightarrow> (\<exists>i. \<forall>j. j \<noteq> i \<longrightarrow> ss_conns s' j = ss_conns s j)"
    by (intro allI impI, erule server_stepE) auto
qed

theorem shared_table_invariant_witness:
  "\<exists>s. server_steps echo_ops (new_server_sys 0) s \<and> ss_conns s 0 = Some (plain_socket, '''') \<and> cs_inv (ss_table s)"
proof -
  let ?s = "(new_server_sys (0 :: nat))\<lparr>ss_conns := (ss_conns (new_server_sys (0 :: nat)))(0 \<mapsto> (plain_socket, ''''))\<rparr>"
  have steps: "server_steps echo_ops (new_server_sys 0) ?s"
    by (rule server_steps.more [OF server_steps.none server_step.accepted]) (simp add: new_server_sys_def)
  have "small_snapshots echo_ops"
    by (simp add: small_snapshots_def echo_ops_def)
  from shared_table_invariant [OF this steps] steps show ?thesis by fastforce
qed

text \<open>
  The program serves clients even when its socket could not be bound: \<open>main\<close> ignores the result of
  \<open>Server::init\<close> and goes on to listen. It exits with code 1, after the adapter's destructor, exactly
  when the adapter could not be initialised or the socket does not listen.
\<close>

lemma main_outcome:
  "main api so w path file D =
     (case init api w (new_Memory path file D) of
        (False, M) \<Rightarrow> Exit 1 (delete_Memory api M)
      | (True, M) \<Rightarrow>
          (if so_listen so = 0
           then Serving (new_Server\<lparr>sv_bound := (so_reuseaddr so = 0 \<and> so_bind so = 0), sv_listening := True, sv_serverThread := Running\<rparr>) M
           else Exit 1 (delete_Memory api M)))"
  by (cases "init api w (new_Memory path file D)") (simp add: main_def Server_init_def Server_start_def new_Server_def)

text \<open>
  \<open>bStop\<close> ends the loop of a connection: the round in which it is found set is the last one, whatever the peer sent and
  however its requests were answered. (A thread that waits in \<open>recv\<close> gets to that round only when
  the call returns.)
\<close>

lemma stop_ends_connection:
  assumes "stop j" "k \<le> j"
  shows "\<exists>r. handleClientConnection stop ops E k c = Some r"
  using assms(2)
proof (induction k arbitrary: c rule: inc_induct)
  case base
  show ?case using handleClientConnection_stop [of stop j] assms(1) by blast
next
  case (step k)
  then show ?case
    by (subst handleClientConnection.simps) (auto split: sum.split prod.split)
qed

text \<open>
  The accepting thread gives every connection on which \<open>TCP_NODELAY\<close> could be set one thread, in the order of
  arrival, closes the others, and ignores null results; after \<open>stop\<close> it accepts nothing.
\<close>

lemma connections_accepted:
  assumes "\<not> sv_bStop sv"
  shows "accept_loop as sv = sv\<lparr>
      sv_clientThreads := sv_clientThreads sv
        @ concat (map (\<lambda>a. case a of Nullptr \<Rightarrow> [] | Connection s r \<Rightarrow> (if r = 0 then [s] else [])) as),
      sv_refused := sv_refused sv
        @ concat (map (\<lambda>a. case a of Nullptr \<Rightarrow> [] | Connection s r \<Rightarrow> (if r = 0 then [] else [os_close s])) as)\<rparr>
    \<and> accept_loop as (Server_stop sv) = Server_stop sv"
proof
  show "accept_loop as (Server_stop sv) = Server_stop sv"
    by (cases as) (simp_all add: Server_stop_def)
  show "accept_loop as sv = sv\<lparr>
      sv_clientThreads := sv_clientThreads sv
        @ concat (map (\<lambda>a. case a of Nullptr \<Rightarrow> [] | Connection s r \<Rightarrow> (if r = 0 then [s] else [])) as),
      sv_refused := sv_refused sv
        @ concat (map (\<lambda>a. case a of Nullptr \<Rightarrow> [] | Connection s r \<Rightarrow> (if r = 0 then [] else [os_close s])) as)\<rparr>"
    using assms by (induction as sv rule: accept_loop.induct) (auto split: accepted.split)
qed

text \<open>
  C40: a program that serves is ready to: it has probed the device for its physical memory, freed the answer and closed that
  handle again, holds an open device handle and a running dispatch thread that nobody has stopped, and its socket
  listens. The text for the memory map file has one line per range of the device's answer, in its order. Whether the
  file holds it is another matter, because the stream is never checked: when the file could not be opened, the
  program serves with no file or the one of an earlier run, and when writing failed, with a part of the text. Neither
  is it sure that the socket was bound to the port: \<open>main\<close> ignores the result of \<open>Server::init\<close>.
\<close>

theorem serving_program_ready:
  assumes "main api so w path file D = Serving sv M"
  shows "hVMM M \<noteq> 0 \<and> dispatchThread M = Running \<and> \<not> bStop M \<and> mmapPath M = path
    \<and> sv_listening sv \<and> sv_serverThread sv = Running \<and> sv_bound sv = (so_reuseaddr so = 0 \<and> so_bind so = 0)
    \<and> (\<exists>h D1 m D2.
        VMMDLL_Initialize api D ['''', ''-v'', ''-printf'', ''-device'', ''fpga://algo=0''] = (h, D1)
      \<and> VMMDLL_Map_GetPhysMem api D1 h = (True, m, D2)
      \<and> dwVersion m = VMMDLL_MAP_PHYSMEM_VERSION api \<and> pMap m \<noteq> []
      \<and> mmapFile M = (let txt = concat (map (\<lambda>(k, e). map_line True k e) (enumerate 0 (pMap m))) in
          case w of Not_opened \<Rightarrow> file | Cut_short n \<Rightarrow> Some (take n txt) | Written \<Rightarrow> Some txt)
      \<and> VMMDLL_Initialize api (VMMDLL_Close api (VMMDLL_MemFree D2 PhysMemMap) h)
          [''-printf'', ''-v'', ''-device'', ''fpga'', ''-memmap'', path] = (hVMM M, device M)
      \<and> calls (device M) = calls D
          @ [Call_Initialize ['''', ''-v'', ''-printf'', ''-device'', ''fpga://algo=0''] h, Call_Map_GetPhysMem h,
             Call_MemFree PhysMemMap, Call_Close h,
             Call_Initialize [''-printf'', ''-v'', ''-device'', ''fpga'', ''-memmap'', path] (hVMM M)])"
proof -
  have started: "init api w (new_Memory path file D) = (True, M)" "so_listen so = 0"
      "sv = new_Server\<lparr>sv_bound := (so_reuseaddr so = 0 \<and> so_bind so = 0), sv_listening := True, sv_serverThread := Running\<rparr>"
    using assms by (auto simp: main_outcome split: prod.splits bool.splits if_splits)
  have fresh: "dispatchThread (new_Memory path file D) = Null" "mmapPath (new_Memory path file D) = path"
      "device (new_Memory path file D) = D" "mmapFile (new_Memory path file D) = file"
    by (simp_all add: new_Memory_def)
  from init_calls [OF started(1)] obtain h D1 m D2 where calls:
      "VMMDLL_Initialize api D ['''', ''-v'', ''-printf'', ''-device'', ''fpga://algo=0''] = (h, D1)"
      "VMMDLL_Map_GetPhysMem api D1 h = (True, m, D2)"
      "dwVersion m = VMMDLL_MAP_PHYSMEM_VERSION api" "pMap m \<noteq> []"
      "mmapFile M = ofstream_write w file (map_text (pMap m))" "mmapPath M = path"
      "VMMDLL_Initialize api (VMMDLL_Close api (VMMDLL_MemFree D2 PhysMemMap) h) [''-printf'', ''-v'', ''-device'', ''fpga'', ''-memmap'', path] = (hVMM M, device M)"
      "calls (device M) = calls D
         @ [Call_Initialize ['''', ''-v'', ''-printf'', ''-device'', ''fpga://algo=0''] h,
             Call_Map_GetPhysMem h, Call_MemFree PhysMemMap, Call_Close h,
             Call_Initialize [''-printf'', ''-v'', ''-device'', ''fpga'', ''-memmap'', path] (hVMM M)]"
    unfolding fresh by metis
  note ready = init_success [OF started(1) fresh(1)]
  show ?thesis
    by (intro conjI; (rule exI [of _ h], rule exI [of _ D1], rule exI [of _ m], rule exI [of _ D2])?)
      (simp_all add: ready started(3) calls map_text_def ofstream_write_def Let_def)
qed

theorem serving_program_ready_witness:
  "\<exists>sv M. main flat_api \<lparr>so_reuseaddr = 0, so_bind = - 1, so_listen = 0\<rparr> Written ''mmap.txt'' None flat_device = Serving sv M
     \<and> hVMM M \<noteq> 0 \<and> dispatchThread M = Running \<and> \<not> sv_bound sv"
proof -
  let ?so = "\<lparr>so_reuseaddr = 0, so_bind = - 1, so_listen = 0\<rparr>"
  obtain sv M where m: "main flat_api ?so Written ''mmap.txt'' None flat_device = Serving sv M"
    by (simp add: main_outcome flat_init)
  from serving_program_ready [OF m] m show ?thesis by auto
qed

end
