(* ===== verification/Walks.thy ===== *)
theory Walks
  imports Server
begin

text \<open>
  Taking a snapshot and walking it over a connection, from the snapshot command to the closing of the handle.
  The two kinds of snapshots, processes and modules, are served alike: the locale \<open>served_cursor\<close> extends the
  interface of a table with cursors by what the connection's rounds do with it, and has the two as
  instances.
\<close>


section \<open>Rounds of a walk\<close>

definition next_requests :: "byte \<Rightarrow> handle \<Rightarrow> nat \<Rightarrow> byte list" where
  "next_requests command h n = concat (replicate n (command # le_bytes 4 h))"

lemma next_requests_simps [simp]:
  "next_requests command h 0 = []"
  "next_requests command h (Suc n) = command # le_bytes 4 h @ next_requests command h n"
  by (simp_all add: next_requests_def)

locale served_cursor = cursor_table store nxt reset close contains invar cursor
  for store :: "client_state \<Rightarrow> 'a list \<Rightarrow> handle \<Rightarrow> client_state"
    and nxt :: "client_state \<Rightarrow> handle \<Rightarrow> 'a option \<times> client_state"
    and reset :: "client_state \<Rightarrow> handle \<Rightarrow> client_state"
    and close :: "client_state \<Rightarrow> handle \<Rightarrow> client_state"
    and contains :: "client_state \<Rightarrow> handle \<Rightarrow> bool"
    and invar :: "client_state \<Rightarrow> bool"
    and cursor :: "client_state \<Rightarrow> handle \<rightharpoonup> 'a list \<times> nat" +
  fixes ops :: "'m memory_ops"
    and cmd_first :: byte and cmd_next :: byte
    and reply :: "'a option \<Rightarrow> byte list"
    and selects :: "u32 \<Rightarrow> bool"
    and snapshot :: "'m \<Rightarrow> pid \<Rightarrow> fault + ('a list \<times> 'm)"
  assumes serve_first: "open_connection c \<Longrightarrow> contains (cl_state c) h \<Longrightarrow> nxt (reset (cl_state c) h) h = (x, st) \<Longrightarrow>
      connection_round ops E (exchange (cmd_first # le_bytes 4 h @ rest) out c)
        = Inr (True, exchange rest (out @ reply x) (c\<lparr>cl_state := st\<rparr>))"
    and serve_next: "open_connection c \<Longrightarrow> contains (cl_state c) h \<Longrightarrow> nxt (cl_state c) h = (x, st) \<Longrightarrow>
      connection_round ops E (exchange (cmd_next # le_bytes 4 h @ rest) out c)
        = Inr (True, exchange rest (out @ reply x) (c\<lparr>cl_state := st\<rparr>))"
    and serve_snapshot: "open_connection c \<Longrightarrow> selects flags \<Longrightarrow> snapshot (cl_memory c) p = Inr (xs, m) \<Longrightarrow>
      generateHandle (cl_state c) = (h, st) \<Longrightarrow>
      connection_round ops E (exchange (CMD_CREATETOOLHELP32SNAPSHOT # le_bytes 4 flags @ le_bytes 4 p @ rest) out c)
        = Inr (True, exchange rest (out @ le_bytes 4 h) (c\<lparr>cl_memory := m, cl_state := store st xs h\<rparr>))"
    and serve_close: "open_connection c \<Longrightarrow>
      connection_round ops E (exchange (CMD_CLOSEHANDLE # le_bytes 4 h @ rest) out c)
        = Inr (True, exchange rest (out @ le_bytes 4 (1 :: u32)) (c\<lparr>cl_state := close (cl_state c) h\<rparr>))"
    and draw: "generateHandle st = (h, st') \<Longrightarrow> invar st \<Longrightarrow> invar st' \<and> cursor st' = cursor st"
begin

lemma next_rounds:
  assumes "open_connection c" "invar (cl_state c)" "cursor (cl_state c) h \<noteq> None"
    and "repeat_call (\<lambda>st. nxt st h) n (cl_state c) = (xs, st)" "\<forall>j < k + n. \<not> stop j"
  shows "handleClientConnection stop ops E k (exchange (next_requests cmd_next h n @ rest) out c)
    = handleClientConnection stop ops E (k + n) (exchange rest (out @ concat (map reply xs)) (c\<lparr>cl_state := st\<rparr>))"
  using assms
proof (induction n arbitrary: c k out xs)
  case 0
  then show ?case by auto
next
  case (Suc n)
  obtain x st1 where x: "nxt (cl_state c) h = (x, st1)"
    by fastforce
  obtain ys where ys: "repeat_call (\<lambda>st. nxt st h) n st1 = (ys, st)" "xs = x # ys"
    using Suc.prems(4) x by (auto simp: Let_def split: prod.splits)
  let ?c = "c\<lparr>cl_state := st1\<rparr>"
  have after: "invar st1" "cursor st1 h \<noteq> None"
    using next_invar [OF Suc.prems(2) x] next_cursor [OF Suc.prems(2) x] Suc.prems(3) by simp_all
  have "connection_round ops (E k) (exchange (next_requests cmd_next h (Suc n) @ rest) out c)
      = Inr (True, exchange (next_requests cmd_next h n @ rest) (out @ reply x) ?c)"
    using serve_next [OF Suc.prems(1) _ x] Suc.prems(3) by (simp add: contains_cursor)
  then have "handleClientConnection stop ops E k (exchange (next_requests cmd_next h (Suc n) @ rest) out c)
      = handleClientConnection stop ops E (Suc k) (exchange (next_requests cmd_next h n @ rest) (out @ reply x) ?c)"
    using Suc.prems(5) by (intro handleClientConnection_step) simp_all
  also have "\<dots> = handleClientConnection stop ops E (Suc k + n)
      (exchange rest ((out @ reply x) @ concat (map reply ys)) (?c\<lparr>cl_state := st\<rparr>))"
    using Suc.prems(1,5) after ys(1) by (intro Suc.IH) simp_all
  finally show ?case
    using ys(2) by simp
qed

lemma walk_rounds:
  assumes conn: "open_connection c" and inv: "invar (cl_state c)" and cur: "cursor (cl_state c) h = Some (xs, i)"
    and len: "length xs + extra = Suc n" and go: "\<forall>j < Suc (k + n). \<not> stop j"
  shows "\<exists>st. handleClientConnection stop ops E k (exchange (next_requests cmd_first h 1 @ next_requests cmd_next h n @ rest) out c)
      = handleClientConnection stop ops E (Suc (k + n))
          (exchange rest (out @ concat (map (reply \<circ> Some) xs) @ concat (replicate extra (reply None))) (c\<lparr>cl_state := st\<rparr>))
    \<and> invar st \<and> cursor st = (cursor (cl_state c))(h \<mapsto> (xs, length xs))"
proof -
  let ?st0 = "reset (cl_state c) h"
  obtain st where walk: "repeat_call (\<lambda>st. nxt st h) (Suc n) ?st0 = (map Some xs @ replicate extra None, st)"
      and st: "invar st" "cursor st = (cursor (cl_state c))(h \<mapsto> (xs, length xs))"
    using walk [OF inv cur, of extra] len by auto
  obtain x st1 where x: "nxt ?st0 h = (x, st1)"
    by fastforce
  obtain ys where ys: "repeat_call (\<lambda>st. nxt st h) n st1 = (ys, st)" "map Some xs @ replicate extra None = x # ys"
    using walk x by (auto simp: Let_def split: prod.splits)
  have reset: "invar ?st0" "cursor ?st0 h \<noteq> None"
    using reset_cursor [OF inv cur] by simp_all
  have after: "invar st1" "cursor st1 h \<noteq> None"
    using next_invar [OF reset(1) x] next_cursor [OF reset(1) x] reset(2) by simp_all
  let ?c = "c\<lparr>cl_state := st1\<rparr>"
  have "connection_round ops (E k) (exchange (next_requests cmd_first h 1 @ next_requests cmd_next h n @ rest) out c)
      = Inr (True, exchange (next_requests cmd_next h n @ rest) (out @ reply x) ?c)"
    using serve_first [OF conn _ x] cur by (simp add: contains_cursor)
  then have "handleClientConnection stop ops E k (exchange (next_requests cmd_first h 1 @ next_requests cmd_next h n @ rest) out c)
      = handleClientConnection stop ops E (Suc k) (exchange (next_requests cmd_next h n @ rest) (out @ reply x) ?c)"
    using go by (intro handleClientConnection_step) simp_all
  also have "\<dots> = handleClientConnection stop ops E (Suc k + n)
      (exchange rest ((out @ reply x) @ concat (map reply ys)) (?c\<lparr>cl_state := st\<rparr>))"
    using conn after ys(1) go by (intro next_rounds) simp_all
  also have "(out @ reply x) @ concat (map reply ys) = out @ concat (map (reply \<circ> Some) xs) @ concat (replicate extra (reply None))"
    using arg_cong [OF ys(2), of "\<lambda>zs. concat (map reply zs)"] by simp
  finally show ?thesis
    using st by auto
qed

text \<open>A whole session: snapshot, walk, close. The table's snapshots are then what they were before.\<close>

lemma session:
  assumes conn: "open_connection c" and inv: "invar (cl_state c)" and sel: "selects flags"
    and snap: "snapshot (cl_memory c) p = Inr (xs, m)" "length xs < 2 ^ 31" "length xs + extra = Suc n"
    and h: "generateHandle (cl_state c) = (h, st0)" "cursor (cl_state c) h = None" and stop: "\<forall>j. stop j \<longleftrightarrow> n + 3 \<le> j"
  shows "\<exists>st. handleClientConnection stop ops E 0
      (exchange (CMD_CREATETOOLHELP32SNAPSHOT # le_bytes 4 flags @ le_bytes 4 p @ next_requests cmd_first h 1
         @ next_requests cmd_next h n @ CMD_CLOSEHANDLE # le_bytes 4 h @ rest) out c)
    = Some (Inr (exchange rest
        (out @ le_bytes 4 h @ concat (map (reply \<circ> Some) xs) @ concat (replicate extra (reply None)) @ le_bytes 4 (1 :: u32))
        (c\<lparr>cl_memory := m, cl_state := st\<rparr>)))
    \<and> invar st \<and> cursor st = cursor (cl_state c)"
proof -
  let ?reqs = "next_requests cmd_first h 1 @ next_requests cmd_next h n @ CMD_CLOSEHANDLE # le_bytes 4 h @ rest"
  let ?c1 = "c\<lparr>cl_memory := m, cl_state := store st0 xs h\<rparr>"
  let ?out = "out @ le_bytes 4 h @ concat (map (reply \<circ> Some) xs) @ concat (replicate extra (reply None))"
  have drawn: "invar st0" "cursor st0 = cursor (cl_state c)"
    using draw [OF h(1) inv] by simp_all
  then have stored: "invar (store st0 xs h)" "cursor (store st0 xs h) = (cursor (cl_state c))(h \<mapsto> (xs, 0))"
    using store_fresh [OF drawn(1), of h xs] snap(2) h(2) by simp_all
  have "handleClientConnection stop ops E 0
      (exchange (CMD_CREATETOOLHELP32SNAPSHOT # le_bytes 4 flags @ le_bytes 4 p @ ?reqs) out c)
    = handleClientConnection stop ops E (Suc 0) (exchange ?reqs (out @ le_bytes 4 h) ?c1)"
    using stop by (intro handleClientConnection_step serve_snapshot [OF conn sel snap(1) h(1)]) simp
  moreover obtain st1 where st1: "handleClientConnection stop ops E (Suc 0) (exchange ?reqs (out @ le_bytes 4 h) ?c1)
      = handleClientConnection stop ops E (Suc (Suc 0 + n))
          (exchange (CMD_CLOSEHANDLE # le_bytes 4 h @ rest) ?out (?c1\<lparr>cl_state := st1\<rparr>))"
      "invar st1" "cursor st1 = (cursor (cl_state c))(h \<mapsto> (xs, length xs))"
    using walk_rounds [of ?c1 h xs 0 extra n "Suc 0" stop E "CMD_CLOSEHANDLE # le_bytes 4 h @ rest" "out @ le_bytes 4 h"]
      conn stored snap(3) stop by auto
  moreover have "handleClientConnection stop ops E (Suc (Suc 0 + n))
      (exchange (CMD_CLOSEHANDLE # le_bytes 4 h @ rest) ?out (?c1\<lparr>cl_state := st1\<rparr>))
    = handleClientConnection stop ops E (n + 3) (exchange rest (?out @ le_bytes 4 (1 :: u32)) (?c1\<lparr>cl_state := close st1 h\<rparr>))"
    using stop conn by (subst handleClientConnection_step [OF _ serve_close]) (simp_all add: numeral_3_eq_3)
  moreover have "handleClientConnection stop ops E (n + 3) c' = Some (Inr c')" for c'
    using stop by (simp add: handleClientConnection_stop)
  moreover have "invar (close st1 h)" "cursor (close st1 h) = cursor (cl_state c)"
    using close_cursor [OF st1(2), of h] st1(3) h(2) by (auto simp: fun_upd_idem)
  ultimately show ?thesis
    by (intro exI [of _ "close st1 h"]) simp
qed

end


section \<open>Processes and modules\<close>

lemma round_simps:
  "open_connection c \<Longrightarrow> dispatchCommand ops E command (exchange i out c) = Inr (True, c') \<Longrightarrow>
    connection_round ops E (exchange (command # i) out c) = Inr (True, c')"
  by (simp add: connection_round_command)

lemma generateHandle_cursors:
  assumes "generateHandle st = (h, st')" "cs_inv st"
  shows "cs_inv st'" "process_cursor st' = process_cursor st" "module_cursor st' = module_cursor st"
  using assms by (auto simp: generateHandle_def cs_inv_def process_cursor_def module_cursor_def Let_def fun_eq_iff)

interpretation process_walks: served_cursor
  "\<lambda>st xs h. snd (storeProcessSnapshot_at st xs h)" nextProcessInfo resetProcessIterator closeHandle
  containsProcessInfoHandle cs_inv process_cursor ops CMD_PROCESS32FIRST CMD_PROCESS32NEXT process_reply
  "\<lambda>flags. flags AND TH32CS_SNAPPROCESS \<noteq> 0" "\<lambda>m p. mo_getProcessSnapshot ops m" for ops :: "'m memory_ops"
proof (unfold_locales, goal_cases)
  case (1 c h x st E rest out)
  then show ?case
    by (intro round_simps) (simp_all add: dispatchCommand_def IterateProcesses_exchange)
next
  case (2 c h x st E rest out)
  then show ?case
    by (intro round_simps) (simp_all add: dispatchCommand_def IterateProcesses_exchange)
next
  case (3 c flags p xs m h st E rest out)
  then show ?case
    by (intro round_simps) (simp_all add: dispatchCommand_def ToolHelp32Snapshot_exchange storeProcessSnapshot_def storeProcessSnapshot_at_def kept_open_def)
next
  case (4 c E h rest out)
  then show ?case
    by (intro round_simps) (simp_all add: dispatchCommand_def CloseHandle_exchange)
next
  case (5 st h st')
  then show ?case using generateHandle_cursors by blast
qed

interpretation module_walks: served_cursor
  "\<lambda>st xs h. snd (storeModuleSnapshot_at st xs h)" nextMemoryRegion resetModuleIterator closeHandle
  containsMemoryRegionHandle cs_inv module_cursor ops CMD_MODULE32FIRST CMD_MODULE32NEXT module_reply
  "\<lambda>flags. flags AND TH32CS_SNAPPROCESS = 0 \<and> flags AND TH32CS_SNAPMODULE \<noteq> 0"
  "\<lambda>m p. Inr (mo_getModuleSnapshot ops m p)" for ops :: "'m memory_ops"
proof (unfold_locales, goal_cases)
  case (1 c h x st E rest out)
  then show ?case
    by (intro round_simps) (simp_all add: dispatchCommand_def IterateModules_exchange)
next
  case (2 c h x st E rest out)
  then show ?case
    by (intro round_simps) (simp_all add: dispatchCommand_def IterateModules_exchange)
next
  case (3 c flags p xs m h st E rest out)
  then show ?case
    by (intro round_simps) (simp_all add: dispatchCommand_def ToolHelp32Snapshot_exchange storeModuleSnapshot_def storeModuleSnapshot_at_def kept_open_def)
next
  case (4 c E h rest out)
  then show ?case
    by (intro round_simps) (simp_all add: dispatchCommand_def CloseHandle_exchange)
next
  case (5 st h st')
  then show ?case using generateHandle_cursors by blast
qed

section \<open>Properties\<close>

text \<open>
  A client lists the processes. It takes a snapshot with \<open>CMD_CREATETOOLHELP32SNAPSHOT\<close>, walks it with
  \<open>CMD_PROCESS32FIRST\<close> and any number of \<open>CMD_PROCESS32NEXT\<close>, and closes the handle. The connection's loop
  consumes exactly these requests; it answers with the new handle, the processes that the adapter
  found, in order and each once, an end-of-list entry for every further request, and the confirmation
  of the close. Afterwards the table's snapshots and positions are what they were before.
\<close>

lemma process_list_session:
  assumes "open_connection c" "cs_inv (cl_state c)" "flags AND TH32CS_SNAPPROCESS \<noteq> 0"
    and "mo_getProcessSnapshot ops (cl_memory c) = Inr (ps, m)" "length ps < 2 ^ 31" "length ps + extra = Suc n"
    and "unat (lastHandleID (cl_state c)) < 2 ^ 31 - 1" "h = lastHandleID (cl_state c) + 1" "process_cursor (cl_state c) h = None"
  shows "\<exists>st. handleClientConnection (\<lambda>k. n + 3 \<le> k) ops E 0
      (exchange (CMD_CREATETOOLHELP32SNAPSHOT # le_bytes 4 flags @ le_bytes 4 (p :: pid) @ next_requests CMD_PROCESS32FIRST h 1
         @ next_requests CMD_PROCESS32NEXT h n @ CMD_CLOSEHANDLE # le_bytes 4 h @ rest) out c)
    = Some (Inr (exchange rest
        (out @ le_bytes 4 h @ concat (map (process_reply \<circ> Some) ps) @ concat (replicate extra (process_reply None)) @ le_bytes 4 (1 :: u32))
        (c\<lparr>cl_memory := m, cl_state := st\<rparr>)))
    \<and> cs_inv st \<and> process_cursor st = process_cursor (cl_state c)"
  using process_walks.session [OF assms(1-6) generateHandle_step(1) [OF assms(7), folded assms(8)] assms(9),
      of "\<lambda>k. n + 3 \<le> k" E p rest out] by simp

text \<open>
  A client walks a module snapshot from whatever position it is in: \<open>CMD_MODULE32FIRST\<close> rewinds it, and it and the
  following \<open>CMD_MODULE32NEXT\<close> requests are answered with the regions in order, each once, and an
  end-of-list entry for every further request; no other handle's position moves.
\<close>

lemma module_walk_served:
  assumes "open_connection c" "cs_inv (cl_state c)" "module_cursor (cl_state c) h = Some (rs, i)" "length rs + extra = Suc n"
  shows "\<exists>st. handleClientConnection (\<lambda>k. Suc n \<le> k) ops E 0
      (exchange (next_requests CMD_MODULE32FIRST h 1 @ next_requests CMD_MODULE32NEXT h n @ rest) out c)
    = Some (Inr (exchange rest (out @ concat (map (module_reply \<circ> Some) rs) @ concat (replicate extra (module_reply None)))
        (c\<lparr>cl_state := st\<rparr>)))
    \<and> cs_inv st \<and> module_cursor st = (module_cursor (cl_state c))(h \<mapsto> (rs, length rs))"
  using module_walks.walk_rounds [OF assms, of 0 "\<lambda>k. Suc n \<le> k" ops E rest out]
  by (simp add: handleClientConnection_stop)

text \<open>A connection whose handle 1 names a snapshot of one region, already read to its end.\<close>

definition snapshot_client :: "nat client" where
  "snapshot_client =
     opened_client\<lparr>cl_state := new_ClientState\<lparr>lastHandleID := 1, moduleIter := [(1, 1)],
       handlesToModuleSnapshots := [(1, [MemoryRegion_of flat_vad])]\<rparr>\<rparr>"

lemma snapshot_client_simps:
  "open_connection snapshot_client" "cs_inv (cl_state snapshot_client)"
  "module_cursor (cl_state snapshot_client) 1 = Some ([MemoryRegion_of flat_vad], 1)"
  by (simp_all add: snapshot_client_def opened_client_simps cs_inv_def cursors_ok_def cursor_of_def module_cursor_def
      new_ClientState_def umap_ok_def)

lemma module_walk_served_witness:
  "\<exists>st. handleClientConnection (\<lambda>k. 2 \<le> k) echo_ops (\<lambda>k. plain_env Linux) 0
      (exchange (next_requests CMD_MODULE32FIRST 1 1 @ next_requests CMD_MODULE32NEXT 1 1 @ []) [] snapshot_client)
    = Some (Inr (exchange [] (module_reply (Some (MemoryRegion_of flat_vad)) @ module_reply None)
        (snapshot_client\<lparr>cl_state := st\<rparr>)))"
  using module_walk_served [OF snapshot_client_simps, of 1 1 echo_ops "\<lambda>k. plain_env Linux" "[]" "[]"]
  by (auto simp: numeral_2_eq_2)

end
