(* ===== verification/DispatchLoop.thy ===== *)
theory DispatchLoop
  imports Readers
begin

text \<open>
  The synchronisation of the read path: \<open>Memory::dispatchLoop\<close> statement by statement, with the mutex, the condition
  variable and \<open>bStop\<close>, beside readers in \<open>Memory::read\<close> and a thread in \<open>Memory::shutdown\<close>. The data is that of
  \<open>Readers\<close>, and a run of this system is a run of that one: what is proved there holds here. On top of it: the
  dispatch thread never sleeps on a non-empty backlog and never looks into an empty one, always gets to the
  next batch, and stops after \<open>shutdown\<close> except in one window, where the wake-up is lost.
\<close>


section \<open>The back-off\<close>

text \<open>
  Nanoseconds. A round of the loop reads the size of the backlog and, as the conjunction is evaluated from
  the left, up to two clock readings; \<open>backoff\<close> counts the rounds that sleep. The list holds what
  the successive rounds would read.
\<close>

definition DMA_MAX_BACKLOG_BUILD_TIME_NS :: int where
  "DMA_MAX_BACKLOG_BUILD_TIME_NS = 2 * 1000000"

definition DMA_BACKOFF_TIMER_EXTEND_NS :: int where
  "DMA_BACKOFF_TIMER_EXTEND_NS = 1000000 div 2"

record backoff_round =
  bo_size :: nat
  bo_now :: int
  bo_now2 :: int

fun backoff :: "int \<Rightarrow> int \<Rightarrow> backoff_round list \<Rightarrow> nat option" where
  "backoff nextDispatchTime lastDispatchTime [] = None"
| "backoff nextDispatchTime lastDispatchTime (r # rs) =
     (if bo_size r < MAX_DISPATCH_SIZE \<and> nextDispatchTime > bo_now r
         \<and> bo_now2 r - lastDispatchTime < DMA_MAX_BACKLOG_BUILD_TIME_NS
      then map_option Suc (backoff nextDispatchTime lastDispatchTime rs) else Some 0)"

text \<open>
  A clock that does not run backwards: the readings of a round are in order, and a sleep takes at least
  its duration.
\<close>

fun backoff_clock :: "int \<Rightarrow> backoff_round list \<Rightarrow> bool" where
  "backoff_clock t [] = True"
| "backoff_clock t (r # rs) =
     (t \<le> bo_now r \<and> bo_now r \<le> bo_now2 r
      \<and> backoff_clock (bo_now2 r + DMA_MAX_BACKLOG_BUILD_TIME_NS) rs)"


section \<open>Threads\<close>

text \<open>
  The places of the dispatch thread, named after the statement it executes next. \<open>Blocked\<close> is inside
  \<open>backlogPush.wait\<close> with the mutex released, \<open>Woken\<close> is on its way out, before it has the mutex again.
\<close>

datatype place =
    At_while | At_lock | At_empty | At_wait_lock | At_predicate | At_block | Blocked | Woken
  | At_backoff | At_relock | At_batch | At_dispatch | Exited

datatype shutdown_place = Not_called | At_notify | At_join | Joined

record 'd sync_sys =
  sy_data :: "'d read_sys"
  sy_locked :: bool
  sy_bStop :: bool
  sy_place :: place
  sy_shutdown :: shutdown_place

definition new_sync_sys :: "'d device \<Rightarrow> 'd sync_sys" where
  "new_sync_sys D =
     \<lparr>sy_data = new_read_sys D, sy_locked = False, sy_bStop = False, sy_place = At_while, sy_shutdown = Not_called\<rparr>"

definition notify_all :: "'d sync_sys \<Rightarrow> 'd sync_sys" where
  "notify_all s = (if sy_place s = Blocked then s\<lparr>sy_place := Woken\<rparr> else s)"

text \<open>
  The dispatch thread. \<open>sy_locked\<close> says that it holds the mutex: readers take and release it within one step.
  The step \<open>device\<close> is a device access of \<open>dispatch\<close> as in \<open>read_step\<close>.
\<close>

inductive dispatcher_step :: "'d vmmdll \<Rightarrow> vmm_handle \<Rightarrow> 'd sync_sys \<Rightarrow> 'd sync_sys \<Rightarrow> bool"
  for api :: "'d vmmdll" and h :: vmm_handle where
  test_stop: "sy_place s = At_while \<Longrightarrow>
    dispatcher_step api h s (s\<lparr>sy_place := (if sy_bStop s then Exited else At_lock)\<rparr>)"
| lock: "sy_place s = At_lock \<Longrightarrow>
    dispatcher_step api h s (s\<lparr>sy_locked := True, sy_place := At_empty\<rparr>)"
| test_empty: "sy_place s = At_empty \<Longrightarrow>
    dispatcher_step api h s
      (s\<lparr>sy_locked := False, sy_place := (if rs_backlog (sy_data s) = [] then At_wait_lock else At_backoff)\<rparr>)"
| wait_lock: "sy_place s = At_wait_lock \<Longrightarrow>
    dispatcher_step api h s (s\<lparr>sy_locked := True, sy_place := At_predicate\<rparr>)"
| satisfied: "sy_place s = At_predicate \<Longrightarrow> sy_bStop s \<or> rs_backlog (sy_data s) \<noteq> [] \<Longrightarrow>
    dispatcher_step api h s (s\<lparr>sy_locked := False, sy_place := At_while\<rparr>)"
| unsatisfied: "sy_place s = At_predicate \<Longrightarrow> \<not> sy_bStop s \<Longrightarrow> rs_backlog (sy_data s) = [] \<Longrightarrow>
    dispatcher_step api h s (s\<lparr>sy_place := At_block\<rparr>)"
| block: "sy_place s = At_block \<Longrightarrow>
    dispatcher_step api h s (s\<lparr>sy_locked := False, sy_place := Blocked\<rparr>)"
| wake: "sy_place s = Woken \<Longrightarrow>
    dispatcher_step api h s (s\<lparr>sy_locked := True, sy_place := At_predicate\<rparr>)"
| back_off: "sy_place s = At_backoff \<Longrightarrow> dispatcher_step api h s (s\<lparr>sy_place := At_relock\<rparr>)"
| relock: "sy_place s = At_relock \<Longrightarrow>
    dispatcher_step api h s (s\<lparr>sy_locked := True, sy_place := At_batch\<rparr>)"
| batch: "sy_place s = At_batch \<Longrightarrow> rs_backlog (sy_data s) \<noteq> [] \<Longrightarrow> mset order = mset (rs_backlog (sy_data s)) \<Longrightarrow>
    dispatcher_step api h s
      (s\<lparr>sy_data := dispatch_round (sy_data s) order, sy_locked := False, sy_place := At_dispatch\<rparr>)"
| device: "sy_place s = At_dispatch \<Longrightarrow> rs_phase (sy_data s) \<noteq> Idle \<Longrightarrow> read_step api h (sy_data s) d \<Longrightarrow>
    rs_waiting d = rs_waiting (sy_data s) \<Longrightarrow> dispatcher_step api h s (s\<lparr>sy_data := d\<rparr>)"
| dispatched: "sy_place s = At_dispatch \<Longrightarrow> rs_phase (sy_data s) = Idle \<Longrightarrow>
    dispatcher_step api h s (s\<lparr>sy_place := At_while\<rparr>)"

text \<open>
  Readers: the section under the mutex, which notifies the condition variable when it has added an item, and
  the rest of \<open>Memory::read\<close>.
\<close>

inductive reader_step :: "'d vmmdll \<Rightarrow> vmm_handle \<Rightarrow> 'd sync_sys \<Rightarrow> 'd sync_sys \<Rightarrow> bool"
  for api :: "'d vmmdll" and h :: vmm_handle where
  push: "\<not> sy_locked s \<Longrightarrow> rs_waiting (sy_data s) t = None \<Longrightarrow> read_enqueue (sy_data s) p a n = (i, d) \<Longrightarrow>
    s' = s\<lparr>sy_data := d\<lparr>rs_waiting := (rs_waiting (sy_data s))(t \<mapsto> \<lparr>rd_pid = p, rd_address = a, rd_size = n, rd_item = i\<rparr>)\<rparr>\<rparr> \<Longrightarrow>
    reader_step api h s (if umap_contains (rs_backlog (sy_data s)) (backlog_key p a n) then s' else notify_all s')"
| return: "rs_waiting (sy_data s) t = Some rd \<Longrightarrow> read_finish (sy_data s) rd = Inr (v, d) \<Longrightarrow>
    reader_step api h s
      (s\<lparr>sy_data := d\<lparr>rs_waiting := (rs_waiting (sy_data s))(t := None), rs_done := (rs_done (sy_data s))(t \<mapsto> (rd, v))\<rparr>\<rparr>)"

text \<open>\<open>Memory::shutdown\<close>, which takes no lock.\<close>

inductive shutdown_step :: "'d sync_sys \<Rightarrow> 'd sync_sys \<Rightarrow> bool" where
  set_stop: "sy_shutdown s = Not_called \<Longrightarrow> shutdown_step s (s\<lparr>sy_bStop := True, sy_shutdown := At_notify\<rparr>)"
| notify: "sy_shutdown s = At_notify \<Longrightarrow> shutdown_step s (notify_all (s\<lparr>sy_shutdown := At_join\<rparr>))"
| join: "sy_shutdown s = At_join \<Longrightarrow> sy_place s = Exited \<Longrightarrow> shutdown_step s (s\<lparr>sy_shutdown := Joined\<rparr>)"

text \<open>All of them, in any order; a wait may also end without a notification.\<close>

inductive sync_steps :: "'d vmmdll \<Rightarrow> vmm_handle \<Rightarrow> 'd sync_sys \<Rightarrow> 'd sync_sys \<Rightarrow> bool"
  for api :: "'d vmmdll" and h :: vmm_handle where
  start: "sync_steps api h s s"
| dispatcher: "sync_steps api h s s' \<Longrightarrow> dispatcher_step api h s' s'' \<Longrightarrow> sync_steps api h s s''"
| reader: "sync_steps api h s s' \<Longrightarrow> reader_step api h s' s'' \<Longrightarrow> sync_steps api h s s''"
| shutdown: "sync_steps api h s s' \<Longrightarrow> shutdown_step s' s'' \<Longrightarrow> sync_steps api h s s''"
| spurious: "sync_steps api h s s' \<Longrightarrow> sy_place s' = Blocked \<Longrightarrow> sync_steps api h s (s'\<lparr>sy_place := Woken\<rparr>)"

section \<open>A run of the threads of the read path\<close>

lemma read_enqueue_parts:
  assumes "read_enqueue d p a n = (i, d')"
  shows "rs_phase d' = rs_phase d" "rs_waiting d' = rs_waiting d" "rs_backlog d' \<noteq> []"
    "umap_contains (rs_backlog d) (backlog_key p a n) \<Longrightarrow> d' = d"
  using assms by (auto simp: read_enqueue_def umap_contains_def umap_assign_def Let_def update_nonempty split: option.splits)

lemma read_finish_parts:
  assumes "read_finish d rd = Inr (v, d')"
  shows "rs_phase d' = rs_phase d" "rs_backlog d' = rs_backlog d" "rs_waiting d' = rs_waiting d"
  using assms by (auto simp: read_finish_def split: sum.splits prod.splits if_splits)

lemma device_step_parts:
  assumes "read_step api h d d'" "rs_waiting d' = rs_waiting d" "rs_phase d \<noteq> Idle"
  shows "rs_backlog d' = rs_backlog d"
    "case rs_phase d of Idle \<Rightarrow> True | Releasing b \<Rightarrow> rs_phase d' = Idle
      | Dispatching p batch \<Rightarrow> rs_phase d' = Idle \<or> (\<exists>b. rs_phase d' = Releasing b)"
  using assms by (cases; auto dest: fun_cong simp: fun_eq_iff split: if_splits)+

lemma notify_all_simps [simp]:
  "sy_data (notify_all s) = sy_data s" "sy_locked (notify_all s) = sy_locked s"
  "sy_bStop (notify_all s) = sy_bStop s" "sy_shutdown (notify_all s) = sy_shutdown s"
  "sy_place (notify_all s) = (if sy_place s = Blocked then Woken else sy_place s)"
  by (simp_all add: notify_all_def)

definition holds_mutex :: "place \<Rightarrow> bool" where
  "holds_mutex pl \<longleftrightarrow> pl = At_empty \<or> pl = At_predicate \<or> pl = At_block \<or> pl = At_batch"

definition place_ok :: "'d read_sys \<Rightarrow> place \<Rightarrow> bool" where
  "place_ok d pl \<longleftrightarrow>
     (pl = At_block \<or> pl = Blocked \<longrightarrow> rs_backlog d = [])
     \<and> (pl = At_backoff \<or> pl = At_relock \<or> pl = At_batch \<longrightarrow> rs_backlog d \<noteq> [])
     \<and> (pl \<noteq> At_dispatch \<longrightarrow> rs_phase d = Idle)"

definition sync_inv :: "'d sync_sys \<Rightarrow> bool" where
  "sync_inv s \<longleftrightarrow> sy_locked s = holds_mutex (sy_place s) \<and> place_ok (sy_data s) (sy_place s)
     \<and> (sy_place s = Exited \<longrightarrow> sy_bStop s) \<and> (sy_bStop s \<longleftrightarrow> sy_shutdown s \<noteq> Not_called)"

lemmas sync_inv_defs = sync_inv_def place_ok_def holds_mutex_def

lemma dispatch_round_parts:
  "rs_waiting (dispatch_round d order) = rs_waiting d"
  by (simp add: dispatch_round_def split: prod.splits)

lemma dispatcher_step_inv: "dispatcher_step api h s s' \<Longrightarrow> sync_inv s \<Longrightarrow> sync_inv s'"
  by (erule dispatcher_step.cases) (auto simp: sync_inv_defs device_step_parts(1))

lemma reader_step_inv: "reader_step api h s s' \<Longrightarrow> sync_inv s \<Longrightarrow> sync_inv s'"
proof (cases rule: reader_step.cases, assumption)
  fix t p a n i d s1
  assume inv: "sync_inv s" and free: "\<not> sy_locked s" and enq: "read_enqueue (sy_data s) p a n = (i, d)"
    and s1: "s1 = s\<lparr>sy_data := d\<lparr>rs_waiting := (rs_waiting (sy_data s))(t \<mapsto> \<lparr>rd_pid = p, rd_address = a, rd_size = n, rd_item = i\<rparr>)\<rparr>\<rparr>"
    and s': "s' = (if umap_contains (rs_backlog (sy_data s)) (backlog_key p a n) then s1 else notify_all s1)"
  show "sync_inv s'"
  proof (cases "umap_contains (rs_backlog (sy_data s)) (backlog_key p a n)")
    case True
    then have "rs_backlog (sy_data s) \<noteq> []" "d = sy_data s"
      using read_enqueue_parts(4) [OF enq] by (auto simp: umap_contains_def)
    with True inv s' s1 show ?thesis by (auto simp: sync_inv_defs)
  next
    case False
    with inv free s' s1 read_enqueue_parts(1,3) [OF enq] show ?thesis
      by (auto simp: sync_inv_defs)
  qed
next
  fix t rd v d
  assume "sync_inv s" "read_finish (sy_data s) rd = Inr (v, d)"
    and s': "s' = s\<lparr>sy_data := d\<lparr>rs_waiting := (rs_waiting (sy_data s))(t := None), rs_done := (rs_done (sy_data s))(t \<mapsto> (rd, v))\<rparr>\<rparr>"
  then show "sync_inv s'"
    using read_finish_parts [of "sy_data s" rd v d] by (auto simp: sync_inv_defs)
qed

lemma shutdown_step_inv: "shutdown_step s s' \<Longrightarrow> sync_inv s \<Longrightarrow> sync_inv s'"
  by (erule shutdown_step.cases) (auto simp: sync_inv_defs)

lemma sync_steps_inv: "sync_steps api h s s' \<Longrightarrow> sync_inv s \<Longrightarrow> sync_inv s'"
proof (induction rule: sync_steps.induct)
  case (spurious s s')
  from spurious.IH [OF spurious.prems] spurious.hyps(2) show ?case by (auto simp: sync_inv_defs)
qed (auto intro: dispatcher_step_inv reader_step_inv shutdown_step_inv)

lemma new_sync_sys_inv: "sync_inv (new_sync_sys D)"
  by (simp add: new_sync_sys_def sync_inv_defs new_read_sys_def)

lemma reachable_sync_inv: "sync_steps api h (new_sync_sys D) s \<Longrightarrow> sync_inv s"
  using sync_steps_inv new_sync_sys_inv by blast

text \<open>Every step is one of \<open>read_step\<close> or leaves the data alone.\<close>

lemma dispatcher_step_data:
  assumes "dispatcher_step api h s s'" "sync_inv s"
  shows "sy_data s' = sy_data s \<or> read_step api h (sy_data s) (sy_data s')"
  using assms by (cases rule: dispatcher_step.cases) (auto simp: sync_inv_defs intro: read_step.round)

lemma reader_step_data:
  assumes "reader_step api h s s'"
  shows "read_step api h (sy_data s) (sy_data s')"
  using assms by (cases rule: reader_step.cases) (auto intro: read_step.enqueue read_step.finish)

lemma shutdown_step_data: "shutdown_step s s' \<Longrightarrow> sy_data s' = sy_data s"
  by (cases rule: shutdown_step.cases) auto

lemma sync_steps_data:
  "sync_steps api h s s' \<Longrightarrow> sync_inv s \<Longrightarrow> read_steps api h (sy_data s) (sy_data s')"
proof (induction rule: sync_steps.induct)
  case (dispatcher s s' s'')
  with dispatcher_step_data [OF dispatcher(2)] sync_steps_inv [OF dispatcher(1)] show ?case
    by (auto intro: read_steps.more)
qed (auto intro: read_steps.intros dest: reader_step_data shutdown_step_data)

section \<open>Progress of the dispatch thread\<close>

text \<open>
  Two measures of the dispatch thread: how many of its own steps it is away from forming the next batch when
  there is work, and from its end when it has been told to stop.
\<close>

fun phase_left :: "phase \<Rightarrow> nat" where
  "phase_left Idle = 0"
| "phase_left (Releasing b) = 1"
| "phase_left (Dispatching p batch) = 2"

fun to_batch :: "place \<Rightarrow> nat" where
  "to_batch At_batch = 0" | "to_batch At_relock = 1" | "to_batch At_backoff = 2" | "to_batch At_empty = 3"
| "to_batch At_lock = 4" | "to_batch At_while = 5" | "to_batch At_predicate = 6" | "to_batch At_wait_lock = 7"
| "to_batch Woken = 7" | "to_batch At_dispatch = 6" | "to_batch At_block = 9" | "to_batch Blocked = 8"
| "to_batch Exited = 0"

fun to_exit :: "place \<Rightarrow> nat" where
  "to_exit Exited = 0" | "to_exit At_while = 1" | "to_exit At_dispatch = 2" | "to_exit At_batch = 5"
| "to_exit At_relock = 6" | "to_exit At_backoff = 7" | "to_exit At_predicate = 2" | "to_exit At_wait_lock = 3"
| "to_exit Woken = 3" | "to_exit At_empty = 8" | "to_exit At_lock = 9" | "to_exit At_block = 5" | "to_exit Blocked = 4"

definition batch_distance :: "'d sync_sys \<Rightarrow> nat" where
  "batch_distance s = to_batch (sy_place s) + phase_left (rs_phase (sy_data s))"

definition exit_distance :: "'d sync_sys \<Rightarrow> nat" where
  "exit_distance s = to_exit (sy_place s) + phase_left (rs_phase (sy_data s))"

lemma device_step_exists:
  assumes "rs_phase d \<noteq> Idle"
  shows "\<exists>d'. read_step api h d d' \<and> rs_waiting d' = rs_waiting d"
proof (cases "rs_phase d")
  case (Releasing b)
  from read_step.release [OF this] show ?thesis by (intro exI conjI, assumption) simp
next
  case (Dispatching p batch)
  consider "batch = []" | k i where "batch = [(k, i)]" | "SCATTER_READ_THRESHOLD < length batch"
    by (cases batch rule: remdups_adj.cases) (auto simp: SCATTER_READ_THRESHOLD_def)
  then show ?thesis
  proof cases
    case 1
    with Dispatching have "rs_phase d = Dispatching p []" by simp
    from read_step.no_batch [OF this] show ?thesis by (intro exI conjI, assumption) simp
  next
    case 2
    with Dispatching have "rs_phase d = Dispatching p [(k, i)]" by simp
    from read_step.sequential [OF this prod.collapse [symmetric] prod.collapse [symmetric]] show ?thesis
      by (intro exI conjI, assumption) simp
  next
    case 3
    from read_step.scatter [OF Dispatching 3 refl prod.collapse [symmetric] prod.collapse [symmetric]] show ?thesis
      by (intro exI conjI, assumption) simp
  qed
qed (use assms in simp)

lemma dispatcher_enabled:
  assumes "sync_inv s" "sy_place s \<noteq> Blocked" "sy_place s \<noteq> Exited"
  shows "\<exists>s'. dispatcher_step api h s s'"
proof (cases "sy_place s")
  case At_predicate
  then show ?thesis
    by (cases "sy_bStop s \<or> rs_backlog (sy_data s) \<noteq> []") (auto intro: dispatcher_step.satisfied dispatcher_step.unsatisfied)
next
  case At_batch
  with assms(1) show ?thesis
    by (auto simp: sync_inv_defs intro: dispatcher_step.batch)
next
  case At_dispatch
  then show ?thesis
    using device_step_exists [of "sy_data s" api h] dispatcher_step.device [OF At_dispatch]
    by (cases "rs_phase (sy_data s) = Idle") (blast intro: dispatcher_step.dispatched)+
qed (use assms in \<open>auto intro: dispatcher_step.intros\<close>)

lemma phase_left_device:
  assumes "read_step api h d d'" "rs_waiting d' = rs_waiting d" "rs_phase d \<noteq> Idle"
  shows "phase_left (rs_phase d') < phase_left (rs_phase d)"
  using device_step_parts(2) [OF assms] assms(3) by (auto split: phase.splits)

lemma phase_left_round: "phase_left (rs_phase (dispatch_round d order)) = 2"
  by (simp add: dispatch_round_def split: prod.splits)

lemma phase_left_bound: "phase_left ph \<le> 2"
  by (cases ph) simp_all

lemma batch_distance_bound: "sync_inv s \<Longrightarrow> batch_distance s \<le> 9"
  using phase_left_bound [of "rs_phase (sy_data s)"]
  by (cases "sy_place s") (simp_all add: batch_distance_def sync_inv_defs)

lemma exit_distance_bound: "sync_inv s \<Longrightarrow> exit_distance s \<le> 9"
  using phase_left_bound [of "rs_phase (sy_data s)"]
  by (cases "sy_place s") (simp_all add: exit_distance_def sync_inv_defs)

lemma dispatcher_step_to_batch:
  assumes "dispatcher_step api h s s'" "sync_inv s" "\<not> sy_bStop s" "rs_backlog (sy_data s) \<noteq> []" "sy_place s \<noteq> At_batch"
  shows "batch_distance s' < batch_distance s \<and> rs_backlog (sy_data s') = rs_backlog (sy_data s) \<and> \<not> sy_bStop s'"
  using assms
  by (cases rule: dispatcher_step.cases)
    (auto simp: batch_distance_def sync_inv_defs device_step_parts(1) phase_left_device)

lemma dispatcher_step_to_exit:
  assumes "dispatcher_step api h s s'" "sync_inv s" "sy_bStop s" "sy_place s \<noteq> At_block"
  shows "exit_distance s' < exit_distance s \<and> sy_bStop s' \<and> sy_place s' \<noteq> At_block \<and> sy_place s' \<noteq> Blocked"
  using assms
  by (cases rule: dispatcher_step.cases)
    (auto simp: exit_distance_def sync_inv_defs phase_left_device phase_left_round)


section \<open>Shutdown\<close>

text \<open>
  The run in which the wake-up of \<open>shutdown\<close> is lost: the dispatch thread has found \<open>bStop\<close> unset and the backlog
  empty, then \<open>shutdown\<close> sets \<open>bStop\<close> and notifies nobody, and only then the dispatch thread blocks.
\<close>

definition sleeping_sys :: "'d device \<Rightarrow> place \<Rightarrow> shutdown_place \<Rightarrow> 'd sync_sys" where
  "sleeping_sys D pl sd =
     (new_sync_sys D)\<lparr>sy_place := pl, sy_locked := holds_mutex pl, sy_bStop := (sd \<noteq> Not_called), sy_shutdown := sd\<rparr>"

lemma sleeping_sys_steps:
  "dispatcher_step api h (sleeping_sys D At_while Not_called) (sleeping_sys D At_lock Not_called)"
  "dispatcher_step api h (sleeping_sys D At_lock Not_called) (sleeping_sys D At_empty Not_called)"
  "dispatcher_step api h (sleeping_sys D At_empty Not_called) (sleeping_sys D At_wait_lock Not_called)"
  "dispatcher_step api h (sleeping_sys D At_wait_lock Not_called) (sleeping_sys D At_predicate Not_called)"
  "dispatcher_step api h (sleeping_sys D At_predicate Not_called) (sleeping_sys D At_block Not_called)"
  "shutdown_step (sleeping_sys D At_block Not_called) (sleeping_sys D At_block At_notify)"
  "shutdown_step (sleeping_sys D At_block At_notify) (sleeping_sys D At_block At_join)"
  "dispatcher_step api h (sleeping_sys D At_block At_join) (sleeping_sys D Blocked At_join)"
proof -
  have d: "rs_backlog (sy_data (sleeping_sys D pl sd)) = []" for pl sd
    by (simp add: sleeping_sys_def new_sync_sys_def new_read_sys_def)
  note [simp] = sleeping_sys_def new_sync_sys_def holds_mutex_def
  show "dispatcher_step api h (sleeping_sys D At_while Not_called) (sleeping_sys D At_lock Not_called)"
    using dispatcher_step.test_stop [of "sleeping_sys D At_while Not_called"] by simp
  show "dispatcher_step api h (sleeping_sys D At_lock Not_called) (sleeping_sys D At_empty Not_called)"
    using dispatcher_step.lock [of "sleeping_sys D At_lock Not_called"] by simp
  show "dispatcher_step api h (sleeping_sys D At_empty Not_called) (sleeping_sys D At_wait_lock Not_called)"
    using dispatcher_step.test_empty [of "sleeping_sys D At_empty Not_called"] d [of At_empty Not_called] by simp
  show "dispatcher_step api h (sleeping_sys D At_wait_lock Not_called) (sleeping_sys D At_predicate Not_called)"
    using dispatcher_step.wait_lock [of "sleeping_sys D At_wait_lock Not_called"] by simp
  show "dispatcher_step api h (sleeping_sys D At_predicate Not_called) (sleeping_sys D At_block Not_called)"
    using dispatcher_step.unsatisfied [of "sleeping_sys D At_predicate Not_called"] d [of At_predicate Not_called] by simp
  show "shutdown_step (sleeping_sys D At_block Not_called) (sleeping_sys D At_block At_notify)"
    using shutdown_step.set_stop [of "sleeping_sys D At_block Not_called"] by simp
  show "shutdown_step (sleeping_sys D At_block At_notify) (sleeping_sys D At_block At_join)"
    using shutdown_step.notify [of "sleeping_sys D At_block At_notify"] by (simp add: notify_all_def)
  show "dispatcher_step api h (sleeping_sys D At_block At_join) (sleeping_sys D Blocked At_join)"
    using dispatcher_step.block [of "sleeping_sys D At_block At_join"] by simp
qed

lemma sleeping_sys_reachable: "sync_steps api h (new_sync_sys D) (sleeping_sys D Blocked At_join)"
proof -
  have "sleeping_sys D At_while Not_called = new_sync_sys D"
    by (simp add: sleeping_sys_def new_sync_sys_def holds_mutex_def)
  then have "sync_steps api h (new_sync_sys D) (sleeping_sys D At_while Not_called)"
    by (simp add: sync_steps.start)
  then show ?thesis
    by (meson sleeping_sys_steps sync_steps.dispatcher sync_steps.shutdown)
qed

text \<open>A request that is in the backlog when the dispatch thread ends is never answered.\<close>

definition abandoned :: "'d sync_sys \<Rightarrow> nat \<Rightarrow> reader \<Rightarrow> bool" where
  "abandoned s t rd \<longleftrightarrow>
     sy_place s = Exited \<and> rs_waiting (sy_data s) t = Some rd \<and> rd_item rd \<in> snd ` set (rs_backlog (sy_data s))"

lemma dispatcher_step_exited: "dispatcher_step api h s s' \<Longrightarrow> sy_place s \<noteq> Exited"
  by (cases rule: dispatcher_step.cases) auto

lemma reader_step_abandoned:
  assumes "reader_step api h s s'" "read_inv (sy_data s)" "abandoned s t rd"
  shows "abandoned s' t rd"
  using assms(1)
proof cases
  case (push t' p a n i d s1)
  then show ?thesis
    using assms(3) by (auto simp: abandoned_def read_enqueue_def umap_assign_absent umap_contains_def Let_def split: option.splits)
next
  case (return t' rd' v d)
  moreover have "read_finish (sy_data s) rd = Inl Never_returns"
    using backlog_never_finishes [OF assms(2), of rd] assms(3) by (simp add: abandoned_def)
  ultimately have "t' \<noteq> t"
    using assms(3) by (auto simp: abandoned_def)
  with return read_finish_parts [OF return(3)] assms(3) show ?thesis
    by (simp add: abandoned_def)
qed

lemma sync_steps_abandoned:
  "sync_steps api h s s' \<Longrightarrow> sync_inv s \<Longrightarrow> read_inv (sy_data s) \<Longrightarrow> abandoned s t rd \<Longrightarrow> abandoned s' t rd"
proof (induction rule: sync_steps.induct)
  case (dispatcher s s' s'')
  then show ?case using dispatcher_step_exited by (auto simp: abandoned_def)
next
  case (reader s s' s'')
  then show ?case
    using reader_step_abandoned read_steps_inv [OF sync_steps_data] by blast
next
  case (shutdown s s' s'')
  then have "abandoned s' t rd" by simp
  with shutdown(2) show ?case
    by (cases rule: shutdown_step.cases) (auto simp: abandoned_def)
qed (auto simp: abandoned_def)

section \<open>One request\<close>

text \<open>A run with one reader: its request is in the backlog.\<close>

definition one_request :: "byte list sync_sys" where
  "one_request =
     \<lparr>sy_data = (new_read_sys flat_device)\<lparr>rs_items := [new_BacklogItem 4 2 4], rs_backlog := [(backlog_key 4 2 4, 0)],
        rs_waiting := [0 \<mapsto> \<lparr>rd_pid = 4, rd_address = 2, rd_size = 4, rd_item = 0\<rparr>]\<rparr>,
      sy_locked = False, sy_bStop = False, sy_place = At_while, sy_shutdown = Not_called\<rparr>"

lemma one_request_pending: "sync_steps flat_api 0 (new_sync_sys flat_device) one_request"
proof -
  have "reader_step flat_api 0 (new_sync_sys flat_device) one_request"
    using reader_step.push [of "new_sync_sys flat_device" 0 4 2 4, OF _ _ prod.collapse [symmetric] refl, of flat_api 0]
    by (simp add: new_sync_sys_def new_read_sys_def one_request_def read_enqueue_def umap_contains_def umap_assign_def
        notify_all_def Let_def)
  then show ?thesis using sync_steps.reader sync_steps.start by blast
qed


section \<open>Properties\<close>

text \<open>
  C18: with its mutex, its condition variable and \<open>bStop\<close>, the read path still is a run of the reader and dispatch
  steps: every reachable state of the synchronised threads has the data of a state that those steps
  reach, so that every property of such states (no request is lost, no promise is set twice, every
  answer is an answer to the reader's own request) holds for it.
\<close>

theorem synchronised_run_refines:
  assumes "sync_steps api h (new_sync_sys D) s"
  shows "read_steps api h (new_read_sys D) (sy_data s)"
  using sync_steps_data [OF assms new_sync_sys_inv] by (simp add: new_sync_sys_def)

theorem synchronised_run_refines_witness:
  "read_steps flat_api 0 (new_read_sys flat_device) (sy_data one_request)"
  by (rule synchronised_run_refines [OF one_request_pending])

text \<open>
  C19: the dispatch thread never sleeps while there is work, and never looks at the first entry of an empty backlog:
  whenever it waits on the condition variable, not yet notified, the backlog is empty, and whenever it
  is about to form a batch it holds the mutex, no batch is under way, and the backlog is not empty.
\<close>

theorem never_sleeps_on_work:
  assumes "sync_steps api h (new_sync_sys D) s"
  shows "(if sy_place s = Blocked then rs_backlog (sy_data s) = []
     else if sy_place s = At_batch then sy_locked s \<and> rs_phase (sy_data s) = Idle \<and> rs_backlog (sy_data s) \<noteq> []
     else True)"
  using reachable_sync_inv [OF assms] by (auto simp: sync_inv_defs)

theorem never_sleeps_on_work_witness: "rs_backlog (sy_data (sleeping_sys flat_device Blocked At_join)) = []"
proof -
  have "sy_place (sleeping_sys flat_device Blocked At_join) = Blocked"
    by (simp add: sleeping_sys_def)
  with never_sleeps_on_work [OF sleeping_sys_reachable [of flat_api 0 flat_device]] show ?thesis
    by simp
qed

text \<open>
  C20: progress to the next batch. As long as nobody has asked it to stop and the backlog is not empty, the dispatch
  thread has a step to take, and each of its steps brings it nearer to forming a batch: no more than nine
  are left, whatever the device answers, and nothing leaves the backlog before.
\<close>

theorem next_batch_is_formed:
  assumes "sync_steps api h (new_sync_sys D) s" "\<not> sy_bStop s" "rs_backlog (sy_data s) \<noteq> []" "sy_place s \<noteq> At_batch"
  shows "(\<exists>s'. dispatcher_step api h s s') \<and> batch_distance s \<le> 9
    \<and> (\<forall>s'. dispatcher_step api h s s' \<longrightarrow>
          batch_distance s' < batch_distance s \<and> rs_backlog (sy_data s') = rs_backlog (sy_data s) \<and> \<not> sy_bStop s')"
proof -
  have inv: "sync_inv s"
    by (rule reachable_sync_inv [OF assms(1)])
  with assms(2,3) have "sy_place s \<noteq> Blocked" "sy_place s \<noteq> At_block" "sy_place s \<noteq> Exited"
    by (auto simp: sync_inv_defs)
  then show ?thesis
    using dispatcher_enabled [OF inv] dispatcher_step_to_batch [OF _ inv assms(2-4)] batch_distance_bound [OF inv] by blast
qed

theorem next_batch_is_formed_witness:
  "(\<exists>s'. dispatcher_step flat_api 0 one_request s') \<and> batch_distance one_request \<le> 9"
  using next_batch_is_formed [OF one_request_pending] by (simp add: one_request_def)

text \<open>
  C21: after \<open>shutdown\<close> has set \<open>bStop\<close>, the dispatch thread ends on its own within nine steps, unless it was
  between the test of the wait's condition and the wait itself, or already waiting.
\<close>

theorem shutdown_ends_dispatch:
  assumes "sync_steps api h (new_sync_sys D) s" "sy_bStop s" "sy_place s \<noteq> At_block" "sy_place s \<noteq> Blocked" "sy_place s \<noteq> Exited"
  shows "(\<exists>s'. dispatcher_step api h s s') \<and> exit_distance s \<le> 9
    \<and> (\<forall>s'. dispatcher_step api h s s' \<longrightarrow>
          exit_distance s' < exit_distance s \<and> sy_bStop s' \<and> sy_place s' \<noteq> At_block \<and> sy_place s' \<noteq> Blocked)"
  using dispatcher_enabled [OF reachable_sync_inv [OF assms(1)] assms(4,5)]
    dispatcher_step_to_exit [OF _ reachable_sync_inv [OF assms(1)] assms(2,3)]
    exit_distance_bound [OF reachable_sync_inv [OF assms(1)]] by blast

theorem shutdown_ends_dispatch_witness:
  "exit_distance (one_request\<lparr>sy_bStop := True, sy_shutdown := At_notify\<rparr>) \<le> 9"
proof -
  let ?s = "one_request\<lparr>sy_bStop := True, sy_shutdown := At_notify\<rparr>"
  have "shutdown_step one_request ?s"
    by (rule shutdown_step.set_stop) (simp add: one_request_def)
  then have "sync_steps flat_api 0 (new_sync_sys flat_device) ?s"
    using one_request_pending sync_steps.shutdown by blast
  from shutdown_ends_dispatch [OF this] show ?thesis by (simp add: one_request_def)
qed

text \<open>
  C23: \<open>shutdown\<close> can wait for ever. It sets \<open>bStop\<close> without the mutex; when that happens after the dispatch thread has
  tested the condition and before it waits, the notification finds nobody: the dispatch thread sleeps,
  \<open>join\<close> waits for it, and neither has a step left.
\<close>

theorem shutdown_can_hang:
  "\<exists>s. sync_steps api h (new_sync_sys D) s \<and> sy_bStop s \<and> sy_shutdown s = At_join \<and> sy_place s = Blocked
    \<and> \<not> (\<exists>s'. dispatcher_step api h s s') \<and> \<not> (\<exists>s'. shutdown_step s s')"
proof (intro exI conjI)
  let ?s = "sleeping_sys D Blocked At_join"
  show "sync_steps api h (new_sync_sys D) ?s" by (rule sleeping_sys_reachable)
  show "\<not> (\<exists>s'. dispatcher_step api h ?s s')" "\<not> (\<exists>s'. shutdown_step ?s s')"
    by (auto simp: sleeping_sys_def elim: dispatcher_step.cases shutdown_step.cases)
qed (simp_all add: sleeping_sys_def)

text \<open>
  \<open>shutdown\<close> abandons the requests that are still in the backlog when the dispatch thread ends: whatever happens
  afterwards, their readers go on waiting and the dispatch thread does not come back.
\<close>

lemma shutdown_abandons_readers:
  assumes "sync_steps api h (new_sync_sys D) s" "sy_place s = Exited" "rs_waiting (sy_data s) t = Some rd"
    and "rd_item rd \<in> snd ` set (rs_backlog (sy_data s))" "sync_steps api h s s'"
  shows "sy_place s' = Exited \<and> rs_waiting (sy_data s') t = Some rd \<and> read_finish (sy_data s') rd = Inl Never_returns"
proof -
  have inv: "sync_inv s" "read_inv (sy_data s)"
    using reachable_sync_inv [OF assms(1)] read_steps_inv [OF sync_steps_data [OF assms(1) new_sync_sys_inv]]
    by (simp_all add: new_sync_sys_def read_inv_new)
  then have "abandoned s' t rd" "read_inv (sy_data s')"
    using sync_steps_abandoned [OF assms(5)] assms(2-4) read_steps_inv [OF sync_steps_data [OF assms(5)]]
    by (auto simp: abandoned_def)
  then show ?thesis using backlog_never_finishes by (auto simp: abandoned_def)
qed

text \<open>
  The back-off before a batch sleeps at most once: with a clock that does not run backwards and a next dispatch
  time at most half a millisecond after the last dispatch, the condition is false after one sleep of two
  milliseconds, however small the backlog.
\<close>

lemma backoff_sleeps_once:
  assumes "backoff_clock lastDispatchTime (r1 # r2 # rs)"
    and "nextDispatchTime \<le> lastDispatchTime + DMA_BACKOFF_TIMER_EXTEND_NS"
  shows "\<exists>k \<le> 1. backoff nextDispatchTime lastDispatchTime (r1 # r2 # rs) = Some k"
proof -
  have "nextDispatchTime \<le> bo_now r2"
    using assms by (simp add: DMA_BACKOFF_TIMER_EXTEND_NS_def DMA_MAX_BACKLOG_BUILD_TIME_NS_def)
  then show ?thesis by simp
qed

lemma backoff_sleeps_once_witness:
  "\<exists>k \<le> 1. backoff 500000 0 [\<lparr>bo_size = 3, bo_now = 100, bo_now2 = 200\<rparr>, \<lparr>bo_size = 3, bo_now = 2000300, bo_now2 = 2000400\<rparr>] = Some k"
  by (rule backoff_sleeps_once) (simp_all add: DMA_BACKOFF_TIMER_EXTEND_NS_def DMA_MAX_BACKLOG_BUILD_TIME_NS_def)

end
