(* ===== verification/Descriptors.thy ===== *)
theory Descriptors
  imports Socket
begin

text \<open>
  The lifetime of sockets: \<^verbatim>\<open>LinuxSocketWrapper.cpp\<close> and \<^verbatim>\<open>WinsockWrapper.cpp\<close> as owners of a descriptor of the operating
  system. A wrapper is shared by the accepting thread and the thread of its connection; both
  \<open>close()\<close> and the destructor give the descriptor back. The system hands out descriptors again: what a
  descriptor means depends on when it is used. The connections' descriptors are followed here
  through accepting, hanging up and destruction.
\<close>


section \<open>Descriptors\<close>

text \<open>
  The open descriptors with the connection that each stands for. A new descriptor is the lowest number that is
  free, as POSIX prescribes; \<open>None\<close> stands for a call that fails.
\<close>

type_synonym fd_table = "(int \<times> nat) list"

definition lowest_free :: "fd_table \<Rightarrow> int" where
  "lowest_free t = hd (filter (\<lambda>fd. map_of t fd = None) (map int [0..<Suc (length t)]))"

definition os_new_fd :: "nat option \<Rightarrow> fd_table \<Rightarrow> int \<times> fd_table" where
  "os_new_fd k t = (case k of None \<Rightarrow> (- 1, t) | Some k \<Rightarrow> (lowest_free t, (lowest_free t, k) # t))"

definition os_close_fd :: "int \<Rightarrow> fd_table \<Rightarrow> int \<times> fd_table" where
  "os_close_fd fd t = (if map_of t fd = None then (- 1, t) else (0, AList.delete fd t))"

text \<open>
  The other functions of the operating system, each with the arguments that it gets besides the descriptor. Values behind
  pointers are byte lists; the length that the caller claims is an argument of its own. The last one is given the
  room behind its pointer.
\<close>

datatype sock_call =
    Setsockopt int int "byte list" int
  | Bind "byte list" int
  | Listen int
  | Connect "byte list" int
  | Getsockname int

text \<open>
  What the system does is a parameter: for the open file that a descriptor stands for and the call it gives an error code
  (0 when the call succeeds), and an address and its length for a call that stores one. A call on a descriptor
  that is not open fails.
\<close>

type_synonym system = "nat \<Rightarrow> sock_call \<Rightarrow> u32 \<times> byte list \<times> int"

definition os_call :: "system \<Rightarrow> int \<Rightarrow> fd_table \<Rightarrow> sock_call \<Rightarrow> int \<times> byte list \<times> int" where
  "os_call sys fd t call =
     (case map_of t fd of
        None \<Rightarrow> (- 1, [], 0)
      | Some k \<Rightarrow> (let (e, address, l) = sys k call in (if e = 0 then 0 else - 1, address, l)))"

abbreviation IPPROTO_TCP :: int where "IPPROTO_TCP \<equiv> 6"
abbreviation TCP_NODELAY :: int where "TCP_NODELAY \<equiv> 1"


section \<open>Wrappers\<close>

record SocketWrapper =
  sw_socket :: int

text \<open>Whether the system has a socket for a domain, a type and a protocol is a parameter as well.\<close>

definition createSocket ::
    "(int \<Rightarrow> int \<Rightarrow> int \<Rightarrow> nat option) \<Rightarrow> int \<Rightarrow> int \<Rightarrow> int \<Rightarrow> fd_table \<Rightarrow> SocketWrapper \<times> fd_table" where
  "createSocket socket af type protocol t = (let (fd, t) = os_new_fd (socket af type protocol) t in (\<lparr>sw_socket = fd\<rparr>, t))"

text \<open>The destructor closes unless the descriptor is zero.\<close>

definition delete_SocketWrapper :: "SocketWrapper \<Rightarrow> fd_table \<Rightarrow> fd_table" where
  "delete_SocketWrapper w t = (if sw_socket w \<noteq> 0 then snd (os_close_fd (sw_socket w) t) else t)"

definition SocketWrapper_setsockopt :: "system \<Rightarrow> SocketWrapper \<Rightarrow> int \<Rightarrow> int \<Rightarrow> byte list \<Rightarrow> int \<Rightarrow> fd_table \<Rightarrow> int" where
  "SocketWrapper_setsockopt sys w level optname optval optlen t =
     fst (os_call sys (sw_socket w) t (Setsockopt level optname optval optlen))"

definition SocketWrapper_bind :: "system \<Rightarrow> SocketWrapper \<Rightarrow> byte list \<Rightarrow> int \<Rightarrow> fd_table \<Rightarrow> int" where
  "SocketWrapper_bind sys w name namelen t = fst (os_call sys (sw_socket w) t (Bind name namelen))"

definition SocketWrapper_listen :: "system \<Rightarrow> SocketWrapper \<Rightarrow> int \<Rightarrow> fd_table \<Rightarrow> int" where
  "SocketWrapper_listen sys w backlog t = fst (os_call sys (sw_socket w) t (Listen backlog))"

definition SocketWrapper_connect :: "system \<Rightarrow> SocketWrapper \<Rightarrow> byte list \<Rightarrow> int \<Rightarrow> fd_table \<Rightarrow> int" where
  "SocketWrapper_connect sys w addr addrlen t = fst (os_call sys (sw_socket w) t (Connect addr addrlen))"

text \<open>The address and its length are stored through the pointers that the caller hands in.\<close>

definition SocketWrapper_getsockname :: "system \<Rightarrow> SocketWrapper \<Rightarrow> int \<Rightarrow> fd_table \<Rightarrow> int \<times> byte list \<times> int" where
  "SocketWrapper_getsockname sys w addrlen t = os_call sys (sw_socket w) t (Getsockname addrlen)"

definition SocketWrapper_close :: "SocketWrapper \<Rightarrow> fd_table \<Rightarrow> int \<times> fd_table" where
  "SocketWrapper_close w t = os_close_fd (sw_socket w) t"

text \<open>
  \<open>accept\<close> wraps whatever the system returns, also the value that signals a failure: the result is never a null
  pointer. The peer's address, which is stored for the log alone, is left out.
\<close>

definition SocketWrapper_accept :: "SocketWrapper \<Rightarrow> nat option \<Rightarrow> fd_table \<Rightarrow> SocketWrapper option \<times> fd_table" where
  "SocketWrapper_accept w k t =
     (let (fd, t) = (if map_of t (sw_socket w) = None then (- 1, t) else os_new_fd k t)
      in (Some \<lparr>sw_socket = fd\<rparr>, t))"

text \<open>On Windows \<^verbatim>\<open>INVALID_SOCKET\<close> is the all-ones value, read as \<open>- 1\<close> here.\<close>

definition valid :: "platform \<Rightarrow> SocketWrapper \<Rightarrow> bool" where
  "valid p w = (case p of Linux \<Rightarrow> \<not> sw_socket w < 0 | Windows \<Rightarrow> sw_socket w \<noteq> - 1)"


section \<open>The accepting thread and its connections\<close>

text \<open>
  One round of the accepting thread (\<open>Server::start\<close>) with respect to descriptors. A refused connection is closed
  and destroyed before the next round. The result is the wrapper handed to a new thread, if any.
\<close>

definition accept_round :: "SocketWrapper \<Rightarrow> nat option \<Rightarrow> system \<Rightarrow> fd_table \<Rightarrow> SocketWrapper option \<times> fd_table" where
  "accept_round w k sys t =
     (case SocketWrapper_accept w k t of
        (None, t) \<Rightarrow> (None, t)
      | (Some c, t) \<Rightarrow>
          (if SocketWrapper_setsockopt sys c IPPROTO_TCP TCP_NODELAY (le_bytes 4 (1 :: u32)) 4 t \<noteq> 0
           then (None, delete_SocketWrapper c (snd (SocketWrapper_close c t)))
           else (Some c, t)))"

text \<open>
  A connection's thread serves; it has returned from \<open>handleClientConnection\<close>, after \<open>close()\<close> or because of \<open>bStop\<close>; or its
  copy of the wrapper, the last one, has been destroyed.
\<close>

datatype life = Serving SocketWrapper | Returned SocketWrapper | Destroyed

record fd_sys =
  fs_table :: fd_table
  fs_lives :: "life list"

definition settled :: "fd_sys \<Rightarrow> bool" where
  "settled s \<longleftrightarrow> list_all (\<lambda>l. case l of Returned w \<Rightarrow> False | _ \<Rightarrow> True) (fs_lives s)"

text \<open>
  The steps, for a listening wrapper. The flag tells whether connections are accepted only when no thread is
  between its return and the destruction of its wrapper; the program does not care.
\<close>

inductive fd_step :: "bool \<Rightarrow> SocketWrapper \<Rightarrow> fd_sys \<Rightarrow> fd_sys \<Rightarrow> bool" for careful :: bool and w :: SocketWrapper where
  accepted: "careful \<longrightarrow> settled s \<Longrightarrow> accept_round w (Some (length (fs_lives s))) sys (fs_table s) = (Some c, t) \<Longrightarrow>
    fd_step careful w s \<lparr>fs_table = t, fs_lives = fs_lives s @ [Serving c]\<rparr>"
| refused: "careful \<longrightarrow> settled s \<Longrightarrow> accept_round w (Some (length (fs_lives s))) sys (fs_table s) = (None, t) \<Longrightarrow>
    fd_step careful w s \<lparr>fs_table = t, fs_lives = fs_lives s @ [Destroyed]\<rparr>"
| failed: "accept_round w None sys (fs_table s) = (None, t) \<Longrightarrow>
    fd_step careful w s (s\<lparr>fs_table := t\<rparr>)"
| hang_up: "i < length (fs_lives s) \<Longrightarrow> fs_lives s ! i = Serving c \<Longrightarrow>
    fd_step careful w s \<lparr>fs_table = snd (SocketWrapper_close c (fs_table s)), fs_lives = (fs_lives s)[i := Returned c]\<rparr>"
| stopped: "i < length (fs_lives s) \<Longrightarrow> fs_lives s ! i = Serving c \<Longrightarrow>
    fd_step careful w s (s\<lparr>fs_lives := (fs_lives s)[i := Returned c]\<rparr>)"
| destroy: "i < length (fs_lives s) \<Longrightarrow> fs_lives s ! i = Returned c \<Longrightarrow>
    fd_step careful w s \<lparr>fs_table = delete_SocketWrapper c (fs_table s), fs_lives = (fs_lives s)[i := Destroyed]\<rparr>"

inductive fd_steps :: "bool \<Rightarrow> SocketWrapper \<Rightarrow> fd_sys \<Rightarrow> fd_sys \<Rightarrow> bool" for careful :: bool and w :: SocketWrapper where
  none: "fd_steps careful w s s"
| more: "fd_steps careful w s s' \<Longrightarrow> fd_step careful w s' s'' \<Longrightarrow> fd_steps careful w s s''"

section \<open>Who owns which descriptor\<close>

lemma lowest_free_exists: "\<exists>fd \<in> set (map int [0..<Suc (length t)]). map_of t fd = None" for t :: fd_table
proof (rule ccontr)
  assume "\<not> ?thesis"
  then have "int ` {0..<Suc (length t)} \<subseteq> fst ` set t"
    by (auto simp: map_of_eq_None_iff simp del: upt_Suc)
  then have "card (int ` {0..<Suc (length t)}) \<le> card (fst ` set t)"
    by (intro card_mono) simp_all
  also have "card (fst ` set t) \<le> length t"
    by (metis card_length length_map set_map)
  finally show False by (simp add: card_image)
qed

lemma lowest_free: "map_of t (lowest_free t) = None" "0 \<le> lowest_free t"
proof -
  let ?xs = "filter (\<lambda>fd. map_of t fd = None) (map int [0..<Suc (length t)])"
  have "?xs \<noteq> []"
    using lowest_free_exists [of t] by (auto simp: filter_empty_conv)
  then have "lowest_free t \<in> set ?xs"
    unfolding lowest_free_def by (rule hd_in_set)
  then show "map_of t (lowest_free t) = None" "0 \<le> lowest_free t"
    by (auto simp del: upt_Suc)
qed

definition natural :: "fd_table \<Rightarrow> bool" where
  "natural t \<longleftrightarrow> (\<forall>x \<in> set t. 0 \<le> fst x)"

lemma natural_not_open: "natural t \<Longrightarrow> map_of t (- 1) = None"
  by (auto simp: natural_def map_of_eq_None_iff)

lemma natural_simps [simp]:
  "natural ((fd, k) # t) \<longleftrightarrow> 0 \<le> fd \<and> natural t"
  "natural t \<Longrightarrow> natural (AList.delete fd t)"
  by (auto simp: natural_def AList.delete_eq)

lemma delete_absent: "map_of t fd = None \<Longrightarrow> AList.delete fd t = t" for t :: fd_table
  by (force simp: AList.delete_eq map_of_eq_None_iff intro: filter_True)

lemma close_new [simp]: "snd (SocketWrapper_close \<lparr>sw_socket = lowest_free t\<rparr> ((lowest_free t, k) # t)) = t"
  by (simp add: SocketWrapper_close_def os_close_fd_def lowest_free delete_absent)

lemma delete_closed [simp]: "map_of t (sw_socket c) = None \<Longrightarrow> delete_SocketWrapper c t = t"
  by (simp add: delete_SocketWrapper_def os_close_fd_def)

text \<open>A round of the accepting thread opens exactly one descriptor, a free one, or leaves the table as it was.\<close>

definition sets_nodelay :: "system \<Rightarrow> nat \<Rightarrow> bool" where
  "sets_nodelay sys k \<longleftrightarrow> fst (sys k (Setsockopt IPPROTO_TCP TCP_NODELAY (le_bytes 4 (1 :: u32)) 4)) = 0"

lemma accept_round_cases:
  assumes "natural t"
  shows "accept_round w k sys t =
    (if map_of t (sw_socket w) \<noteq> None \<and> k \<noteq> None \<and> sets_nodelay sys (the k)
     then (Some \<lparr>sw_socket = lowest_free t\<rparr>, (lowest_free t, the k) # t) else (None, t))"
proof -
  have "map_of t (- 1) = None"
    by (rule natural_not_open [OF assms])
  then show ?thesis
    by (auto simp: accept_round_def SocketWrapper_accept_def SocketWrapper_setsockopt_def os_new_fd_def os_call_def sets_nodelay_def
        SocketWrapper_close_def os_close_fd_def delete_absent lowest_free split: option.splits prod.splits)
qed

text \<open>A system that accepts every call.\<close>

definition willing :: system where
  "willing k call = (0, [], 0)"

lemma willing_nodelay [simp]: "sets_nodelay willing k"
  by (simp add: sets_nodelay_def willing_def)

definition owns :: "fd_table \<Rightarrow> nat \<Rightarrow> life \<Rightarrow> bool" where
  "owns t i l =
     (case l of
        Serving c \<Rightarrow> map_of t (sw_socket c) = Some i
      | Returned c \<Rightarrow> map_of t (sw_socket c) \<in> {None, Some i}
      | Destroyed \<Rightarrow> True)"

definition fd_inv :: "fd_sys \<Rightarrow> bool" where
  "fd_inv s \<longleftrightarrow> natural (fs_table s) \<and> (\<forall>i < length (fs_lives s). owns (fs_table s) i (fs_lives s ! i))"

lemma owns_Destroyed [simp]: "owns t i Destroyed"
  by (simp add: owns_def)

lemma owns_new: "owns t i l \<Longrightarrow> (\<And>c. l \<noteq> Returned c) \<Longrightarrow> map_of t fd = None \<Longrightarrow> owns ((fd, k) # t) i l"
  by (auto simp: owns_def split: life.splits)

lemma owns_delete: "owns t j l \<Longrightarrow> map_of t fd \<in> {None, Some i} \<Longrightarrow> j \<noteq> i \<Longrightarrow> owns (AList.delete fd t) j l"
  by (auto simp: owns_def delete_conv split: life.splits)

lemma fd_inv_release:
  assumes "fd_inv s" "i < length (fs_lives s)" "map_of (fs_table s) fd \<in> {None, Some i}"
    and "owns (AList.delete fd (fs_table s)) i l"
  shows "fd_inv \<lparr>fs_table = AList.delete fd (fs_table s), fs_lives = (fs_lives s)[i := l]\<rparr>"
  using assms owns_delete [OF _ assms(3)] by (auto simp: fd_inv_def nth_list_update)

lemma fd_inv_settled:
  assumes "fd_inv s" "settled s" "map_of (fs_table s) fd = None" "0 \<le> fd"
  shows "fd_inv \<lparr>fs_table = (fd, length (fs_lives s)) # fs_table s, fs_lives = fs_lives s @ [Serving \<lparr>sw_socket = fd\<rparr>]\<rparr>"
proof -
  have "owns ((fd, length (fs_lives s)) # fs_table s) i (fs_lives s ! i)" if i: "i < length (fs_lives s)" for i
  proof (rule owns_new [OF _ _ assms(3)])
    show "owns (fs_table s) i (fs_lives s ! i)" using assms(1) i by (simp add: fd_inv_def)
    show "fs_lives s ! i \<noteq> Returned c" for c
      using assms(2) i by (auto simp: settled_def list_all_length split: life.splits)
  qed
  then show ?thesis
    using assms(1,4) by (auto simp: fd_inv_def nth_append owns_def)
qed

lemma fd_step_inv:
  assumes "fd_step True w s s'" "fd_inv s"
  shows "fd_inv s'"
  using assms(1)
proof cases
  case (accepted sys c t)
  then show ?thesis
    using assms(2) fd_inv_settled [OF assms(2) _ lowest_free] accept_round_cases [of "fs_table s"]
    by (auto simp: fd_inv_def split: if_splits)
next
  case (refused sys t)
  then have "t = fs_table s"
    using assms(2) accept_round_cases [of "fs_table s"] by (auto simp: fd_inv_def split: if_splits)
  with refused assms(2) show ?thesis by (auto simp: fd_inv_def nth_append owns_def)
next
  case (failed sys t)
  then show ?thesis
    using assms(2) accept_round_cases [of "fs_table s"] by (auto simp: fd_inv_def)
next
  case (hang_up i c)
  then have "owns (fs_table s) i (Serving c)"
    using assms(2) by (metis fd_inv_def)
  with hang_up fd_inv_release [OF assms(2) hang_up(2), of "sw_socket c" "Returned c"] show ?thesis
    by (simp add: owns_def SocketWrapper_close_def os_close_fd_def delete_conv)
next
  case (stopped i c)
  then have "owns (fs_table s) i (Serving c)"
    using assms(2) by (metis fd_inv_def)
  with stopped assms(2) show ?thesis
    by (auto simp: fd_inv_def owns_def nth_list_update)
next
  case (destroy i c)
  then have own: "owns (fs_table s) i (Returned c)"
    using assms(2) by (metis fd_inv_def)
  have "fd_inv \<lparr>fs_table = fs_table s, fs_lives = (fs_lives s)[i := Destroyed]\<rparr>"
    using assms(2) destroy(2) by (auto simp: fd_inv_def nth_list_update)
  with destroy own fd_inv_release [OF assms(2) destroy(2), of "sw_socket c" Destroyed] show ?thesis
    by (auto simp: owns_def delete_SocketWrapper_def os_close_fd_def)
qed

lemma fd_steps_inv: "fd_steps True w s s' \<Longrightarrow> fd_inv s \<Longrightarrow> fd_inv s'"
  by (induction rule: fd_steps.induct) (auto intro: fd_step_inv)

section \<open>Properties\<close>

text \<open>The table of a fresh process with a listening socket: standard input, output and error are open.\<close>

definition listening :: fd_table where
  "listening = [(3, 0), (2, 0), (1, 0), (0, 0)]"

lemma listening_simps [simp]:
  "natural listening" "map_of listening 3 = Some 0" "map_of listening 0 = Some 0" "lowest_free listening = 4"
  by (simp_all add: listening_def natural_def lowest_free_def)

lemma first_connection:
  "fd_step careful \<lparr>sw_socket = 3\<rparr> \<lparr>fs_table = listening, fs_lives = []\<rparr> \<lparr>fs_table = (4, 0) # listening, fs_lives = [Serving \<lparr>sw_socket = 4\<rparr>]\<rparr>"
  using fd_step.accepted [of careful "\<lparr>fs_table = listening, fs_lives = []\<rparr>" "\<lparr>sw_socket = 3\<rparr>" willing "\<lparr>sw_socket = 4\<rparr>" "(4, 0) # listening"]
  by (simp add: settled_def accept_round_cases)

text \<open>
  C35: as long as no connection is accepted between the return of another connection's thread and the destruction of
  its wrapper, every connection that is served has an open descriptor of its own: it stands for this
  connection, and no other one uses it.
\<close>

theorem served_connection_owns_descriptor:
  assumes "fd_steps True w \<lparr>fs_table = t, fs_lives = []\<rparr> s" "natural t"
    and "i < length (fs_lives s)" "fs_lives s ! i = Serving c"
  shows "map_of (fs_table s) (sw_socket c) = Some i
    \<and> (\<forall>j < length (fs_lives s). fs_lives s ! j = Serving c \<longrightarrow> j = i)"
proof -
  have "fd_inv s"
    using fd_steps_inv [OF assms(1)] assms(2) by (simp add: fd_inv_def)
  then have own: "owns (fs_table s) j (Serving c)" if "j < length (fs_lives s)" "fs_lives s ! j = Serving c" for j
    using that by (metis fd_inv_def)
  from own [OF assms(3,4)] own show ?thesis by (auto simp: owns_def)
qed

theorem served_connection_owns_descriptor_witness: "map_of ((4, 0) # listening) 4 = Some 0"
  using served_connection_owns_descriptor
      [OF fd_steps.more [OF fd_steps.none first_connection] listening_simps(1), of 0 "\<lparr>sw_socket = 4\<rparr>"]
  by simp

text \<open>
  C34: a wrapper gives its descriptor back twice, in \<open>close()\<close> and in its destructor. A connection that is accepted in
  between gets the same number and loses it to the destructor; the next one gets it again. Then two
  threads serve through one descriptor, which belongs to the later client: the earlier client's thread
  reads the later client's requests.
\<close>

theorem clients_share_descriptor:
  assumes "natural t" "map_of t (sw_socket w) \<noteq> None" "map_of t 0 \<noteq> None"
  shows "\<exists>s c. fd_steps False w \<lparr>fs_table = t, fs_lives = []\<rparr> s \<and> fs_lives s = [Destroyed, Serving c, Serving c]
    \<and> map_of (fs_table s) (sw_socket c) = Some 2"
proof -
  let ?fd = "lowest_free t" let ?c = "\<lparr>sw_socket = ?fd\<rparr>"
  have acc: "accept_round w (Some k) willing t = (Some ?c, (?fd, k) # t)" for k
    using accept_round_cases [OF assms(1)] assms(2) by simp
  have "?fd \<noteq> 0"
    using lowest_free(1) [of t] assms(3) by auto
  then have del: "delete_SocketWrapper ?c ((?fd, k) # t) = t" for k
    by (simp add: delete_SocketWrapper_def os_close_fd_def delete_absent lowest_free(1))
  let ?s = "\<lambda>t ls. \<lparr>fs_table = t, fs_lives = ls\<rparr>"
  have "fd_step False w (?s t []) (?s ((?fd, 0) # t) [Serving ?c])"
    using fd_step.accepted [of False "?s t []" w willing] acc [of 0] by simp
  moreover have "fd_step False w (?s ((?fd, 0) # t) [Serving ?c]) (?s t [Returned ?c])"
    using fd_step.hang_up [of 0 "?s ((?fd, 0) # t) [Serving ?c]" ?c False w] by simp
  moreover have "fd_step False w (?s t [Returned ?c]) (?s ((?fd, 1) # t) [Returned ?c, Serving ?c])"
    using fd_step.accepted [of False "?s t [Returned ?c]" w willing] acc [of 1] by simp
  moreover have "fd_step False w (?s ((?fd, 1) # t) [Returned ?c, Serving ?c]) (?s t [Destroyed, Serving ?c])"
    using fd_step.destroy [of 0 "?s ((?fd, 1) # t) [Returned ?c, Serving ?c]" ?c False w] del by simp
  moreover have "fd_step False w (?s t [Destroyed, Serving ?c]) (?s ((?fd, 2) # t) [Destroyed, Serving ?c, Serving ?c])"
    using fd_step.accepted [of False "?s t [Destroyed, Serving ?c]" w willing] acc [of 2] by (simp add: numeral_2_eq_2)
  ultimately have "fd_steps False w (?s t []) (?s ((?fd, 2) # t) [Destroyed, Serving ?c, Serving ?c])"
    by (meson fd_steps.intros)
  then show ?thesis
    by (intro exI [of _ "?s ((?fd, 2) # t) [Destroyed, Serving ?c, Serving ?c]"] exI [of _ ?c]) simp
qed

theorem clients_share_descriptor_witness:
  "\<exists>s c. fd_steps False \<lparr>sw_socket = 3\<rparr> \<lparr>fs_table = listening, fs_lives = []\<rparr> s
     \<and> fs_lives s = [Destroyed, Serving c, Serving c] \<and> map_of (fs_table s) (sw_socket c) = Some 2"
  using clients_share_descriptor [of listening "\<lparr>sw_socket = 3\<rparr>"] by simp

text \<open>
  A failed \<open>accept\<close> is noticed, though not by the null test that the accepting thread makes: the wrapper it gets is not
  null but invalid on both platforms, setting \<open>TCP_NODELAY\<close> on it fails, and the round ends with no thread
  started and the open descriptors as they were.
\<close>

lemma failed_accept_harmless:
  assumes "natural t"
  shows "\<exists>c. SocketWrapper_accept w None t = (Some c, t) \<and> \<not> valid p c \<and> accept_round w None sys t = (None, t)"
  using accept_round_cases [OF assms, of w None sys]
  by (auto simp: SocketWrapper_accept_def os_new_fd_def valid_def split: platform.split)

end
