(* ===== verification/Iteration.thy ===== *)
theory Iteration
  imports Client
begin

text \<open>
  Walking a process snapshot from several connections at once. \<open>handleCommandIterateProcessesNext\<close> calls the handle
  table up to three times, each under the table's own mutex, and then uses the entry through a
  pointer, with no mutex at all. The handler is cut into these sections here, and the connections'
  sections are interleaved: the table hands out every entry once, and the pointer is good only as
  long as no other connection closes the handle.
\<close>


section \<open>Sections of the handler\<close>

text \<open>
  A pointer into a snapshot: the handle and the index. It can be used while the snapshot is in the table: the
  map's nodes and the vectors in them do not move when other entries are added. (A snapshot that is stored
  under the same handle after a close would not make an old pointer good again; handles are not drawn
  twice, and no property below concerns such a run.)
\<close>

definition entry_at :: "client_state \<Rightarrow> handle \<Rightarrow> nat \<Rightarrow> fault + ProcessInfo" where
  "entry_at st h k =
     (case map_of (handlesToProcessInfoSnapshots st) h of
        None \<Rightarrow> Inl Use_after_free
      | Some ps \<Rightarrow> (if k < length ps then Inr (ps ! k) else Inl Use_after_free))"

text \<open>
  Where a connection's thread is: between commands, after the test of the handle, after the rewinding, with a
  pointer to the entry to send, about to leave with its reply, or at a fault.
\<close>

datatype iter_place =
    Iter_idle | Iter_checked byte handle | Iter_rewound handle | Iter_holds handle nat
  | Iter_reply "ProcessInfo option" | Iter_fault fault

record iter_sys =
  it_table :: client_state
  it_place :: "nat \<Rightarrow> iter_place"
  it_given :: "handle \<Rightarrow> nat list"

text \<open>
  \<open>it_given\<close> records the indices of the entries that were handed out since the snapshot was last rewound. The flag
  tells whether other connections may close handles meanwhile.
\<close>

inductive iter_step :: "bool \<Rightarrow> iter_sys \<Rightarrow> iter_sys \<Rightarrow> bool" for closing :: bool where
  check: "it_place s t = Iter_idle \<Longrightarrow>
    iter_step closing s (s\<lparr>it_place := (it_place s)(t :=
      if containsProcessInfoHandle (it_table s) h then Iter_checked command h else Iter_reply None)\<rparr>)"
| rewind: "it_place s t = Iter_checked CMD_PROCESS32FIRST h \<Longrightarrow>
    iter_step closing s (s\<lparr>it_table := resetProcessIterator (it_table s) h, it_place := (it_place s)(t := Iter_rewound h),
      it_given := (it_given s)(h := [])\<rparr>)"
| go_on: "it_place s t = Iter_checked command h \<Longrightarrow> command \<noteq> CMD_PROCESS32FIRST \<Longrightarrow>
    iter_step closing s (s\<lparr>it_place := (it_place s)(t := Iter_rewound h)\<rparr>)"
| take_next: "it_place s t = Iter_rewound h \<Longrightarrow> nextProcessInfo (it_table s) h = (Some p, st) \<Longrightarrow>
    process_cursor (it_table s) h = Some (ps, k) \<Longrightarrow>
    iter_step closing s (s\<lparr>it_table := st, it_place := (it_place s)(t := Iter_holds h k),
      it_given := (it_given s)(h := it_given s h @ [k])\<rparr>)"
| at_end: "it_place s t = Iter_rewound h \<Longrightarrow> nextProcessInfo (it_table s) h = (None, st) \<Longrightarrow>
    iter_step closing s (s\<lparr>it_table := st, it_place := (it_place s)(t := Iter_reply None)\<rparr>)"
| use_entry: "it_place s t = Iter_holds h k \<Longrightarrow>
    iter_step closing s (s\<lparr>it_place := (it_place s)(t :=
      case entry_at (it_table s) h k of Inl e \<Rightarrow> Iter_fault e | Inr p \<Rightarrow> Iter_reply (Some p))\<rparr>)"
| leave: "it_place s t = Iter_reply r \<Longrightarrow> iter_step closing s (s\<lparr>it_place := (it_place s)(t := Iter_idle)\<rparr>)"
| close: "closing \<Longrightarrow> iter_step closing s (s\<lparr>it_table := closeHandle (it_table s) h\<rparr>)"
| store: "process_cursor (it_table s) h = None \<Longrightarrow> length ps < 2 ^ 31 \<Longrightarrow>
    iter_step closing s (s\<lparr>it_table := snd (storeProcessSnapshot_at (it_table s) ps h), it_given := (it_given s)(h := [])\<rparr>)"

inductive iter_steps :: "bool \<Rightarrow> iter_sys \<Rightarrow> iter_sys \<Rightarrow> bool" for closing :: bool where
  none: "iter_steps closing s s"
| more: "iter_steps closing s s' \<Longrightarrow> iter_step closing s' s'' \<Longrightarrow> iter_steps closing s s''"

definition new_iter_sys :: "client_state \<Rightarrow> iter_sys" where
  "new_iter_sys st =
     \<lparr>it_table = st, it_place = (\<lambda>t. Iter_idle),
      it_given = (\<lambda>h. case process_cursor st h of None \<Rightarrow> [] | Some (ps, i) \<Rightarrow> [0..<i])\<rparr>"


section \<open>Every entry once\<close>

definition iter_place_ok :: "client_state \<Rightarrow> iter_place \<Rightarrow> bool" where
  "iter_place_ok st pl =
     (case pl of
        Iter_checked command h \<Rightarrow> process_cursor st h \<noteq> None
      | Iter_rewound h \<Rightarrow> process_cursor st h \<noteq> None
      | Iter_holds h k \<Rightarrow> (\<exists>ps i. process_cursor st h = Some (ps, i) \<and> k < length ps)
      | Iter_fault e \<Rightarrow> False
      | _ \<Rightarrow> True)"

definition iter_inv :: "iter_sys \<Rightarrow> bool" where
  "iter_inv s \<longleftrightarrow> cs_inv (it_table s) \<and> (\<forall>t. iter_place_ok (it_table s) (it_place s t))
     \<and> (\<forall>h ps i. process_cursor (it_table s) h = Some (ps, i) \<longrightarrow> it_given s h = [0..<i])"

lemma entry_at_cursor: "process_cursor st h = Some (ps, i) \<Longrightarrow> k < length ps \<Longrightarrow> entry_at st h k = Inr (ps ! k)"
  by (auto simp: process_cursor_def cursor_of_def entry_at_def)

lemma entry_at_closed: "process_cursor st h = None \<Longrightarrow> entry_at st h k = Inl Use_after_free"
  by (simp add: process_cursor_def cursor_of_def entry_at_def)

text \<open>The entry that \<open>nextProcessInfo\<close> returns is the one at the cursor, which moves on by one.\<close>

lemma next_at_cursor:
  assumes "cs_inv st" "nextProcessInfo st h = (x, st')" "process_cursor st h = Some (ps, k)"
  shows "cs_inv st'" "x \<noteq> None \<Longrightarrow> k < length ps \<and> process_cursor st' = (process_cursor st)(h \<mapsto> (ps, Suc k))"
    "x = None \<Longrightarrow> process_cursor st' = process_cursor st"
  using processes.next_element [OF assms(1,3)] processes.next_end [OF assms(1,3)] assms(2)
  by (cases "k < length ps"; force)+

text \<open>A change of the table that keeps the snapshots keeps the threads' places good.\<close>

lemma iter_place_ok_mono:
  assumes "iter_place_ok st pl" "\<And>h ps i. process_cursor st h = Some (ps, i) \<Longrightarrow> \<exists>j. process_cursor st' h = Some (ps, j)"
  shows "iter_place_ok st' pl"
  using assms by (fastforce simp: iter_place_ok_def split: iter_place.splits)

lemma iter_invI:
  assumes "iter_inv s" "cs_inv (it_table s')"
    and "\<And>h ps i. process_cursor (it_table s) h = Some (ps, i) \<Longrightarrow> \<exists>j. process_cursor (it_table s') h = Some (ps, j)"
    and "\<And>t'. it_place s' t' = it_place s t' \<or> iter_place_ok (it_table s') (it_place s' t')"
    and "\<And>h ps i. process_cursor (it_table s') h = Some (ps, i) \<Longrightarrow> it_given s' h = [0..<i]"
  shows "iter_inv s'"
  using assms iter_place_ok_mono unfolding iter_inv_def by metis

lemma iter_step_inv:
  assumes "iter_step False s s'" "iter_inv s"
  shows "iter_inv s'"
proof -
  have inv: "cs_inv (it_table s)" "\<And>t. iter_place_ok (it_table s) (it_place s t)"
      "\<And>h ps i. process_cursor (it_table s) h = Some (ps, i) \<Longrightarrow> it_given s h = [0..<i]"
    using assms(2) by (auto simp: iter_inv_def)
  show ?thesis
    using assms(1)
  proof cases
    case (check t h command)
    then show ?thesis
      using inv processes.contains_cursor [of "it_table s" h]
      by (intro iter_invI [OF assms(2)]) (auto simp: iter_place_ok_def)
  next
    case (rewind t h)
    then obtain ps i where cur: "process_cursor (it_table s) h = Some (ps, i)"
      using inv(2) [of t] by (auto simp: iter_place_ok_def)
    from rewind inv cur processes.reset_cursor [OF inv(1) cur] show ?thesis
      by (intro iter_invI [OF assms(2)]) (auto simp: iter_place_ok_def)
  next
    case (go_on t command h)
    then show ?thesis
      using inv inv(2) [of t] by (intro iter_invI [OF assms(2)]) (auto simp: iter_place_ok_def)
  next
    case (take_next t h p st ps k)
    note nxt = next_at_cursor [OF inv(1) take_next(3,4)]
    then show ?thesis
      using take_next inv(3) [OF take_next(4)] inv
      by (intro iter_invI [OF assms(2)]) (auto simp: iter_place_ok_def split: if_splits)
  next
    case (at_end t h st)
    then obtain ps i where "process_cursor (it_table s) h = Some (ps, i)"
      using inv(2) [of t] by (auto simp: iter_place_ok_def)
    note nxt = next_at_cursor [OF inv(1) at_end(3) this]
    with at_end inv show ?thesis
      by (intro iter_invI [OF assms(2)]) (auto simp: iter_place_ok_def)
  next
    case (use_entry t h k)
    then obtain ps i where "process_cursor (it_table s) h = Some (ps, i)" "k < length ps"
      using inv(2) [of t] by (auto simp: iter_place_ok_def)
    then have "entry_at (it_table s) h k = Inr (ps ! k)"
      by (rule entry_at_cursor)
    with use_entry inv show ?thesis
      by (intro iter_invI [OF assms(2)]) (auto simp: iter_place_ok_def)
  next
    case (leave t r)
    then show ?thesis
      using inv by (intro iter_invI [OF assms(2)]) (auto simp: iter_place_ok_def)
  next
    case (store h ps)
    note fresh = processes.store_fresh [OF inv(1) store(2,3)]
    with store inv show ?thesis
      by (intro iter_invI [OF assms(2)]) (auto split: if_splits)
  qed simp
qed

lemma iter_steps_inv: "iter_steps False s s' \<Longrightarrow> iter_inv s \<Longrightarrow> iter_inv s'"
  by (induction rule: iter_steps.induct) (auto intro: iter_step_inv)

lemma new_iter_sys_inv: "cs_inv st \<Longrightarrow> iter_inv (new_iter_sys st)"
  by (simp add: iter_inv_def new_iter_sys_def iter_place_ok_def)

section \<open>Properties\<close>

text \<open>A table with one snapshot of two processes under handle 1.\<close>

definition two_processes :: client_state where
  "two_processes = new_ClientState\<lparr>lastHandleID := 1, processIter := [(1, 0)],
     handlesToProcessInfoSnapshots := [(1, [\<lparr>pi_name = ''a.exe'', pi_pid = 4\<rparr>, \<lparr>pi_name = ''b.exe'', pi_pid = 5\<rparr>])]\<rparr>"

lemma two_processes_simps:
  "cs_inv two_processes"
  "process_cursor two_processes 1 = Some ([\<lparr>pi_name = ''a.exe'', pi_pid = 4\<rparr>, \<lparr>pi_name = ''b.exe'', pi_pid = 5\<rparr>], 0)"
  by (simp_all add: two_processes_def new_ClientState_def cs_inv_def cursors_ok_def cursor_of_def process_cursor_def umap_ok_def)

text \<open>The sections of one handler up to the pointer, with no other thread in between.\<close>

lemma reach_entry:
  assumes "cs_inv st" "process_cursor st h = Some (ps, i)" "ps \<noteq> []"
  shows "\<exists>s. iter_steps closing (new_iter_sys st) s \<and> it_place s t = Iter_holds h 0
    \<and> cs_inv (it_table s) \<and> process_cursor (it_table s) h = Some (ps, 1)"
proof -
  let ?s0 = "new_iter_sys st" and ?st1 = "resetProcessIterator st h"
  let ?s1 = "?s0\<lparr>it_place := (it_place ?s0)(t := Iter_checked CMD_PROCESS32FIRST h)\<rparr>"
  let ?s2 = "?s1\<lparr>it_table := ?st1, it_place := (it_place ?s1)(t := Iter_rewound h), it_given := (it_given ?s1)(h := [])\<rparr>"
  have "containsProcessInfoHandle st h"
    using assms(2) by (simp add: processes.contains_cursor)
  then have "iter_step closing ?s0 ?s1"
    using iter_step.check [of ?s0 t closing h CMD_PROCESS32FIRST] by (simp add: new_iter_sys_def)
  moreover have "iter_step closing ?s1 ?s2"
    using iter_step.rewind [of ?s1 t h closing] by (simp add: new_iter_sys_def)
  moreover have reset: "cs_inv ?st1" "process_cursor ?st1 h = Some (ps, 0)"
    using processes.reset_cursor [OF assms(1,2)] by simp_all
  then obtain st2 where nxt: "nextProcessInfo ?st1 h = (Some (ps ! 0), st2)"
      "cs_inv st2" "process_cursor st2 h = Some (ps, 1)"
    using processes.next_element [OF reset] assms(3) by auto
  moreover have "iter_step closing ?s2 (?s2\<lparr>it_table := st2, it_place := (it_place ?s2)(t := Iter_holds h 0),
      it_given := (it_given ?s2)(h := it_given ?s2 h @ [0])\<rparr>)" (is "iter_step _ _ ?s3")
    by (rule iter_step.take_next [where p = "ps ! 0" and ps = ps]) (use nxt(1) reset(2) in simp_all)
  ultimately have "iter_steps closing ?s0 ?s3"
    by (meson iter_steps.intros)
  then show ?thesis
    using nxt by (intro exI [of _ ?s3]) simp
qed

text \<open>
  C31: connections that walk the same process snapshot share it: as long as nobody closes a handle, no thread faults,
  the indices handed out since the last rewinding are \<open>0\<close>, \<open>1\<close>, ... up to the position, each to one
  thread only, and a thread that holds a pointer finds the entry at that index of the snapshot.
\<close>

theorem concurrent_walk_shares:
  assumes "cs_inv st" "iter_steps False (new_iter_sys st) s"
  shows "(\<forall>h ps i. process_cursor (it_table s) h = Some (ps, i) \<longrightarrow> it_given s h = [0..<i])
    \<and> (\<forall>t e. it_place s t \<noteq> Iter_fault e)
    \<and> (\<forall>t h k. it_place s t = Iter_holds h k \<longrightarrow>
         (\<exists>ps i. process_cursor (it_table s) h = Some (ps, i) \<and> k < length ps \<and> entry_at (it_table s) h k = Inr (ps ! k)))"
proof -
  have inv: "iter_inv s"
    by (rule iter_steps_inv [OF assms(2) new_iter_sys_inv [OF assms(1)]])
  then have place: "iter_place_ok (it_table s) (it_place s t)" for t
    by (simp add: iter_inv_def)
  have "it_place s t \<noteq> Iter_fault e" for t e
    using place [of t] by (auto simp: iter_place_ok_def)
  moreover have "\<exists>ps i. process_cursor (it_table s) h = Some (ps, i) \<and> k < length ps \<and> entry_at (it_table s) h k = Inr (ps ! k)"
    if "it_place s t = Iter_holds h k" for t h k
    using place [of t] that entry_at_cursor by (fastforce simp: iter_place_ok_def)
  ultimately show ?thesis
    using inv by (auto simp: iter_inv_def)
qed

theorem concurrent_walk_shares_witness:
  "\<exists>s. iter_steps False (new_iter_sys two_processes) s \<and> it_place s 0 = Iter_holds 1 0 \<and> it_given s 1 = [0]
     \<and> entry_at (it_table s) 1 0 = Inr \<lparr>pi_name = ''a.exe'', pi_pid = 4\<rparr>"
proof -
  obtain s where s: "iter_steps False (new_iter_sys two_processes) s" "it_place s 0 = Iter_holds 1 0"
      "process_cursor (it_table s) 1 = Some ([\<lparr>pi_name = ''a.exe'', pi_pid = 4\<rparr>, \<lparr>pi_name = ''b.exe'', pi_pid = 5\<rparr>], 1)"
    using reach_entry [OF two_processes_simps] by blast
  from concurrent_walk_shares [OF two_processes_simps(1) s(1)] s show ?thesis
    by fastforce
qed

text \<open>
  C32: a close from another connection invalidates the entry that a thread is about to send. From every table with a
  non-empty process snapshot there is a run in which a handler has got its pointer, another connection
  closes the handle, and the handler then uses released memory.
\<close>

theorem close_during_walk:
  assumes "cs_inv st" "process_cursor st h = Some (ps, i)" "ps \<noteq> []"
  shows "\<exists>s. iter_steps True (new_iter_sys st) s \<and> it_place s t = Iter_fault Use_after_free"
proof -
  obtain s where s: "iter_steps True (new_iter_sys st) s" "it_place s t = Iter_holds h 0" "cs_inv (it_table s)"
    using reach_entry [OF assms, of True t] by blast
  let ?s1 = "s\<lparr>it_table := closeHandle (it_table s) h\<rparr>"
  have "iter_step True s ?s1"
    by (rule iter_step.close) simp
  moreover have "process_cursor (it_table ?s1) h = None"
    using processes.close_cursor [OF s(3), of h] by simp
  then have "iter_step True ?s1 (?s1\<lparr>it_place := (it_place ?s1)(t := Iter_fault Use_after_free)\<rparr>)"
    using iter_step.use_entry [of ?s1 t h 0 True] s(2) entry_at_closed [of "it_table ?s1" h 0] by simp
  ultimately have "iter_steps True (new_iter_sys st) (?s1\<lparr>it_place := (it_place ?s1)(t := Iter_fault Use_after_free)\<rparr>)"
    using s(1) by (meson iter_steps.more)
  then show ?thesis by (rule_tac exI, intro conjI, assumption) simp
qed

theorem close_during_walk_witness:
  "\<exists>s. iter_steps True (new_iter_sys two_processes) s \<and> it_place s 0 = Iter_fault Use_after_free"
  by (rule close_during_walk [OF two_processes_simps]) simp

end
