(* ===== verification/Access.thy ===== *)
theory Access
  imports Readers
begin

text \<open>
  The device under the binary semaphore of \<^verbatim>\<open>Memory\<close>: \<open>Memory::dispatch\<close> cut into its device calls, as it runs in the
  task that \<open>dispatchLoop\<close> starts, beside writers in \<open>Memory::write\<close>, readers in \<open>Memory::read\<close>, and snapshot calls, which
  do not take the semaphore. The semaphore keeps writes out of a batch, it is always given back, and
  a read is answered from the device after it was asked for and by calls between which no write
  takes place.
\<close>


section \<open>The task, the writers and the semaphore\<close>

text \<open>
  The places of the task, named after what it does next; \<open>Sc_prepare\<close> has the requests that are still to be
  prepared. The batch whose promises are still to be set is in the phase of the read path.
\<close>

datatype task =
    No_task | At_acquire | Seq_loop | Seq_free nat | Sc_init
  | Sc_prepare scatter_handle "(string \<times> nat) list" | Sc_read scatter_handle | At_release

record write_call =
  wr_buffer :: "byte list"
  wr_pid :: pid
  wr_address :: address
  wr_size :: u64

datatype writer = W_idle "u64 option" | W_acquire write_call | W_write write_call | W_release u64

text \<open>
  \<open>ac_hist\<close> records every state of the device, the present one last; \<open>ac_from\<close> the position in it at which a thread's
  read was called; \<open>ac_session\<close> and \<open>ac_executed\<close> those of the task's last \<open>VMMDLL_Scatter_Initialize\<close> and
  \<open>VMMDLL_Scatter_Execute\<close>. The program does not have them.
\<close>

record 'd access_sys =
  ac_data :: "'d read_sys"
  ac_sem :: nat
  ac_task :: task
  ac_writer :: "nat \<Rightarrow> writer"
  ac_hist :: "'d device list"
  ac_from :: "nat \<Rightarrow> nat"
  ac_session :: nat
  ac_executed :: nat

definition new_access_sys :: "'d device \<Rightarrow> 'd access_sys" where
  "new_access_sys D =
     \<lparr>ac_data = new_read_sys D, ac_sem = 1, ac_task = No_task, ac_writer = (\<lambda>w. W_idle None), ac_hist = [D],
      ac_from = (\<lambda>t. 0), ac_session = 0, ac_executed = 0\<rparr>"

text \<open>The device is in another state after a call.\<close>

definition device_to :: "'d device \<Rightarrow> 'd access_sys \<Rightarrow> 'd access_sys" where
  "device_to D s = s\<lparr>ac_data := (ac_data s)\<lparr>rs_device := D\<rparr>, ac_hist := ac_hist s @ [D]\<rparr>"

text \<open>\<open>promise.set_value\<close> for the first request of the batch that is left, after the device call that answered it.\<close>

definition set_promise :: "pid \<Rightarrow> string \<times> nat \<Rightarrow> (string \<times> nat) list \<Rightarrow> u64 \<times> byte list \<Rightarrow> 'd access_sys \<Rightarrow> 'd access_sys" where
  "set_promise p x todo v s =
     (let (items, buffers) = fulfil [x] [v] (rs_items (ac_data s)) (rs_buffers (ac_data s))
      in s\<lparr>ac_data := (ac_data s)\<lparr>rs_items := items, rs_buffers := buffers, rs_phase := Dispatching p todo\<rparr>\<rparr>)"

inductive task_step :: "'d vmmdll \<Rightarrow> vmm_handle \<Rightarrow> 'd access_sys \<Rightarrow> 'd access_sys \<Rightarrow> bool"
  for api :: "'d vmmdll" and h :: vmm_handle where
  acquire: "ac_task s = At_acquire \<Longrightarrow> 0 < ac_sem s \<Longrightarrow> rs_phase (ac_data s) = Dispatching p batch \<Longrightarrow> mset order = mset batch \<Longrightarrow>
    task_step api h s (s\<lparr>ac_sem := ac_sem s - 1, ac_data := (ac_data s)\<lparr>rs_phase := Dispatching p order\<rparr>,
      ac_task := (if length order \<le> SCATTER_READ_THRESHOLD then Seq_loop else Sc_init)\<rparr>)"
| seq_read: "ac_task s = Seq_loop \<Longrightarrow> rs_phase (ac_data s) = Dispatching p (x # todo) \<Longrightarrow>
    sequential_read api h p (rs_device (ac_data s)) (rs_items (ac_data s) ! snd x) = (v, D) \<Longrightarrow>
    task_step api h s ((set_promise p x todo v (device_to D s))\<lparr>ac_task := Seq_free (length (rs_buffers (ac_data s)))\<rparr>)"
| seq_free: "ac_task s = Seq_free b \<Longrightarrow> D = VMMDLL_MemFree (rs_device (ac_data s)) PromiseBuffer \<Longrightarrow>
    s' = s\<lparr>ac_data := (ac_data s)\<lparr>rs_buffers := (rs_buffers (ac_data s))[b := None]\<rparr>, ac_task := Seq_loop\<rparr> \<Longrightarrow>
    task_step api h s (device_to D s')"
| seq_end: "ac_task s = Seq_loop \<Longrightarrow> rs_phase (ac_data s) = Dispatching p [] \<Longrightarrow>
    task_step api h s (s\<lparr>ac_task := At_release\<rparr>)"
| initialize: "ac_task s = Sc_init \<Longrightarrow> rs_phase (ac_data s) = Dispatching p batch \<Longrightarrow>
    VMMDLL_Scatter_Initialize api (rs_device (ac_data s)) h p (scatterFlags api) = (sc, D) \<Longrightarrow>
    task_step api h s ((device_to D s)\<lparr>ac_task := Sc_prepare sc batch, ac_session := length (ac_hist s) - 1\<rparr>)"
| prepare: "ac_task s = Sc_prepare sc (x # todo) \<Longrightarrow> it = rs_items (ac_data s) ! snd x \<Longrightarrow>
    VMMDLL_Scatter_Prepare api (rs_device (ac_data s)) sc (bi_address it) (ucast (bi_size it)) = (ok, D) \<Longrightarrow>
    task_step api h s ((device_to D s)\<lparr>ac_task := Sc_prepare sc todo\<rparr>)"
| execute: "ac_task s = Sc_prepare sc [] \<Longrightarrow>
    VMMDLL_Scatter_Execute api (rs_device (ac_data s)) sc = (ok, D) \<Longrightarrow>
    task_step api h s ((device_to D s)\<lparr>ac_task := Sc_read sc, ac_executed := length (ac_hist s) - 1\<rparr>)"
| scatter_read: "ac_task s = Sc_read sc \<Longrightarrow> rs_phase (ac_data s) = Dispatching p (x # todo) \<Longrightarrow>
    it = rs_items (ac_data s) ! snd x \<Longrightarrow>
    VMMDLL_Scatter_Read api (rs_device (ac_data s)) sc (bi_address it) (ucast (bi_size it)) = (ok, bs, r, D) \<Longrightarrow>
    task_step api h s (set_promise p x todo (ucast r, promise_buffer (bi_size it) bs) (device_to D s))"
| scatter_close: "ac_task s = Sc_read sc \<Longrightarrow> rs_phase (ac_data s) = Dispatching p [] \<Longrightarrow>
    D = VMMDLL_Scatter_CloseHandle api (rs_device (ac_data s)) sc \<Longrightarrow>
    task_step api h s ((device_to D s)\<lparr>ac_task := At_release\<rparr>)"
| release: "ac_task s = At_release \<Longrightarrow>
    task_step api h s (s\<lparr>ac_sem := ac_sem s + 1, ac_data := (ac_data s)\<lparr>rs_phase := Idle\<rparr>, ac_task := No_task\<rparr>)"

text \<open>\<open>Memory::write\<close>. The semaphore is given back on both paths.\<close>

inductive writer_step :: "'d vmmdll \<Rightarrow> vmm_handle \<Rightarrow> 'd access_sys \<Rightarrow> 'd access_sys \<Rightarrow> bool"
  for api :: "'d vmmdll" and h :: vmm_handle where
  w_call: "ac_writer s w = W_idle u \<Longrightarrow>
    writer_step api h s (s\<lparr>ac_writer := (ac_writer s)(w := W_acquire wr)\<rparr>)"
| w_acquire: "ac_writer s w = W_acquire wr \<Longrightarrow> 0 < ac_sem s \<Longrightarrow>
    writer_step api h s (s\<lparr>ac_sem := ac_sem s - 1, ac_writer := (ac_writer s)(w := W_write wr)\<rparr>)"
| w_write: "ac_writer s w = W_write wr \<Longrightarrow>
    VMMDLL_MemWrite api (rs_device (ac_data s)) h (wr_pid wr) (wr_address wr) (wr_buffer wr) (ucast (wr_size wr)) = (ok, D) \<Longrightarrow>
    writer_step api h s ((device_to D s)\<lparr>ac_writer := (ac_writer s)(w := W_release (if ok then wr_size wr else - 1))\<rparr>)"
| w_release: "ac_writer s w = W_release u \<Longrightarrow>
    writer_step api h s (s\<lparr>ac_sem := ac_sem s + 1, ac_writer := (ac_writer s)(w := W_idle (Some u))\<rparr>)"

text \<open>The calls of snapshots and process queries.\<close>

inductive query_call :: "'d vmmdll \<Rightarrow> vmm_handle \<Rightarrow> 'd device \<Rightarrow> 'd device \<Rightarrow> bool"
  for api :: "'d vmmdll" and h :: vmm_handle where
  "VMMDLL_PidList api D h has_buffer n = (ok, pids, n', D') \<Longrightarrow> query_call api h D D'"
| "VMMDLL_ProcessGetInformationString api D h p opt = (name, D') \<Longrightarrow> query_call api h D D'"
| "VMMDLL_Map_GetVadU api D h p identify = (ok, es, D') \<Longrightarrow> query_call api h D D'"
| "VMMDLL_Map_GetThread api D h p = (ok, ts, D') \<Longrightarrow> query_call api h D D'"
| "VMMDLL_ProcessGetInformation api D h p = (ok, mm, D') \<Longrightarrow> query_call api h D D'"
| "D' = VMMDLL_MemFree D m \<Longrightarrow> query_call api h D D'"

text \<open>All threads in any order.\<close>

inductive access_step :: "'d vmmdll \<Rightarrow> vmm_handle \<Rightarrow> 'd access_sys \<Rightarrow> 'd access_sys \<Rightarrow> bool"
  for api :: "'d vmmdll" and h :: vmm_handle where
  enqueue: "rs_waiting (ac_data s) t = None \<Longrightarrow> read_enqueue (ac_data s) p a n = (i, d) \<Longrightarrow>
    access_step api h s (s\<lparr>ac_data :=
        d\<lparr>rs_waiting := (rs_waiting (ac_data s))(t \<mapsto> \<lparr>rd_pid = p, rd_address = a, rd_size = n, rd_item = i\<rparr>)\<rparr>,
      ac_from := (ac_from s)(t := length (ac_hist s) - 1)\<rparr>)"
| finish: "rs_waiting (ac_data s) t = Some rd \<Longrightarrow> read_finish (ac_data s) rd = Inr (v, d) \<Longrightarrow>
    access_step api h s (s\<lparr>ac_data :=
        d\<lparr>rs_waiting := (rs_waiting (ac_data s))(t := None), rs_done := (rs_done (ac_data s))(t \<mapsto> (rd, v))\<rparr>\<rparr>)"
| round: "ac_task s = No_task \<Longrightarrow> rs_backlog (ac_data s) \<noteq> [] \<Longrightarrow> mset order = mset (rs_backlog (ac_data s)) \<Longrightarrow>
    access_step api h s (s\<lparr>ac_data := dispatch_round (ac_data s) order, ac_task := At_acquire\<rparr>)"
| task: "task_step api h s s' \<Longrightarrow> access_step api h s s'"
| writer: "writer_step api h s s' \<Longrightarrow> access_step api h s s'"
| query: "query_call api h (rs_device (ac_data s)) D \<Longrightarrow> access_step api h s (device_to D s)"

inductive access_steps :: "'d vmmdll \<Rightarrow> vmm_handle \<Rightarrow> 'd access_sys \<Rightarrow> 'd access_sys \<Rightarrow> bool"
  for api :: "'d vmmdll" and h :: vmm_handle where
  none: "access_steps api h s s"
| more: "access_steps api h s s' \<Longrightarrow> access_step api h s' s'' \<Longrightarrow> access_steps api h s s''"


section \<open>Who holds the semaphore\<close>

definition task_holds :: "task \<Rightarrow> bool" where
  "task_holds k \<longleftrightarrow> k \<noteq> No_task \<and> k \<noteq> At_acquire"

definition writer_holds :: "writer \<Rightarrow> bool" where
  "writer_holds w \<longleftrightarrow> (case w of W_write wr \<Rightarrow> True | W_release u \<Rightarrow> True | _ \<Rightarrow> False)"

lemma holds_simps [simp]:
  "\<not> task_holds No_task" "\<not> task_holds At_acquire" "task_holds Seq_loop" "task_holds (Seq_free b)" "task_holds Sc_init"
  "task_holds (Sc_prepare sc todo)" "task_holds (Sc_read sc)" "task_holds At_release"
  "\<not> writer_holds (W_idle u)" "\<not> writer_holds (W_acquire wr)" "writer_holds (W_write wr)" "writer_holds (W_release v)"
  by (simp_all add: task_holds_def writer_holds_def)

definition in_scatter :: "task \<Rightarrow> bool" where
  "in_scatter k \<longleftrightarrow> (case k of Sc_prepare sc todo \<Rightarrow> True | Sc_read sc \<Rightarrow> True | _ \<Rightarrow> False)"

lemma in_scatter_simps [simp]:
  "\<not> in_scatter No_task" "\<not> in_scatter At_acquire" "\<not> in_scatter Seq_loop" "\<not> in_scatter (Seq_free b)" "\<not> in_scatter Sc_init"
  "in_scatter (Sc_prepare sc todo)" "in_scatter (Sc_read sc)" "\<not> in_scatter At_release"
  by (simp_all add: in_scatter_def)

lemma in_scatter_holds: "in_scatter k \<Longrightarrow> task_holds k"
  by (simp add: in_scatter_def task_holds_def split: task.splits)

text \<open>The threads between \<open>acquire\<close> and \<open>release\<close>: the task (\<open>None\<close>) and writers.\<close>

definition writers_inside :: "(nat \<Rightarrow> writer) \<Rightarrow> nat set" where
  "writers_inside W = {w. writer_holds (W w)}"

definition holders :: "'d access_sys \<Rightarrow> nat option set" where
  "holders s = (if task_holds (ac_task s) then {None} else {}) \<union> Some ` writers_inside (ac_writer s)"

lemma writers_upd:
  "writer_holds x = writer_holds (W v) \<Longrightarrow> writers_inside (W(v := x)) = writers_inside W"
  "writer_holds x \<Longrightarrow> writers_inside (W(v := x)) = insert v (writers_inside W)"
  "\<not> writer_holds x \<Longrightarrow> writers_inside (W(v := x)) = writers_inside W - {v}"
  by (auto simp: writers_inside_def)

definition sem_ok :: "'d access_sys \<Rightarrow> bool" where
  "sem_ok s \<longleftrightarrow> ac_sem s = 1 \<and> holders s = {} \<or> ac_sem s = 0 \<and> (\<exists>x. holders s = {x})"

text \<open>A step changes the holders by an acquire or a release of one thread, or not at all.\<close>

definition sem_change :: "'d access_sys \<Rightarrow> 'd access_sys \<Rightarrow> bool" where
  "sem_change s s' \<longleftrightarrow>
     (0 < ac_sem s \<and> ac_sem s' = ac_sem s - 1 \<and> (\<exists>x. holders s' = insert x (holders s)))
     \<or> (ac_sem s' = ac_sem s + 1 \<and> (\<exists>x \<in> holders s. holders s' = holders s - {x}))
     \<or> (ac_sem s' = ac_sem s \<and> holders s' = holders s)"

lemma sem_change_ok: "sem_change s s' \<Longrightarrow> sem_ok s \<Longrightarrow> sem_ok s'"
  by (auto simp: sem_change_def sem_ok_def)

lemma sem_change_same: "ac_sem s' = ac_sem s \<Longrightarrow> holders s' = holders s \<Longrightarrow> sem_change s s'"
  by (simp add: sem_change_def)

lemma sem_change_enter:
  "0 < ac_sem s \<Longrightarrow> ac_sem s' = ac_sem s - 1 \<Longrightarrow> holders s' = insert x (holders s) \<Longrightarrow> sem_change s s'"
  by (auto simp: sem_change_def)

lemma sem_change_leave:
  "x \<in> holders s \<Longrightarrow> ac_sem s' = ac_sem s + 1 \<Longrightarrow> holders s' = holders s - {x} \<Longrightarrow> sem_change s s'"
  by (auto simp: sem_change_def)

lemma device_to_simps [simp]:
  "ac_sem (device_to D s) = ac_sem s" "ac_task (device_to D s) = ac_task s" "ac_writer (device_to D s) = ac_writer s"
  "ac_from (device_to D s) = ac_from s" "ac_hist (device_to D s) = ac_hist s @ [D]"
  "ac_session (device_to D s) = ac_session s" "ac_executed (device_to D s) = ac_executed s"
  "ac_data (device_to D s) = (ac_data s)\<lparr>rs_device := D\<rparr>"
  by (simp_all add: device_to_def)

lemma set_promise_simps [simp]:
  "ac_sem (set_promise p x todo v s) = ac_sem s" "ac_task (set_promise p x todo v s) = ac_task s"
  "ac_writer (set_promise p x todo v s) = ac_writer s" "ac_from (set_promise p x todo v s) = ac_from s"
  "ac_hist (set_promise p x todo v s) = ac_hist s" "ac_session (set_promise p x todo v s) = ac_session s"
  "ac_executed (set_promise p x todo v s) = ac_executed s"
  "ac_data (set_promise p x todo v s) =
     (ac_data s)\<lparr>rs_items := (rs_items (ac_data s))[snd x := (rs_items (ac_data s) ! snd x)\<lparr>bi_promise := Some (fst v, length (rs_buffers (ac_data s)))\<rparr>],
       rs_buffers := rs_buffers (ac_data s) @ [Some (snd v)], rs_phase := Dispatching p todo\<rparr>"
  by (cases x; cases v; simp add: set_promise_def)+

lemma task_step_sem:
  assumes "task_step api h s s'"
  shows "sem_change s s'"
  using assms
proof cases
  case (acquire p batch order)
  then show ?thesis by (intro sem_change_enter [where x = None]) (simp_all add: holders_def)
next
  case release
  then show ?thesis by (intro sem_change_leave [where x = None]) (auto simp: holders_def)
qed (auto intro!: sem_change_same simp: holders_def)

lemma writer_step_sem:
  assumes "writer_step api h s s'"
  shows "sem_change s s'"
  using assms
proof cases
  case (w_call w u wr)
  then show ?thesis by (intro sem_change_same) (simp_all add: holders_def writers_upd(1))
next
  case (w_acquire w wr)
  then show ?thesis by (intro sem_change_enter [where x = "Some w"]) (simp_all add: holders_def writers_upd(2))
next
  case (w_write w wr ok D)
  then show ?thesis by (intro sem_change_same) (simp_all add: holders_def writers_upd(1))
next
  case (w_release w u)
  then have "holders s' = holders s - {Some w}"
    by (auto simp: holders_def writers_upd(3))
  with w_release show ?thesis
    by (intro sem_change_leave [where x = "Some w"]) (simp_all add: holders_def writers_inside_def)
qed

lemma access_step_sem:
  assumes "access_step api h s s'" "sem_ok s"
  shows "sem_ok s'"
proof -
  from assms(1) have "sem_change s s'"
    by cases (auto dest: task_step_sem writer_step_sem intro: sem_change_same simp: holders_def)
  then show ?thesis using assms(2) by (rule sem_change_ok)
qed

lemma access_steps_sem: "access_steps api h s s' \<Longrightarrow> sem_ok s \<Longrightarrow> sem_ok s'"
  by (induction rule: access_steps.induct) (auto dest: access_step_sem)

lemma new_access_sys_sem: "sem_ok (new_access_sys D)"
  by (simp add: sem_ok_def holders_def writers_inside_def new_access_sys_def)

section \<open>What happens on the device\<close>

definition happens :: "'d device list \<Rightarrow> nat \<Rightarrow> ('d device \<Rightarrow> 'd device \<Rightarrow> bool) \<Rightarrow> bool" where
  "happens H j R \<longleftrightarrow> Suc j < length H \<and> R (H ! j) (H ! Suc j)"

definition is_write :: "'d device \<Rightarrow> 'd device \<Rightarrow> bool" where
  "is_write D D' \<longleftrightarrow> (\<exists>h p a buf n. calls D' = calls D @ [Call_MemWrite h p a buf n])"

text \<open>What a scatter handle must be spared from its opening to its last read: writes, and being closed.\<close>

definition disturbs :: "'d device \<Rightarrow> 'd device \<Rightarrow> bool" where
  "disturbs D D' \<longleftrightarrow> is_write D D' \<or> (\<exists>sc. calls D' = calls D @ [Call_Scatter_CloseHandle sc])"

definition undisturbed :: "'d device list \<Rightarrow> nat \<Rightarrow> nat \<Rightarrow> bool" where
  "undisturbed H i j \<longleftrightarrow> (\<forall>k. i \<le> k \<and> k < j \<longrightarrow> \<not> happens H k disturbs)"

lemma happens_append:
  assumes "H \<noteq> []"
  shows "happens (H @ [D]) j R \<longleftrightarrow> happens H j R \<or> Suc j = length H \<and> R (last H) D"
proof (cases "Suc j < length H")
  case True
  then show ?thesis by (simp add: happens_def nth_append)
next
  case False
  have "H ! j = last H" if "Suc j = length H"
    using that assms by (metis diff_Suc_1 last_conv_nth)
  with False show ?thesis
    by (cases "Suc j = length H") (auto simp: happens_def nth_append)
qed

lemma happens_mono: "happens H j R \<Longrightarrow> happens (H @ [D]) j R"
  by (simp add: happens_def nth_append)

lemma happens_last: "H \<noteq> [] \<Longrightarrow> R (last H) D \<Longrightarrow> happens (H @ [D]) (length H - 1) R"
  by (simp add: happens_append)

lemma happens_length: "happens H j R \<Longrightarrow> Suc j < length H"
  by (simp add: happens_def)

lemma undisturbed_append:
  assumes "H \<noteq> []"
  shows "undisturbed H i j \<Longrightarrow> j < length H \<Longrightarrow> undisturbed (H @ [D]) i j"
    and "undisturbed H i (length H) \<Longrightarrow> \<not> disturbs (last H) D \<Longrightarrow> undisturbed (H @ [D]) i (Suc (length H))"
  using assms by (fastforce simp: undisturbed_def happens_append dest: happens_length)+

lemma undisturbed_subset: "undisturbed H i j \<Longrightarrow> j' \<le> j \<Longrightarrow> undisturbed H i j'"
  by (auto simp: undisturbed_def)

text \<open>
  An answer to a request that was given after the position \<open>t\<close> of the history: by one call that reads, or by a call that
  reads from a scatter handle, opened after \<open>t\<close> for the process, for which the range was prepared and
  which was executed, with no write and no closing from the opening to the reading.
\<close>

definition fresh_direct ::
    "'d vmmdll \<Rightarrow> vmm_handle \<Rightarrow> 'd device list \<Rightarrow> nat \<Rightarrow> pid \<Rightarrow> address \<Rightarrow> u64 \<Rightarrow> u64 \<times> byte list \<Rightarrow> bool" where
  "fresh_direct api h H t p a n v \<longleftrightarrow>
     (\<exists>j \<ge> t. happens H j (\<lambda>D D'. \<exists>ok bs r. VMMDLL_MemReadEx api D h p a (ucast n) (scatterFlags api) = (ok, bs, r, D')
        \<and> v = (ucast r, promise_buffer n bs)))"

definition scatter_opened ::
    "'d vmmdll \<Rightarrow> vmm_handle \<Rightarrow> 'd device list \<Rightarrow> nat \<Rightarrow> pid \<Rightarrow> scatter_handle \<Rightarrow> bool" where
  "scatter_opened api h H j p sc \<longleftrightarrow>
     happens H j (\<lambda>D D'. VMMDLL_Scatter_Initialize api D h p (scatterFlags api) = (sc, D'))"

definition scatter_prepared ::
    "'d vmmdll \<Rightarrow> 'd device list \<Rightarrow> nat \<Rightarrow> nat \<Rightarrow> scatter_handle \<Rightarrow> address \<Rightarrow> u64 \<Rightarrow> bool" where
  "scatter_prepared api H i j sc a n \<longleftrightarrow>
     (\<exists>k. i < k \<and> k < j \<and> happens H k (\<lambda>D D'. \<exists>ok. VMMDLL_Scatter_Prepare api D sc a (ucast n) = (ok, D')))"

definition scatter_executed :: "'d vmmdll \<Rightarrow> 'd device list \<Rightarrow> nat \<Rightarrow> scatter_handle \<Rightarrow> bool" where
  "scatter_executed api H j sc \<longleftrightarrow> happens H j (\<lambda>D D'. \<exists>ok. VMMDLL_Scatter_Execute api D sc = (ok, D'))"

definition fresh_scatter ::
    "'d vmmdll \<Rightarrow> vmm_handle \<Rightarrow> 'd device list \<Rightarrow> nat \<Rightarrow> pid \<Rightarrow> address \<Rightarrow> u64 \<Rightarrow> u64 \<times> byte list \<Rightarrow> bool" where
  "fresh_scatter api h H t p a n v \<longleftrightarrow>
     (\<exists>i j k sc. t \<le> i \<and> i < j \<and> j < k \<and> scatter_opened api h H i p sc \<and> scatter_prepared api H i j sc a n
        \<and> scatter_executed api H j sc \<and> undisturbed H i k
        \<and> happens H k (\<lambda>D D'. \<exists>ok bs r. VMMDLL_Scatter_Read api D sc a (ucast n) = (ok, bs, r, D')
             \<and> v = (ucast r, promise_buffer n bs)))"

definition fresh_answer ::
    "'d vmmdll \<Rightarrow> vmm_handle \<Rightarrow> 'd device list \<Rightarrow> nat \<Rightarrow> pid \<Rightarrow> address \<Rightarrow> u64 \<Rightarrow> u64 \<times> byte list \<Rightarrow> bool" where
  "fresh_answer api h H t p a n v \<longleftrightarrow> fresh_direct api h H t p a n v \<or> fresh_scatter api h H t p a n v"

lemma scatter_mono:
  "scatter_opened api h H j p sc \<Longrightarrow> scatter_opened api h (H @ [D]) j p sc"
  "scatter_prepared api H i j sc a n \<Longrightarrow> scatter_prepared api (H @ [D]) i j sc a n"
  "scatter_executed api H j sc \<Longrightarrow> scatter_executed api (H @ [D]) j sc"
  by (auto simp: scatter_opened_def scatter_prepared_def scatter_executed_def intro: happens_mono)

lemma scatter_prepared_later: "scatter_prepared api H i j sc a n \<Longrightarrow> j \<le> j' \<Longrightarrow> scatter_prepared api H i j' sc a n"
  unfolding scatter_prepared_def by (meson le_trans less_le_trans)

lemma fresh_answer_mono:
  assumes "fresh_answer api h H t p a n v" "H \<noteq> []"
  shows "fresh_answer api h (H @ [D]) t p a n v"
proof -
  have "fresh_direct api h (H @ [D]) t p a n v" if "fresh_direct api h H t p a n v"
    using that by (auto simp: fresh_direct_def intro: happens_mono)
  moreover have "fresh_scatter api h (H @ [D]) t p a n v" if "fresh_scatter api h H t p a n v"
  proof -
    from that obtain i j k sc where *: "t \<le> i" "i < j" "j < k" "scatter_opened api h H i p sc" "scatter_prepared api H i j sc a n"
        "scatter_executed api H j sc" "undisturbed H i k"
        "happens H k (\<lambda>D D'. \<exists>ok bs r. VMMDLL_Scatter_Read api D sc a (ucast n) = (ok, bs, r, D') \<and> v = (ucast r, promise_buffer n bs))"
      by (auto simp: fresh_scatter_def)
    have "undisturbed (H @ [D]) i k"
      using undisturbed_append(1) [OF assms(2) *(7)] happens_length [OF *(8)] by simp
    with *(1-3) scatter_mono(1) [OF *(4)] scatter_mono(2) [OF *(5)] scatter_mono(3) [OF *(6)] happens_mono [OF *(8)]
    show ?thesis unfolding fresh_scatter_def by (intro exI [of _ i] exI [of _ j] exI [of _ k] exI [of _ sc]) simp
  qed
  ultimately show ?thesis
    using assms(1) by (auto simp: fresh_answer_def)
qed


section \<open>The invariant\<close>

definition item_fresh ::
    "'d vmmdll \<Rightarrow> vmm_handle \<Rightarrow> 'd device list \<Rightarrow> byte list option list \<Rightarrow> nat \<Rightarrow> backlog_item \<Rightarrow> bool" where
  "item_fresh api h H buffers t it \<longleftrightarrow>
     (\<forall>r b. bi_promise it = Some (r, b) \<longrightarrow> b < length buffers
        \<and> (\<forall>bs. buffers ! b = Some bs \<longrightarrow> fresh_answer api h H t (bi_pid it) (bi_address it) (bi_size it) (r, bs)))
     \<and> (bi_promiseRead it \<longrightarrow> fresh_answer api h H t (bi_pid it) (bi_address it) (bi_size it) (bi_read it, bi_data it))"

definition readers_fresh :: "'d vmmdll \<Rightarrow> vmm_handle \<Rightarrow> 'd access_sys \<Rightarrow> bool" where
  "readers_fresh api h s \<longleftrightarrow>
     (\<forall>t rd. rs_waiting (ac_data s) t = Some rd \<longrightarrow>
        item_fresh api h (ac_hist s) (rs_buffers (ac_data s)) (ac_from s t) (rs_items (ac_data s) ! rd_item rd))"

definition hist_ok :: "'d access_sys \<Rightarrow> bool" where
  "hist_ok s \<longleftrightarrow> ac_hist s \<noteq> [] \<and> last (ac_hist s) = rs_device (ac_data s) \<and> (\<forall>t. ac_from s t < length (ac_hist s))"

text \<open>The readers that wait for a request of the batch called before the scatter handle was opened.\<close>

definition session_ok :: "'d vmmdll \<Rightarrow> vmm_handle \<Rightarrow> 'd access_sys \<Rightarrow> pid \<Rightarrow> (string \<times> nat) list \<Rightarrow> scatter_handle \<Rightarrow> bool" where
  "session_ok api h s p batch sc \<longleftrightarrow>
     scatter_opened api h (ac_hist s) (ac_session s) p sc \<and> undisturbed (ac_hist s) (ac_session s) (length (ac_hist s))
     \<and> (\<forall>t rd. rs_waiting (ac_data s) t = Some rd \<and> rd_item rd \<in> snd ` set batch \<longrightarrow> ac_from s t \<le> ac_session s)"

definition prepared_until :: "'d vmmdll \<Rightarrow> 'd access_sys \<Rightarrow> nat \<Rightarrow> scatter_handle \<Rightarrow> nat \<Rightarrow> bool" where
  "prepared_until api s j sc i \<longleftrightarrow>
     scatter_prepared api (ac_hist s) (ac_session s) j sc (bi_address (rs_items (ac_data s) ! i)) (bi_size (rs_items (ac_data s) ! i))"

definition task_ok :: "'d vmmdll \<Rightarrow> vmm_handle \<Rightarrow> 'd access_sys \<Rightarrow> bool" where
  "task_ok api h s \<longleftrightarrow>
     (case rs_phase (ac_data s) of
        Idle \<Rightarrow> ac_task s = No_task
      | Releasing b \<Rightarrow> False
      | Dispatching p batch \<Rightarrow>
          (\<forall>x \<in> set batch. bi_pid (rs_items (ac_data s) ! snd x) = p)
          \<and> (case ac_task s of
               No_task \<Rightarrow> False
             | At_release \<Rightarrow> batch = []
             | Sc_prepare sc todo \<Rightarrow>
                 session_ok api h s p batch sc
                 \<and> (\<forall>x \<in> set batch. x \<in> set todo \<or> prepared_until api s (length (ac_hist s) - 1) sc (snd x))
             | Sc_read sc \<Rightarrow>
                 session_ok api h s p batch sc \<and> ac_session s < ac_executed s
                 \<and> scatter_executed api (ac_hist s) (ac_executed s) sc
                 \<and> (\<forall>x \<in> set batch. prepared_until api s (ac_executed s) sc (snd x))
             | _ \<Rightarrow> True))"

definition access_inv :: "'d vmmdll \<Rightarrow> vmm_handle \<Rightarrow> 'd access_sys \<Rightarrow> bool" where
  "access_inv api h s \<longleftrightarrow>
     read_inv (ac_data s) \<and> hist_ok s \<and> task_ok api h s \<and> readers_fresh api h s"

lemma read_inv_device [simp]: "read_inv (d\<lparr>rs_device := D\<rparr>) = read_inv d"
  by (simp add: read_inv_def pending_def reader_ok_def)

lemma hist_ok_device: "hist_ok s \<Longrightarrow> hist_ok (device_to D s)"
  by (simp add: hist_ok_def less_SucI)

lemma item_fresh_device: "item_fresh api h H buffers t it \<Longrightarrow> H \<noteq> [] \<Longrightarrow> item_fresh api h (H @ [D]) buffers t it"
  by (simp add: item_fresh_def fresh_answer_mono)

lemma readers_fresh_device: "readers_fresh api h s \<Longrightarrow> hist_ok s \<Longrightarrow> readers_fresh api h (device_to D s)"
  by (simp add: readers_fresh_def hist_ok_def item_fresh_device)

lemma session_ok_device:
  "session_ok api h s p batch sc \<Longrightarrow> hist_ok s \<Longrightarrow> \<not> disturbs (rs_device (ac_data s)) D \<Longrightarrow>
     session_ok api h (device_to D s) p batch sc"
  by (simp add: session_ok_def hist_ok_def scatter_mono(1) undisturbed_append(2))

lemma prepared_until_device: "prepared_until api s j sc i \<Longrightarrow> j \<le> j' \<Longrightarrow> prepared_until api (device_to D s) j' sc i"
  by (simp add: prepared_until_def scatter_mono(2) scatter_prepared_later)

lemma task_ok_device:
  assumes "task_ok api h s" "hist_ok s" "\<not> disturbs (rs_device (ac_data s)) D \<or> \<not> in_scatter (ac_task s)"
  shows "task_ok api h (device_to D s)"
  using assms
  by (auto simp: task_ok_def session_ok_device prepared_until_device scatter_mono(3) split: phase.splits task.splits)

text \<open>A call to the device that is no write and closes no handle, or any call while no handle is open.\<close>

lemma access_inv_device:
  assumes "access_inv api h s" "\<not> disturbs (rs_device (ac_data s)) D \<or> \<not> in_scatter (ac_task s)"
  shows "access_inv api h (device_to D s)"
  using assms
  by (simp add: access_inv_def hist_ok_device readers_fresh_device task_ok_device)

lemma undisturbing:
  "VMMDLL_PidList api D h b n = (ok, pids, n', D') \<Longrightarrow> \<not> disturbs D D'"
  "VMMDLL_ProcessGetInformationString api D h p opt = (name, D') \<Longrightarrow> \<not> disturbs D D'"
  "VMMDLL_Map_GetVadU api D h p identify = (ok, es, D') \<Longrightarrow> \<not> disturbs D D'"
  "VMMDLL_Map_GetThread api D h p = (ok, ts, D') \<Longrightarrow> \<not> disturbs D D'"
  "VMMDLL_ProcessGetInformation api D h p = (ok, mm, D') \<Longrightarrow> \<not> disturbs D D'"
  "\<not> disturbs D (VMMDLL_MemFree D m)"
  "VMMDLL_MemReadEx api D h p a k fl = (ok, bs, r, D') \<Longrightarrow> \<not> disturbs D D'"
  "VMMDLL_Scatter_Initialize api D h p fl = (sc, D') \<Longrightarrow> \<not> disturbs D D'"
  "VMMDLL_Scatter_Prepare api D sc a k = (ok, D') \<Longrightarrow> \<not> disturbs D D'"
  "VMMDLL_Scatter_Execute api D sc = (ok, D') \<Longrightarrow> \<not> disturbs D D'"
  "VMMDLL_Scatter_Read api D sc a k = (ok, bs, r, D') \<Longrightarrow> \<not> disturbs D D'"
  by (auto simp: disturbs_def is_write_def vmm_wrapper_defs split: prod.splits)

lemma query_undisturbing: "query_call api h D D' \<Longrightarrow> \<not> disturbs D D'"
  by (erule query_call.cases) (auto simp: undisturbing)

text \<open>Setting the promise of the first request of the batch.\<close>

lemma read_inv_set_one:
  assumes inv: "read_inv d" and phase: "rs_phase d = Dispatching p (x # todo)"
    and d': "d' = d\<lparr>rs_items := (rs_items d)[snd x := (rs_items d ! snd x)\<lparr>bi_promise := Some u\<rparr>],
      rs_buffers := bufs, rs_phase := Dispatching p todo\<rparr>"
  shows "read_inv d'"
proof -
  let ?it = "(rs_items d ! snd x)\<lparr>bi_promise := Some u\<rparr>"
  have p: "pending d = rs_backlog d @ x # todo" "pending d' = rs_backlog d @ todo"
    using phase by (simp_all add: pending_def d')
  have x: "snd x < length (rs_items d)"
    using read_invD(3) [OF inv, of x] p(1) by (simp add: entry_ok_def)
  have other: "snd y \<noteq> snd x" if "y \<in> set (pending d')" for y
  proof -
    have "snd y \<in> snd ` set (rs_backlog d @ todo)"
      using that unfolding p(2) by (rule imageI)
    moreover have "snd x \<notin> snd ` set (rs_backlog d @ todo)"
      using read_invD(2) [OF inv] unfolding p(1) by (simp add: image_Un)
    ultimately show ?thesis by metis
  qed
  show ?thesis
  proof (rule read_invI)
    show "umap_ok (rs_backlog d')" "distinct (map snd (pending d'))"
      using read_invD(1,2) [OF inv] p by (simp_all add: d')
  next
    fix y
    assume y: "y \<in> set (pending d')"
    with p have "y \<in> set (pending d)" by auto
    from read_invD(3) [OF inv this] other [OF y] show "entry_ok (rs_items d') y"
      by (simp add: entry_ok_def d')
  next
    fix t rd
    assume "rs_waiting d' t = Some rd"
    then have "reader_ok d rd"
      using read_invD(4) [OF inv] by (simp add: d')
    with p x show "reader_ok d' rd"
      by (cases "rd_item rd = snd x") (auto simp: reader_ok_def Let_def d')
  qed
qed

lemma readers_fresh_set_promise:
  assumes inv: "access_inv api h s" and phase: "rs_phase (ac_data s) = Dispatching p (x # todo)"
    and it: "it = rs_items (ac_data s) ! snd x"
    and fresh: "\<And>t rd. rs_waiting (ac_data s) t = Some rd \<Longrightarrow> rd_item rd = snd x \<Longrightarrow>
      fresh_answer api h (ac_hist s) (ac_from s t) (bi_pid it) (bi_address it) (bi_size it) v"
  shows "readers_fresh api h (set_promise p x todo v s)"
proof -
  have old: "readers_fresh api h s" and ri: "read_inv (ac_data s)"
    using inv by (simp_all add: access_inv_def)
  have "entry_ok (rs_items (ac_data s)) x"
    using read_invD(3) [OF ri, of x] phase by (simp add: pending_def)
  then have x: "snd x < length (rs_items (ac_data s))" "\<not> bi_promiseRead it"
    by (simp_all add: entry_ok_def it)
  show ?thesis
    unfolding readers_fresh_def
  proof (intro allI impI)
    fix t rd
    assume "rs_waiting (ac_data (set_promise p x todo v s)) t = Some rd"
    then have rd: "rs_waiting (ac_data s) t = Some rd" by simp
    with old have o: "item_fresh api h (ac_hist s) (rs_buffers (ac_data s)) (ac_from s t) (rs_items (ac_data s) ! rd_item rd)"
      by (simp add: readers_fresh_def)
    show "item_fresh api h (ac_hist (set_promise p x todo v s)) (rs_buffers (ac_data (set_promise p x todo v s)))
        (ac_from (set_promise p x todo v s) t) (rs_items (ac_data (set_promise p x todo v s)) ! rd_item rd)"
    proof (cases "rd_item rd = snd x")
      case True
      with fresh [OF rd True] x show ?thesis by (simp add: item_fresh_def it)
    next
      case False
      with o show ?thesis by (auto simp: item_fresh_def nth_append)
    qed
  qed
qed

lemma set_promise_request:
  "bi_pid (xs[i := (xs ! i)\<lparr>bi_promise := u\<rparr>] ! j) = bi_pid (xs ! j)"
  "bi_address (xs[i := (xs ! i)\<lparr>bi_promise := u\<rparr>] ! j) = bi_address (xs ! j)"
  "bi_size (xs[i := (xs ! i)\<lparr>bi_promise := u\<rparr>] ! j) = bi_size (xs ! j)"
  by (cases "i < length xs"; cases "i = j"; simp add: list_update_beyond)+

lemma prepared_until_set_promise:
  "prepared_until api (set_promise p x todo v s) j sc i = prepared_until api s j sc i"
  by (simp add: prepared_until_def set_promise_request)

lemma session_ok_set_promise:
  "session_ok api h s p (x # todo) sc \<Longrightarrow> session_ok api h (set_promise p x todo v s) p todo sc"
  by (auto simp: session_ok_def)

lemma task_ok_pids: "task_ok api h s \<Longrightarrow> rs_phase (ac_data s) = Dispatching p batch \<Longrightarrow> x \<in> set batch \<Longrightarrow> bi_pid (rs_items (ac_data s) ! snd x) = p"
  by (auto simp: task_ok_def)

lemma access_inv_set_promise:
  assumes inv: "access_inv api h s" and phase: "rs_phase (ac_data s) = Dispatching p (x # todo)"
    and it: "it = rs_items (ac_data s) ! snd x"
    and fresh: "\<And>t rd. rs_waiting (ac_data s) t = Some rd \<Longrightarrow> rd_item rd = snd x \<Longrightarrow>
      fresh_answer api h (ac_hist s) (ac_from s t) (bi_pid it) (bi_address it) (bi_size it) v"
    and task: "(ac_task s = Seq_loop \<and> k = Seq_free b) \<or> (\<exists>sc. ac_task s = Sc_read sc \<and> k = ac_task s)"
  shows "access_inv api h ((set_promise p x todo v s)\<lparr>ac_task := k\<rparr>)" (is "access_inv api h ?s")
proof -
  have parts: "read_inv (ac_data s)" "hist_ok s" "task_ok api h s"
    using inv by (simp_all add: access_inv_def)
  have "read_inv (ac_data ?s)"
    by (rule read_inv_set_one [OF parts(1) phase]) simp
  moreover have "hist_ok ?s"
    using parts(2) by (simp add: hist_ok_def)
  moreover have "readers_fresh api h ?s"
    using readers_fresh_set_promise [OF inv phase it fresh] by (simp add: readers_fresh_def)
  moreover have "task_ok api h ?s"
  proof -
    have pids: "\<forall>y \<in> set todo. bi_pid (rs_items (ac_data ?s) ! snd y) = p"
      using task_ok_pids [OF parts(3) phase] by (simp add: set_promise_request)
    show ?thesis
    proof (cases "ac_task s = Seq_loop")
      case True
      with task pids show ?thesis by (auto simp: task_ok_def)
    next
      case False
      with task obtain sc where sc: "ac_task s = Sc_read sc" "?s = set_promise p x todo v s"
        by auto
      from parts(3) phase sc(1) have "session_ok api h s p (x # todo) sc" "ac_session s < ac_executed s"
          "scatter_executed api (ac_hist s) (ac_executed s) sc" "\<forall>y \<in> set todo. prepared_until api s (ac_executed s) sc (snd y)"
        by (simp_all add: task_ok_def)
      with session_ok_set_promise [of api h s p x todo sc v] pids sc show ?thesis
        unfolding sc(2) by (simp add: task_ok_def prepared_until_set_promise)
    qed
  qed
  ultimately show ?thesis by (simp add: access_inv_def)
qed

section \<open>Every step keeps the invariant\<close>

text \<open>The requests of the batch stay as they are, and nobody joins it.\<close>

lemma task_ok_frame:
  assumes "task_ok api h s"
    and same: "ac_task s' = ac_task s" "ac_hist s' = ac_hist s" "ac_session s' = ac_session s" "ac_executed s' = ac_executed s"
      "rs_phase (ac_data s') = rs_phase (ac_data s)"
    and items: "\<And>p batch x. rs_phase (ac_data s) = Dispatching p batch \<Longrightarrow> x \<in> set batch \<Longrightarrow>
      bi_pid (rs_items (ac_data s') ! snd x) = bi_pid (rs_items (ac_data s) ! snd x)
      \<and> bi_address (rs_items (ac_data s') ! snd x) = bi_address (rs_items (ac_data s) ! snd x)
      \<and> bi_size (rs_items (ac_data s') ! snd x) = bi_size (rs_items (ac_data s) ! snd x)"
    and waiting: "\<And>p batch t rd. rs_phase (ac_data s) = Dispatching p batch \<Longrightarrow> rd_item rd \<in> snd ` set batch \<Longrightarrow>
      rs_waiting (ac_data s') t = Some rd \<Longrightarrow> rs_waiting (ac_data s) t = Some rd \<and> ac_from s' t = ac_from s t"
  shows "task_ok api h s'"
proof (cases "rs_phase (ac_data s)")
  case (Dispatching p batch)
  have session: "session_ok api h s' p batch sc" if "session_ok api h s p batch sc" for sc
    using that waiting [OF Dispatching] same by (fastforce simp: session_ok_def)
  have "prepared_until api s' j sc (snd x) = prepared_until api s j sc (snd x)" if "x \<in> set batch" for j sc x
    using items [OF Dispatching that] same by (simp add: prepared_until_def)
  with session assms(1) Dispatching items [OF Dispatching] same show ?thesis
    by (auto simp: task_ok_def split: task.splits)
qed (use assms(1) same in \<open>simp_all add: task_ok_def\<close>)

lemma read_inv_perm:
  assumes "read_inv d" "rs_items d' = rs_items d" "rs_backlog d' = rs_backlog d" "rs_waiting d' = rs_waiting d"
    and "mset (pending d') = mset (pending d)"
  shows "read_inv d'"
proof -
  have "set (pending d') = set (pending d)"
    using assms(5) by (rule mset_eq_setD)
  moreover have "distinct (map snd (pending d'))"
    using read_invD(2) [OF assms(1)] assms(5) by (metis mset_map mset_eq_imp_distinct_iff)
  ultimately show ?thesis
    using read_invD [OF assms(1)] assms(2-4) by (intro read_invI) (auto simp: reader_ok_def)
qed

lemma fresh_answer_length: "fresh_answer api h H t p a n v \<Longrightarrow> length (snd v) = unat n"
  by (auto simp: fresh_answer_def fresh_direct_def fresh_scatter_def happens_def)

lemma item_fresh_get:
  assumes "item_fresh api h H buffers t it" "get buffers it = Inr ((r, data), it')"
  shows "item_fresh api h H buffers t it'" "fresh_answer api h H t (bi_pid it) (bi_address it) (bi_size it) (r, data)"
  using assms fresh_answer_length [of api h H t "bi_pid it" "bi_address it" "bi_size it"]
  by (auto simp: item_fresh_def get_def Let_def split: if_splits option.splits)

text \<open>\<open>Memory::read\<close>.\<close>

lemma read_enqueue_result:
  assumes "read_enqueue d p a n = (i, d')"
  shows "\<exists>new. rs_items d' = rs_items d @ new" "(backlog_key p a n, i) \<in> set (rs_backlog d')"
    "rs_buffers d' = rs_buffers d" "rs_phase d' = rs_phase d" "rs_device d' = rs_device d" "rs_waiting d' = rs_waiting d"
  using assms
  by (auto simp: read_enqueue_def Let_def umap_assign_absent split: option.splits dest: map_of_SomeD)

lemma access_inv_enqueue:
  assumes inv: "access_inv api h s" and free: "rs_waiting (ac_data s) t = None"
    and enq: "read_enqueue (ac_data s) p a n = (i, d)"
    and s': "s' = s\<lparr>ac_data := d\<lparr>rs_waiting := (rs_waiting (ac_data s))(t \<mapsto> \<lparr>rd_pid = p, rd_address = a, rd_size = n, rd_item = i\<rparr>)\<rparr>,
      ac_from := (ac_from s)(t := length (ac_hist s) - 1)\<rparr>"
  shows "access_inv api h s'"
proof -
  have parts: "read_inv (ac_data s)" "hist_ok s" "task_ok api h s" "readers_fresh api h s"
    using inv by (simp_all add: access_inv_def)
  note res = read_enqueue_result [OF enq]
  have ri: "read_inv (ac_data s')"
    using read_inv_enqueue [OF parts(1) enq, of t] by (simp add: s')
  have pend: "(backlog_key p a n, i) \<in> set (pending (ac_data s'))" "rs_backlog (ac_data s') = rs_backlog d"
    using res(2) by (simp_all add: s' pending_def)
  then have new: "bi_promise (rs_items d ! i) = None" "\<not> bi_promiseRead (rs_items d ! i)"
    using read_invD(3) [OF ri, of "(backlog_key p a n, i)"] by (simp_all add: entry_ok_def s')
  have old: "rs_items d ! j = rs_items (ac_data s) ! j" if "j < length (rs_items (ac_data s))" for j
    using res(1) that by (auto simp: nth_append)
  have batch: "snd x < length (rs_items (ac_data s))" "snd x \<noteq> i"
    if "rs_phase (ac_data s) = Dispatching q batch" "x \<in> set batch" for q batch x
  proof -
    have "x \<in> set (pending (ac_data s))"
      using that by (simp add: pending_def)
    then show "snd x < length (rs_items (ac_data s))"
      using read_invD(3) [OF parts(1)] by (auto simp: entry_ok_def)
    have "distinct (map snd (rs_backlog d @ batch))"
      using read_invD(2) [OF ri] that(1) res(4) by (simp add: pending_def s')
    with res(2) that(2) show "snd x \<noteq> i" by force
  qed
  have "hist_ok s'"
    using parts(2) res(5) by (auto simp: hist_ok_def s')
  moreover have "task_ok api h s'"
    by (rule task_ok_frame [OF parts(3)]) (use res batch old in \<open>fastforce simp: s' split: if_splits\<close>)+
  moreover have "readers_fresh api h s'"
    unfolding readers_fresh_def
  proof (intro allI impI)
    fix u rd
    assume w: "rs_waiting (ac_data s') u = Some rd"
    show "item_fresh api h (ac_hist s') (rs_buffers (ac_data s')) (ac_from s' u) (rs_items (ac_data s') ! rd_item rd)"
    proof (cases "u = t")
      case True
      with w new show ?thesis by (auto simp: s' item_fresh_def)
    next
      case False
      with w have w': "rs_waiting (ac_data s) u = Some rd" by (simp add: s')
      then have "rd_item rd < length (rs_items (ac_data s))"
        using read_invD(4) [OF parts(1)] by (simp add: reader_ok_def)
      with parts(4) w' False old res(3) show ?thesis
        by (simp add: readers_fresh_def s')
    qed
  qed
  ultimately show ?thesis using ri by (simp add: access_inv_def)
qed

lemma access_inv_finish:
  assumes inv: "access_inv api h s" and w: "rs_waiting (ac_data s) t = Some rd"
    and fin: "read_finish (ac_data s) rd = Inr (v, d)"
    and s': "s' = s\<lparr>ac_data := d\<lparr>rs_waiting := (rs_waiting (ac_data s))(t := None), rs_done := dn\<rparr>\<rparr>"
  shows "access_inv api h s'"
proof -
  have parts: "read_inv (ac_data s)" "hist_ok s" "task_ok api h s" "readers_fresh api h s"
    using inv by (simp_all add: access_inv_def)
  obtain it where d: "d = (ac_data s)\<lparr>rs_items := (rs_items (ac_data s))[rd_item rd := it]\<rparr>"
      and g: "get (rs_buffers (ac_data s)) (rs_items (ac_data s) ! rd_item rd) = Inr ((fst v, bi_data it), it)"
    using read_finish_changes [OF fin] by metis
  have idx: "rd_item rd < length (rs_items (ac_data s))"
    using read_invD(4) [OF parts(1) w] by (simp add: reader_ok_def)
  have "read_inv (ac_data s')"
    by (rule read_inv_finish [OF parts(1) fin]) (simp add: s')
  moreover have "hist_ok s'"
    using parts(2) by (simp add: hist_ok_def s' d)
  moreover have "task_ok api h s'"
    by (rule task_ok_frame [OF parts(3)]) (use get_changes [OF g] idx in \<open>auto simp: s' d nth_list_update split: if_splits\<close>)
  moreover have "readers_fresh api h s'"
    unfolding readers_fresh_def
  proof (intro allI impI)
    fix u rd'
    assume "rs_waiting (ac_data s') u = Some rd'"
    with parts(4) have "item_fresh api h (ac_hist s) (rs_buffers (ac_data s)) (ac_from s u) (rs_items (ac_data s) ! rd_item rd')"
      by (auto simp: readers_fresh_def s' split: if_splits)
    with item_fresh_get(1) [OF _ g] idx
    show "item_fresh api h (ac_hist s') (rs_buffers (ac_data s')) (ac_from s' u) (rs_items (ac_data s') ! rd_item rd')"
      by (cases "rd_item rd' = rd_item rd") (simp_all add: s' d)
  qed
  ultimately show ?thesis by (simp add: access_inv_def)
qed

lemma access_inv_round:
  assumes inv: "access_inv api h s" and task: "ac_task s = No_task" and order: "mset order = mset (rs_backlog (ac_data s))"
  shows "access_inv api h (s\<lparr>ac_data := dispatch_round (ac_data s) order, ac_task := At_acquire\<rparr>)" (is "access_inv api h ?s")
proof -
  have parts: "read_inv (ac_data s)" "hist_ok s" "task_ok api h s" "readers_fresh api h s"
    using inv by (simp_all add: access_inv_def)
  have idle: "rs_phase (ac_data s) = Idle"
    using parts(3) task by (simp add: task_ok_def split: phase.splits)
  obtain p batch where fb: "form_batch (rs_items (ac_data s)) order = (p, batch)"
    by fastforce
  show ?thesis
    using parts(2,4) form_batch_subseq(2) [OF fb] fb read_inv_round [OF parts(1) idle order]
    by (simp add: access_inv_def hist_ok_def task_ok_def readers_fresh_def dispatch_round_def)
qed

text \<open>\<open>Memory::dispatch\<close>: the calls that answer a request.\<close>

lemma access_inv_seq_read:
  assumes inv: "access_inv api h s" and task: "ac_task s = Seq_loop" and phase: "rs_phase (ac_data s) = Dispatching p (x # todo)"
    and rd: "sequential_read api h p (rs_device (ac_data s)) (rs_items (ac_data s) ! snd x) = (v, D)"
  shows "access_inv api h ((set_promise p x todo v (device_to D s))\<lparr>ac_task := Seq_free b\<rparr>)"
proof -
  let ?it = "rs_items (ac_data s) ! snd x"
  have hist: "ac_hist s \<noteq> []" "last (ac_hist s) = rs_device (ac_data s)" "ac_from s t \<le> length (ac_hist s) - 1" for t
    using inv by (auto simp: access_inv_def hist_ok_def less_Suc_eq_le [symmetric])
  have pid: "bi_pid ?it = p"
    using inv task_ok_pids [OF _ phase, of api h x] by (simp add: access_inv_def)
  obtain ok bs r where call: "VMMDLL_MemReadEx api (rs_device (ac_data s)) h p (bi_address ?it) (ucast (bi_size ?it)) (scatterFlags api) = (ok, bs, r, D)"
      and v: "v = (ucast r, promise_buffer (bi_size ?it) bs)"
    using rd by (auto simp: sequential_read_def split: prod.splits)
  have "access_inv api h (device_to D s)"
    using access_inv_device [OF inv] undisturbing(7) [OF call] by blast
  moreover have "fresh_answer api h (ac_hist s @ [D]) (ac_from s t) (bi_pid ?it) (bi_address ?it) (bi_size ?it) v" for t
    unfolding fresh_answer_def fresh_direct_def
    using hist(3) [of t] happens_last [OF hist(1)] call v hist(2) pid by (intro disjI1 exI [of _ "length (ac_hist s) - 1"]) auto
  ultimately show ?thesis
    by (intro access_inv_set_promise [where it = ?it]) (simp_all add: phase task)
qed

lemma access_inv_scatter_read:
  assumes inv: "access_inv api h s" and task: "ac_task s = Sc_read sc" and phase: "rs_phase (ac_data s) = Dispatching p (x # todo)"
    and it: "it = rs_items (ac_data s) ! snd x"
    and call: "VMMDLL_Scatter_Read api (rs_device (ac_data s)) sc (bi_address it) (ucast (bi_size it)) = (ok, bs, r, D)"
    and v: "v = (ucast r, promise_buffer (bi_size it) bs)"
  shows "access_inv api h (set_promise p x todo v (device_to D s))"
proof -
  have hist: "ac_hist s \<noteq> []" "last (ac_hist s) = rs_device (ac_data s)"
    using inv by (auto simp: access_inv_def hist_ok_def)
  have pid: "bi_pid it = p"
    using inv task_ok_pids [OF _ phase, of api h x] by (simp add: access_inv_def it)
  have inv': "access_inv api h (device_to D s)"
    using access_inv_device [OF inv] undisturbing(11) [OF call] by blast
  then have session: "session_ok api h (device_to D s) p (x # todo) sc" "ac_session s < ac_executed s"
      "scatter_executed api (ac_hist s @ [D]) (ac_executed s) sc" "prepared_until api (device_to D s) (ac_executed s) sc (snd x)"
    using task phase by (simp_all add: access_inv_def task_ok_def)
  have ex: "ac_executed s < length (ac_hist s) - 1"
    using inv task phase by (auto simp: access_inv_def task_ok_def scatter_executed_def dest: happens_length)
  have "fresh_answer api h (ac_hist s @ [D]) (ac_from s t) (bi_pid it) (bi_address it) (bi_size it) v"
    if "rs_waiting (ac_data s) t = Some rd" "rd_item rd = snd x" for t rd
  proof -
    have "undisturbed (ac_hist s @ [D]) (ac_session s) (length (ac_hist s) - 1)" "scatter_opened api h (ac_hist s @ [D]) (ac_session s) p sc"
        "ac_from s t \<le> ac_session s"
      using session(1) that by (auto simp: session_ok_def elim: undisturbed_subset)
    moreover have "scatter_prepared api (ac_hist s @ [D]) (ac_session s) (ac_executed s) sc (bi_address it) (bi_size it)"
      using session(4) by (simp add: prepared_until_def it)
    ultimately have "fresh_scatter api h (ac_hist s @ [D]) (ac_from s t) p (bi_address it) (bi_size it) v"
      unfolding fresh_scatter_def using session(2,3) ex happens_last [OF hist(1)] call v hist(2)
      by (intro exI [of _ "ac_session s"] exI [of _ "ac_executed s"] exI [of _ "length (ac_hist s) - 1"] exI [of _ sc]) auto
    then show ?thesis by (simp add: fresh_answer_def pid)
  qed
  then have "access_inv api h ((set_promise p x todo v (device_to D s))\<lparr>ac_task := Sc_read sc\<rparr>)"
    by (intro access_inv_set_promise [OF inv', where it = it]) (simp_all add: phase task it)
  moreover have "(set_promise p x todo v (device_to D s))\<lparr>ac_task := Sc_read sc\<rparr> = set_promise p x todo v (device_to D s)"
    using task by simp
  ultimately show ?thesis by simp
qed

lemma access_inv_session:
  assumes inv: "access_inv api h s" and phase: "rs_phase (ac_data s) = Dispatching p batch"
    and task: "ac_task s = Sc_init" and call: "VMMDLL_Scatter_Initialize api (rs_device (ac_data s)) h p (scatterFlags api) = (sc, D)"
  shows "access_inv api h ((device_to D s)\<lparr>ac_task := Sc_prepare sc batch, ac_session := length (ac_hist s) - 1\<rparr>)"
    (is "access_inv api h ?s")
proof -
  have hist: "ac_hist s \<noteq> []" "last (ac_hist s) = rs_device (ac_data s)" "ac_from s t \<le> length (ac_hist s) - 1" for t
    using inv by (auto simp: access_inv_def hist_ok_def less_Suc_eq_le [symmetric])
  have inv': "access_inv api h (device_to D s)"
    using access_inv_device [OF inv] undisturbing(8) [OF call] by blast
  have "undisturbed (ac_hist s @ [D]) (length (ac_hist s) - 1) (Suc (length (ac_hist s)))"
    using undisturbing(8) [OF call] hist by (auto simp: undisturbed_def happens_append dest: happens_length)
  moreover have "scatter_opened api h (ac_hist s @ [D]) (length (ac_hist s) - 1) p sc"
    unfolding scatter_opened_def using hist call by (intro happens_last) simp_all
  ultimately have "session_ok api h ?s p batch sc"
    using hist(3) by (simp add: session_ok_def)
  with inv' phase show ?thesis
    by (simp add: access_inv_def hist_ok_def task_ok_def readers_fresh_def)
qed

lemma access_inv_prepare:
  assumes inv: "access_inv api h s" and task: "ac_task s = Sc_prepare sc (x # todo)" and it: "it = rs_items (ac_data s) ! snd x"
    and call: "VMMDLL_Scatter_Prepare api (rs_device (ac_data s)) sc (bi_address it) (ucast (bi_size it)) = (ok, D)"
  shows "access_inv api h ((device_to D s)\<lparr>ac_task := Sc_prepare sc todo\<rparr>)" (is "access_inv api h ?s")
proof -
  have hist: "ac_hist s \<noteq> []" "last (ac_hist s) = rs_device (ac_data s)"
    using inv by (auto simp: access_inv_def hist_ok_def)
  have inv': "access_inv api h (device_to D s)"
    using access_inv_device [OF inv] undisturbing(9) [OF call] by blast
  obtain p batch where phase: "rs_phase (ac_data s) = Dispatching p batch" and session: "session_ok api h s p batch sc"
    using inv task by (auto simp: access_inv_def task_ok_def split: phase.splits)
  have "ac_session s < length (ac_hist s) - 1"
    using session by (auto simp: session_ok_def scatter_opened_def dest: happens_length)
  then have "scatter_prepared api (ac_hist s @ [D]) (ac_session s) (length (ac_hist s)) sc (bi_address it) (bi_size it)"
    unfolding scatter_prepared_def using happens_last [OF hist(1)] hist call
    by (intro exI [of _ "length (ac_hist s) - 1"]) auto
  then have "prepared_until api (device_to D s) (length (ac_hist s)) sc (snd x)"
    by (simp add: prepared_until_def it)
  with inv' phase task show ?thesis
    by (auto simp: access_inv_def hist_ok_def task_ok_def readers_fresh_def session_ok_def prepared_until_def)
qed

lemma access_inv_execute:
  assumes inv: "access_inv api h s" and task: "ac_task s = Sc_prepare sc []"
    and call: "VMMDLL_Scatter_Execute api (rs_device (ac_data s)) sc = (ok, D)"
  shows "access_inv api h ((device_to D s)\<lparr>ac_task := Sc_read sc, ac_executed := length (ac_hist s) - 1\<rparr>)" (is "access_inv api h ?s")
proof -
  have hist: "ac_hist s \<noteq> []" "last (ac_hist s) = rs_device (ac_data s)"
    using inv by (auto simp: access_inv_def hist_ok_def)
  have inv': "access_inv api h (device_to D s)"
    using access_inv_device [OF inv] undisturbing(10) [OF call] by blast
  obtain p batch where phase: "rs_phase (ac_data s) = Dispatching p batch" and session: "session_ok api h s p batch sc"
      and prep: "\<forall>x \<in> set batch. prepared_until api s (length (ac_hist s) - 1) sc (snd x)"
    using inv task by (auto simp: access_inv_def task_ok_def split: phase.splits)
  have "ac_session s < length (ac_hist s) - 1"
    using session by (auto simp: session_ok_def scatter_opened_def dest: happens_length)
  moreover have "scatter_executed api (ac_hist s @ [D]) (length (ac_hist s) - 1) sc"
    unfolding scatter_executed_def using hist call by (intro happens_last) auto
  moreover have "\<forall>x \<in> set batch. prepared_until api (device_to D s) (length (ac_hist s) - 1) sc (snd x)"
    using prep prepared_until_device by blast
  ultimately show ?thesis
    using inv' phase task
    by (auto simp: access_inv_def hist_ok_def task_ok_def readers_fresh_def session_ok_def prepared_until_def)
qed

text \<open>Steps that change the task and, of the data, only the phase or the buffers.\<close>

lemma access_inv_control:
  assumes inv: "access_inv api h s" and task: "task_ok api h s'" and ri: "read_inv (ac_data s')"
    and same: "ac_hist s' = ac_hist s" "ac_from s' = ac_from s" "rs_device (ac_data s') = rs_device (ac_data s)"
      "rs_items (ac_data s') = rs_items (ac_data s)" "rs_waiting (ac_data s') = rs_waiting (ac_data s)"
    and buffers: "length (rs_buffers (ac_data s')) = length (rs_buffers (ac_data s))"
      "\<And>b bs. rs_buffers (ac_data s') ! b = Some bs \<Longrightarrow> b < length (rs_buffers (ac_data s)) \<Longrightarrow> rs_buffers (ac_data s) ! b = Some bs"
  shows "access_inv api h s'"
proof -
  have "item_fresh api h H (rs_buffers (ac_data s')) t it" if "item_fresh api h H (rs_buffers (ac_data s)) t it" for H t it
    using that buffers by (auto simp: item_fresh_def)
  then show ?thesis
    using inv task ri same by (auto simp: access_inv_def hist_ok_def readers_fresh_def)
qed

lemma task_step_inv:
  assumes "task_step api h s s'" "access_inv api h s"
  shows "access_inv api h s'"
proof -
  have parts: "read_inv (ac_data s)" "task_ok api h s"
    using assms(2) by (simp_all add: access_inv_def)
  show ?thesis
    using assms(1)
  proof cases
    case (acquire p batch order)
    have "set order = set batch"
      using acquire(5) by (rule mset_eq_setD)
    moreover have "read_inv (ac_data s')"
      by (rule read_inv_perm [OF parts(1)]) (simp_all add: acquire pending_def)
    ultimately show ?thesis
      using parts acquire by (intro access_inv_control [OF assms(2)]) (auto simp: task_ok_def)
  next
    case (seq_free b D s1)
    have "access_inv api h s1"
    proof (rule access_inv_control [OF assms(2)])
      show "task_ok api h s1"
        using parts(2) seq_free by (auto simp: task_ok_def split: phase.splits)
      show "read_inv (ac_data s1)"
        by (rule read_inv_frame [OF parts(1)]) (simp_all add: seq_free pending_def)
      show "rs_buffers (ac_data s) ! k = Some bs"
        if "rs_buffers (ac_data s1) ! k = Some bs" "k < length (rs_buffers (ac_data s))" for k bs
        using that seq_free(4) by (cases "k = b") auto
    qed (simp_all add: seq_free)
    then show ?thesis
      unfolding seq_free(1) by (rule access_inv_device) (simp add: seq_free(3,4) undisturbing(6))
  next
    case (seq_end p)
    then show ?thesis
      using parts by (intro access_inv_control [OF assms(2)]) (simp_all add: task_ok_def)
  next
    case (scatter_close sc p D)
    have "access_inv api h (s\<lparr>ac_task := At_release\<rparr>)"
      by (rule access_inv_control [OF assms(2)]) (use scatter_close parts in \<open>simp_all add: task_ok_def\<close>)
    then have "access_inv api h (device_to D (s\<lparr>ac_task := At_release\<rparr>))"
      by (rule access_inv_device) simp
    moreover have "device_to D (s\<lparr>ac_task := At_release\<rparr>) = s'"
      unfolding scatter_close(1) by (cases s) (simp add: device_to_def)
    ultimately show ?thesis by simp
  next
    case release
    then have "pending (ac_data s') = pending (ac_data s)"
      using parts(2) by (auto simp: task_ok_def pending_def split: phase.splits)
    then have "read_inv (ac_data s')"
      by (intro read_inv_frame [OF parts(1)]) (simp_all add: release)
    then show ?thesis
      by (intro access_inv_control [OF assms(2)]) (simp_all add: release task_ok_def)
  next
    case (seq_read p x todo v D)
    then show ?thesis by (simp add: access_inv_seq_read [OF assms(2)])
  next
    case (initialize p batch sc D)
    then show ?thesis by (simp add: access_inv_session [OF assms(2), simplified])
  next
    case (prepare sc x todo it ok D)
    then show ?thesis by (simp add: access_inv_prepare [OF assms(2)])
  next
    case (execute sc ok D)
    then show ?thesis by (simp add: access_inv_execute [OF assms(2), simplified])
  next
    case (scatter_read sc p x todo it ok bs r D)
    then show ?thesis by (simp add: access_inv_scatter_read [OF assms(2)])
  qed
qed

lemma writer_outside: "ac_writer s w = W_write wr \<Longrightarrow> sem_ok s \<Longrightarrow> \<not> task_holds (ac_task s)"
proof -
  assume "ac_writer s w = W_write wr" "sem_ok s"
  then have "Some w \<in> holders s"
    by (simp add: holders_def writers_inside_def)
  with \<open>sem_ok s\<close> show ?thesis
    by (auto simp: sem_ok_def holders_def split: if_splits)
qed

lemma access_step_inv:
  assumes "access_step api h s s'" "access_inv api h s" "sem_ok s"
  shows "access_inv api h s'"
  using assms(1)
proof cases
  case (enqueue t p a n i d)
  then show ?thesis using access_inv_enqueue [OF assms(2)] by blast
next
  case (finish t rd v d)
  then show ?thesis using access_inv_finish [OF assms(2)] by blast
next
  case (round order)
  then show ?thesis using access_inv_round [OF assms(2)] by blast
next
  case task
  then show ?thesis using task_step_inv assms(2) by blast
next
  case writer
  then show ?thesis
  proof cases
    case (w_write w wr ok D)
    have "\<not> in_scatter (ac_task s)"
      using writer_outside [OF w_write(2) assms(3)] in_scatter_holds by blast
    then have "access_inv api h (device_to D s)"
      using access_inv_device [OF assms(2)] by blast
    then show ?thesis
      using w_write by (simp add: access_inv_def hist_ok_def task_ok_def readers_fresh_def session_ok_def prepared_until_def
          cong: phase.case_cong task.case_cong)
  qed (use assms(2) in \<open>simp_all add: access_inv_def hist_ok_def task_ok_def readers_fresh_def session_ok_def prepared_until_def
        cong: phase.case_cong task.case_cong\<close>)
next
  case (query D)
  then show ?thesis using access_inv_device [OF assms(2)] query_undisturbing by blast
qed

lemma access_steps_inv: "access_steps api h s s' \<Longrightarrow> access_inv api h s \<Longrightarrow> sem_ok s \<Longrightarrow> access_inv api h s' \<and> sem_ok s'"
  by (induction rule: access_steps.induct) (auto dest: access_step_inv access_step_sem)

lemma new_access_sys_inv: "access_inv api h (new_access_sys D)"
  using read_inv_new
  by (simp add: access_inv_def hist_ok_def task_ok_def readers_fresh_def new_access_sys_def) (simp add: new_read_sys_def)

lemma reachable_access:
  assumes "access_steps api h (new_access_sys D) s"
  shows "access_inv api h s" "sem_ok s"
  using access_steps_inv [OF assms new_access_sys_inv new_access_sys_sem] by auto

lemma read_finish_result:
  assumes "read_finish d rd = Inr (v, d')"
  shows "rs_phase d' = rs_phase d" "rs_device d' = rs_device d"
  using assms by (auto simp: read_finish_def split: sum.splits prod.splits if_splits)

section \<open>The calls of a batch stay together\<close>

text \<open>
  A trace of calls read from the left: \<open>Some open\<close> tells whether a scatter handle is open. A write or a direct read while
  one is open, a second handle, or a use of a handle that is not open makes it \<open>None\<close>.
\<close>

fun batch_call :: "vmm_call \<Rightarrow> bool option \<Rightarrow> bool option" where
  "batch_call c None = None"
| "batch_call c (Some open) =
     (case c of
        Call_Scatter_Initialize h p fl sc \<Rightarrow> (if open then None else Some True)
      | Call_Scatter_Prepare sc a n \<Rightarrow> (if open then Some True else None)
      | Call_Scatter_Execute sc \<Rightarrow> (if open then Some True else None)
      | Call_Scatter_Read sc a n \<Rightarrow> (if open then Some True else None)
      | Call_Scatter_CloseHandle sc \<Rightarrow> (if open then Some False else None)
      | Call_MemWrite h p a bs n \<Rightarrow> (if open then None else Some False)
      | Call_MemReadEx h p a n fl \<Rightarrow> (if open then None else Some False)
      | _ \<Rightarrow> Some open)"

definition batch_trace :: "vmm_call list \<Rightarrow> bool option" where
  "batch_trace cs = fold batch_call cs (Some False)"

lemma batch_trace_append [simp]: "batch_trace (cs @ [c]) = batch_call c (batch_trace cs)"
  by (simp add: batch_trace_def)

lemma query_trace: "query_call api h D D' \<Longrightarrow> batch_trace (calls D') = batch_trace (calls D) \<or> batch_trace (calls D) = None"
  by (erule query_call.cases; cases "batch_trace (calls D)") (auto simp: vmm_wrapper_defs split: prod.splits)

lemma task_step_trace:
  assumes "task_step api h s s'" "batch_trace (calls (rs_device (ac_data s))) = Some (in_scatter (ac_task s))"
  shows "batch_trace (calls (rs_device (ac_data s'))) = Some (in_scatter (ac_task s'))"
  using assms by cases (auto simp: vmm_wrapper_defs sequential_read_def split: prod.splits)

lemma access_step_trace:
  assumes "access_step api h s s'" "sem_ok s" "batch_trace (calls (rs_device (ac_data s))) = Some (in_scatter (ac_task s))"
  shows "batch_trace (calls (rs_device (ac_data s'))) = Some (in_scatter (ac_task s'))"
  using assms(1)
proof cases
  case (enqueue t p a n i d)
  then show ?thesis using assms(3) read_enqueue_result(5) [OF enqueue(3)] by simp
next
  case (finish t rd v d)
  then show ?thesis using assms(3) read_finish_result(2) [OF finish(3)] by simp
next
  case (round order)
  then show ?thesis using assms(3) by (simp add: dispatch_round_def split: prod.splits)
next
  case task
  then show ?thesis using task_step_trace assms(3) by blast
next
  case writer
  then show ?thesis
  proof cases
    case (w_write w wr ok D)
    then have "\<not> in_scatter (ac_task s)"
      using writer_outside assms(2) in_scatter_holds by blast
    with w_write assms(3) show ?thesis
      by (auto simp: VMMDLL_MemWrite_def split: prod.splits)
  qed (use assms(3) in simp_all)
next
  case (query D)
  then show ?thesis using query_trace assms(3) by fastforce
qed

lemma access_steps_trace:
  "access_steps api h s s' \<Longrightarrow> sem_ok s \<Longrightarrow> batch_trace (calls (rs_device (ac_data s))) = Some (in_scatter (ac_task s)) \<Longrightarrow>
     batch_trace (calls (rs_device (ac_data s'))) = Some (in_scatter (ac_task s'))"
  by (induction rule: access_steps.induct) (auto dest: access_step_trace access_steps_sem)


section \<open>The end of a batch\<close>

text \<open>How many steps the task is away from its end.\<close>

definition task_distance :: "'d access_sys \<Rightarrow> nat" where
  "task_distance s =
     (let n = (case rs_phase (ac_data s) of Dispatching p batch \<Rightarrow> length batch | _ \<Rightarrow> 0)
      in case ac_task s of
           No_task \<Rightarrow> 0
         | At_release \<Rightarrow> 1
         | Seq_loop \<Rightarrow> 2 * n + 2
         | Seq_free b \<Rightarrow> 2 * n + 3
         | Sc_read sc \<Rightarrow> n + 2
         | Sc_prepare sc todo \<Rightarrow> length todo + n + 3
         | Sc_init \<Rightarrow> 2 * n + 4
         | At_acquire \<Rightarrow> 2 * n + 5)"

lemma task_step_distance: "task_step api h s s' \<Longrightarrow> task_distance s' < task_distance s"
  by (erule task_step.cases) (auto simp: task_distance_def Let_def dest: mset_eq_length)

lemma task_step_enabled:
  assumes "task_ok api h s" "ac_task s \<noteq> No_task" "ac_task s = At_acquire \<Longrightarrow> 0 < ac_sem s"
  shows "\<exists>s'. task_step api h s s'"
proof -
  obtain p batch where phase: "rs_phase (ac_data s) = Dispatching p batch"
    using assms(1,2) by (auto simp: task_ok_def split: phase.splits)
  let ?D = "rs_device (ac_data s)"
  show ?thesis
  proof (cases "ac_task s")
    case At_acquire
    from task_step.acquire [OF this assms(3) [OF this] phase refl] show ?thesis by blast
  next
    case Seq_loop
    show ?thesis
    proof (cases batch)
      case Nil
      with phase task_step.seq_end [OF Seq_loop] show ?thesis by blast
    next
      case (Cons x todo)
      obtain v D where "sequential_read api h p ?D (rs_items (ac_data s) ! snd x) = (v, D)"
        by fastforce
      with Cons phase task_step.seq_read [OF Seq_loop] show ?thesis by blast
    qed
  next
    case (Seq_free b)
    from task_step.seq_free [OF this refl refl] show ?thesis by blast
  next
    case Sc_init
    obtain sc D where "VMMDLL_Scatter_Initialize api ?D h p (scatterFlags api) = (sc, D)"
      by fastforce
    from task_step.initialize [OF Sc_init phase this] show ?thesis by blast
  next
    case (Sc_prepare sc todo)
    show ?thesis
    proof (cases todo)
      case Nil
      obtain ok D where "VMMDLL_Scatter_Execute api ?D sc = (ok, D)"
        by fastforce
      with Nil Sc_prepare task_step.execute show ?thesis by blast
    next
      case (Cons x xs)
      obtain ok D where "VMMDLL_Scatter_Prepare api ?D sc (bi_address (rs_items (ac_data s) ! snd x)) (ucast (bi_size (rs_items (ac_data s) ! snd x))) = (ok, D)"
        by fastforce
      with Cons Sc_prepare task_step.prepare [OF _ refl] show ?thesis by blast
    qed
  next
    case (Sc_read sc)
    show ?thesis
    proof (cases batch)
      case Nil
      with phase task_step.scatter_close [OF Sc_read _ refl] show ?thesis by blast
    next
      case (Cons x todo)
      obtain ok bs r D where "VMMDLL_Scatter_Read api ?D sc (bi_address (rs_items (ac_data s) ! snd x)) (ucast (bi_size (rs_items (ac_data s) ! snd x))) = (ok, bs, r, D)"
        by (metis prod_cases4)
      with Cons phase task_step.scatter_read [OF Sc_read _ refl] show ?thesis by blast
    qed
  next
    case At_release
    from task_step.release [OF this] show ?thesis by blast
  qed (use assms(2) in simp)
qed

text \<open>What the other threads do meanwhile leaves the distance alone.\<close>

lemma other_step_distance:
  assumes "access_step api h s s'" "\<not> task_step api h s s'" "ac_task s \<noteq> No_task"
  shows "task_distance s' = task_distance s"
  using assms(1)
proof cases
  case (enqueue t p a n i d)
  then show ?thesis using read_enqueue_result(4) [OF enqueue(3)] by (simp add: task_distance_def)
next
  case (finish t rd v d)
  then show ?thesis using read_finish_result(1) [OF finish(3)] by (simp add: task_distance_def)
next
  case writer
  then show ?thesis by cases (simp_all add: task_distance_def cong: phase.case_cong)
qed (use assms in \<open>simp_all add: task_distance_def cong: phase.case_cong\<close>)

text \<open>What a read that can finish returns.\<close>

lemma read_answer_fresh:
  assumes "access_steps api h (new_access_sys D) s" "rs_waiting (ac_data s) t = Some rd"
    and "read_finish (ac_data s) rd = Inr ((r, bs), d)"
  shows "\<exists>full. fresh_answer api h (ac_hist s) (ac_from s t) (rd_pid rd) (rd_address rd) (rd_size rd) (r, full)
    \<and> bs = take (unat r) full"
proof -
  have inv: "access_inv api h s"
    by (rule reachable_access(1) [OF assms(1)])
  then have "reader_ok (ac_data s) rd"
    using read_invD(4) assms(2) by (auto simp: access_inv_def)
  then have req: "bi_pid (rs_items (ac_data s) ! rd_item rd) = rd_pid rd" "bi_address (rs_items (ac_data s) ! rd_item rd) = rd_address rd"
      "bi_size (rs_items (ac_data s) ! rd_item rd) = rd_size rd"
    by (simp_all add: reader_ok_def Let_def)
  have fresh: "item_fresh api h (ac_hist s) (rs_buffers (ac_data s)) (ac_from s t) (rs_items (ac_data s) ! rd_item rd)"
    using inv assms(2) by (simp add: access_inv_def readers_fresh_def)
  obtain it where "get (rs_buffers (ac_data s)) (rs_items (ac_data s) ! rd_item rd) = Inr ((r, bi_data it), it)" "bs = take (unat r) (bi_data it)"
    using read_finish_changes [OF assms(3)] by auto
  with item_fresh_get(2) [OF fresh] req show ?thesis by auto
qed

section \<open>Buffers that nobody releases\<close>

definition buffer_stays :: "'d access_sys \<Rightarrow> nat \<Rightarrow> bool" where
  "buffer_stays s b \<longleftrightarrow> b < length (rs_buffers (ac_data s)) \<and> rs_buffers (ac_data s) ! b \<noteq> None \<and> ac_task s \<noteq> Seq_free b"

lemma access_step_buffers:
  assumes "access_step api h s s'" "buffer_stays s b"
  shows "buffer_stays s' b"
  using assms(1)
proof cases
  case (enqueue t p a n i d)
  then show ?thesis using assms(2) read_enqueue_result(3) [OF enqueue(3)] by (simp add: buffer_stays_def)
next
  case (finish t rd v d)
  obtain it where "d = (ac_data s)\<lparr>rs_items := (rs_items (ac_data s))[rd_item rd := it]\<rparr>"
    using read_finish_changes [OF finish(3)] by metis
  then show ?thesis using assms(2) finish(1) by (simp add: buffer_stays_def)
next
  case (round order)
  then show ?thesis using assms(2) by (simp add: buffer_stays_def dispatch_round_def split: prod.splits)
next
  case task
  then show ?thesis using assms(2) by cases (auto simp: buffer_stays_def nth_append nth_list_update)
next
  case writer
  then show ?thesis using assms(2) by cases (simp_all add: buffer_stays_def)
qed (use assms(2) in \<open>simp add: buffer_stays_def\<close>)

lemma access_steps_buffers: "access_steps api h s s' \<Longrightarrow> buffer_stays s b \<Longrightarrow> buffer_stays s' b"
  by (induction rule: access_steps.induct) (auto dest: access_step_buffers)

lemma scatter_buffer_stays:
  assumes "task_step api h s s'" "ac_task s = Sc_read sc" "rs_phase (ac_data s) = Dispatching p (x # todo)"
  shows "buffer_stays s' (length (rs_buffers (ac_data s)))"
  using assms by cases (auto simp: buffer_stays_def nth_append)

section \<open>Properties\<close>

text \<open>A run on the concrete device: thread 0 reads, its batch is dispatched, and its promise is set.\<close>

definition flat_reader :: reader where
  "flat_reader = \<lparr>rd_pid = 4, rd_address = 2, rd_size = 4, rd_item = 0\<rparr>"

definition flat_answered :: "byte list access_sys" where
  "flat_answered =
     \<lparr>ac_data = \<lparr>rs_backlog = [], rs_items = [(new_BacklogItem 4 2 4)\<lparr>bi_promise := Some (4, 0)\<rparr>],
        rs_buffers = [Some [12, 13, 14, 15]], rs_waiting = [0 \<mapsto> flat_reader], rs_done = Map.empty, rs_phase = Dispatching 4 [],
        rs_device = called flat_device (Call_MemReadEx 1 4 2 4 (scatterFlags flat_api)) (dev flat_device)\<rparr>,
      ac_sem = 0, ac_task = Seq_free 0, ac_writer = (\<lambda>w. W_idle None),
      ac_hist = [flat_device, called flat_device (Call_MemReadEx 1 4 2 4 (scatterFlags flat_api)) (dev flat_device)],
      ac_from = (\<lambda>t. 0), ac_session = 0, ac_executed = 0\<rparr>"

definition flat_begun :: "byte list access_sys" where
  "flat_begun = (new_access_sys flat_device)\<lparr>ac_data := (new_read_sys flat_device)
     \<lparr>rs_items := [new_BacklogItem 4 2 4], rs_backlog := [(backlog_key 4 2 4, 0)], rs_waiting := [0 \<mapsto> flat_reader]\<rparr>\<rparr>"

definition flat_formed :: "byte list access_sys" where
  "flat_formed = flat_begun\<lparr>ac_data := (ac_data flat_begun)
     \<lparr>rs_backlog := [], rs_phase := Dispatching 4 [(backlog_key 4 2 4, 0)]\<rparr>, ac_task := At_acquire\<rparr>"

definition flat_acquired :: "byte list access_sys" where
  "flat_acquired = flat_formed\<lparr>ac_sem := 0, ac_task := Seq_loop\<rparr>"

lemmas flat_states = flat_begun_def flat_formed_def flat_acquired_def flat_answered_def new_access_sys_def new_read_sys_def

lemma flat_round: "access_step flat_api 1 flat_begun flat_formed"
proof -
  have "dispatch_round (ac_data flat_begun) [(backlog_key 4 2 4, 0)] = ac_data flat_formed"
    by (simp add: flat_states dispatch_round_def form_batch_def with_items_def MAX_BYTES_PER_DISPATCH_def MAX_DISPATCH_SIZE_def
        new_BacklogItem_def umap_erase_def)
  then show ?thesis
    using access_step.round [of flat_begun "[(backlog_key 4 2 4, 0)]" flat_api 1] by (simp add: flat_states)
qed

lemma flat_acquire: "access_step flat_api 1 flat_formed flat_acquired"
  using task_step.acquire [of flat_formed 4 "[(backlog_key 4 2 4, 0)]" "[(backlog_key 4 2 4, 0)]" flat_api 1]
  by (intro access_step.task) (simp add: flat_states SCATTER_READ_THRESHOLD_def)

lemma flat_read: "access_step flat_api 1 flat_acquired flat_answered"
proof -
  have "sequential_read flat_api 1 4 flat_device (new_BacklogItem 4 2 4)
      = ((4, [12, 13, 14, 15]), called flat_device (Call_MemReadEx 1 4 2 4 (scatterFlags flat_api)) (dev flat_device))"
    by (simp add: sequential_read_def VMMDLL_MemReadEx_def flat_api_def flat_read_def flat_device_def new_BacklogItem_def
        promise_buffer_def overwrite_def called_def)
  then show ?thesis
    using task_step.seq_read [of flat_acquired 4 "(backlog_key 4 2 4, 0)" "[]" flat_api 1]
    by (intro access_step.task) (simp add: flat_states set_promise_def device_to_def)
qed

lemma flat_answered_reached: "access_steps flat_api 1 (new_access_sys flat_device) flat_answered"
proof -
  have "access_step flat_api 1 (new_access_sys flat_device) flat_begun"
    using access_step.enqueue [of "new_access_sys flat_device" 0 4 2 4 0
        "(new_read_sys flat_device)\<lparr>rs_items := [new_BacklogItem 4 2 4], rs_backlog := [(backlog_key 4 2 4, 0)]\<rparr>" flat_api 1]
    by (simp add: flat_states read_enqueue_def umap_assign_def flat_reader_def fun_upd_idem)
  with flat_round flat_acquire flat_read show ?thesis by (meson access_steps.intros)
qed

text \<open>
  C8: the semaphore keeps reads and writes apart. At any time it is held by the dispatch task or by one writer and is then
  zero, or it is held by nobody and is one; and in the sequence of calls the device sees, a scatter
  handle is opened, used and closed with no write and no direct read in between.
\<close>

theorem semaphore_excludes_writes:
  assumes "access_steps api h (new_access_sys D) s" "batch_trace (calls D) = Some False"
  shows "(ac_sem s = 1 \<and> \<not> task_holds (ac_task s) \<and> (\<forall>w. \<not> writer_holds (ac_writer s w))
      \<or> ac_sem s = 0 \<and> task_holds (ac_task s) \<and> (\<forall>w. \<not> writer_holds (ac_writer s w))
      \<or> ac_sem s = 0 \<and> \<not> task_holds (ac_task s) \<and> (\<exists>!w. writer_holds (ac_writer s w)))
    \<and> batch_trace (calls (rs_device (ac_data s))) = Some (in_scatter (ac_task s))"
proof
  have "sem_ok s"
    by (rule reachable_access(2) [OF assms(1)])
  then consider "ac_sem s = 1" "holders s = {}" | x where "ac_sem s = 0" "holders s = {x}"
    by (auto simp: sem_ok_def)
  then show "ac_sem s = 1 \<and> \<not> task_holds (ac_task s) \<and> (\<forall>w. \<not> writer_holds (ac_writer s w))
      \<or> ac_sem s = 0 \<and> task_holds (ac_task s) \<and> (\<forall>w. \<not> writer_holds (ac_writer s w))
      \<or> ac_sem s = 0 \<and> \<not> task_holds (ac_task s) \<and> (\<exists>!w. writer_holds (ac_writer s w))"
  proof cases
    case 1
    then show ?thesis by (auto simp: holders_def writers_inside_def split: if_splits)
  next
    case (2 x)
    have "None \<in> holders s \<longleftrightarrow> task_holds (ac_task s)" "\<And>w. Some w \<in> holders s \<longleftrightarrow> writer_holds (ac_writer s w)"
      by (auto simp: holders_def writers_inside_def)
    with 2 show ?thesis by (cases x) (force, metis option.inject singleton_iff option.distinct(1))
  qed
  show "batch_trace (calls (rs_device (ac_data s))) = Some (in_scatter (ac_task s))"
    by (rule access_steps_trace [OF assms(1) new_access_sys_sem]) (simp add: new_access_sys_def new_read_sys_def assms(2))
qed

theorem semaphore_excludes_writes_witness:
  "\<not> writer_holds (ac_writer flat_answered 0) \<and> batch_trace (calls (rs_device (ac_data flat_answered))) = Some False"
  using semaphore_excludes_writes [OF flat_answered_reached] by (simp add: batch_trace_def flat_device_def flat_answered_def)

text \<open>
  C7: a read is answered afresh. Whatever batches, joined requests, writers and snapshots run beside it, the bytes that a
  read returns come from device calls made for its process, address and size between its call and its
  return: one direct read, or a scatter handle opened, prepared, executed and read with no write
  in between. So a read sees every write that returned before it was called.
\<close>

theorem read_is_fresh:
  assumes "access_steps api h (new_access_sys D) s" "rs_waiting (ac_data s) t = Some rd"
    and "read_finish (ac_data s) rd = Inr ((r, bs), d)"
  shows "\<exists>full. fresh_answer api h (ac_hist s) (ac_from s t) (rd_pid rd) (rd_address rd) (rd_size rd) (r, full)
    \<and> bs = take (unat r) full"
  by (rule read_answer_fresh [OF assms])

theorem read_is_fresh_witness:
  "\<exists>full. fresh_answer flat_api 1 (ac_hist flat_answered) 0 4 2 4 (4, full) \<and> [12, 13, 14, 15] = take 4 full"
proof -
  have "\<exists>d. read_finish (ac_data flat_answered) flat_reader = Inr ((4, [12, 13, 14, 15]), d)"
    by (simp add: flat_answered_def flat_reader_def read_finish_def get_def new_BacklogItem_def Let_def)
  then obtain d where "read_finish (ac_data flat_answered) flat_reader = Inr ((4, [12, 13, 14, 15]), d)"
    by blast
  moreover have "rs_waiting (ac_data flat_answered) 0 = Some flat_reader"
    by (simp add: flat_answered_def)
  ultimately show ?thesis
    using read_is_fresh [OF flat_answered_reached] by (fastforce simp: flat_reader_def flat_answered_def)
qed

text \<open>
  C22: a batch always comes to its end and gives the semaphore back. Whatever the device answers, the task can take a step
  unless it waits for the semaphore, each of its steps brings it nearer to its end, no step of
  another thread takes it away from there, and its end is the state in which it has released.
\<close>

theorem batch_ends:
  assumes "access_steps api h (new_access_sys D) s" "ac_task s \<noteq> No_task"
  shows "(ac_task s = At_acquire \<and> ac_sem s = 0 \<or> (\<exists>s'. task_step api h s s'))
    \<and> (\<forall>s'. task_step api h s s' \<longrightarrow> task_distance s' < task_distance s)
    \<and> (\<forall>s'. access_step api h s s' \<longrightarrow> task_distance s' \<le> task_distance s)
    \<and> (\<forall>s'. task_step api h s s' \<and> ac_task s' = No_task \<longrightarrow> ac_sem s' = 1)"
proof (intro conjI)
  have ok: "task_ok api h s"
    using reachable_access(1) [OF assms(1)] by (simp add: access_inv_def)
  show "ac_task s = At_acquire \<and> ac_sem s = 0 \<or> (\<exists>s'. task_step api h s s')"
    using task_step_enabled [OF ok assms(2)] by (metis gr0I)
  show "\<forall>s'. task_step api h s s' \<longrightarrow> task_distance s' < task_distance s"
    using task_step_distance by blast
  then show "\<forall>s'. access_step api h s s' \<longrightarrow> task_distance s' \<le> task_distance s"
    using other_step_distance assms(2) by (metis le_eq_less_or_eq)
  show "\<forall>s'. task_step api h s s' \<and> ac_task s' = No_task \<longrightarrow> ac_sem s' = 1"
  proof (intro allI impI, elim conjE)
    fix s'
    assume step: "task_step api h s s'" and end_of_task: "ac_task s' = No_task"
    then have "ac_task s = At_release" "ac_sem s' = ac_sem s + 1"
      by (cases; auto split: if_splits)+
    moreover have "sem_ok s'"
      using access_steps.more [OF assms(1) access_step.task [OF step]] by (rule reachable_access(2))
    ultimately show "ac_sem s' = 1" by (auto simp: sem_ok_def)
  qed
qed

theorem batch_ends_witness:
  "\<exists>s'. task_step flat_api 1 flat_answered s' \<and> task_distance s' < task_distance flat_answered"
proof -
  have "ac_task flat_answered = Seq_free 0"
    by (simp add: flat_answered_def)
  then show ?thesis
    using batch_ends [OF flat_answered_reached] by auto
qed

text \<open>
  C28: the buffers of scatter reads are never released. Once the task has answered a request from a scatter handle, the
  buffer that it allocated for the answer stays allocated in every later state, whatever the threads do and
  whoever has read it: only the buffer of a direct read is ever given back.
\<close>

theorem scatter_buffers_leak:
  assumes "task_step api h s s1" "ac_task s = Sc_read sc" "rs_phase (ac_data s) = Dispatching p (x # todo)"
    and "access_steps api h s1 s2"
  shows "length (rs_buffers (ac_data s)) < length (rs_buffers (ac_data s2))
    \<and> rs_buffers (ac_data s2) ! length (rs_buffers (ac_data s)) \<noteq> None"
  using access_steps_buffers [OF assms(4) scatter_buffer_stays [OF assms(1-3)]] by (simp add: buffer_stays_def)

theorem scatter_buffers_leak_witness:
  "\<exists>s1. task_step flat_api 1 (flat_acquired\<lparr>ac_task := Sc_read 1\<rparr>) s1 \<and> rs_buffers (ac_data s1) ! 0 \<noteq> None"
proof -
  let ?s = "flat_acquired\<lparr>ac_task := Sc_read 1\<rparr>"
  obtain ok bs r D where "VMMDLL_Scatter_Read flat_api (rs_device (ac_data ?s)) 1 (bi_address (rs_items (ac_data ?s) ! 0))
      (ucast (bi_size (rs_items (ac_data ?s) ! 0))) = (ok, bs, r, D)"
    by (metis prod_cases4)
  moreover have phase: "rs_phase (ac_data ?s) = Dispatching 4 [(backlog_key 4 2 4, 0)]"
    by (simp add: flat_states)
  ultimately obtain s1 where "task_step flat_api 1 ?s s1"
    using task_step.scatter_read [of ?s 1 4 "(backlog_key 4 2 4, 0)" "[]" _ flat_api ok bs r D 1] by auto
  with scatter_buffers_leak [OF this _ phase access_steps.none, of 1] show ?thesis
    by (auto simp: flat_states)
qed

end
