(* ===== verification/Composition.thy ===== *)
theory Composition
  imports Access Server
begin

text \<open>
  The connections of \<^verbatim>\<open>Server.cpp\<close> and the adapter of \<^verbatim>\<open>Memory.cpp\<close> put together, at the grain of \<open>Access\<close>: a connection's
  thread that gets to \<open>memory->read\<close> or \<open>memory->write\<close> is inside that call while other connections are served,
  batches are formed and read, and writes wait for the semaphore. The thread goes on with what the call
  returned. The other commands are rounds of their connections, whatever the adapter answers them; the
  device calls they make are steps of their own. The handle is checked and its process looked up under the
  table's mutex, but not under one acquisition of it: other connections may close it in between.
\<close>


section \<open>Threads inside a call\<close>

text \<open>What \<open>memory->read\<close> does until it waits, and when its promise has been set.\<close>

definition begin_read :: "nat \<Rightarrow> pid \<Rightarrow> address \<Rightarrow> u64 \<Rightarrow> 'd access_sys \<Rightarrow> 'd access_sys" where
  "begin_read t p a n A =
     (let (i, d) = read_enqueue (ac_data A) p a n
      in A\<lparr>ac_data := d\<lparr>rs_waiting := (rs_waiting (ac_data A))(t \<mapsto> \<lparr>rd_pid = p, rd_address = a, rd_size = n, rd_item = i\<rparr>)\<rparr>,
           ac_from := (ac_from A)(t := length (ac_hist A) - 1)\<rparr>)"

definition end_read :: "nat \<Rightarrow> reader \<Rightarrow> u64 \<times> byte list \<Rightarrow> 'd read_sys \<Rightarrow> 'd access_sys \<Rightarrow> 'd access_sys" where
  "end_read t rd v d A =
     A\<lparr>ac_data := d\<lparr>rs_waiting := (rs_waiting (ac_data A))(t := None), rs_done := (rs_done (ac_data A))(t \<mapsto> (rd, v))\<rparr>\<rparr>"

definition begin_write :: "nat \<Rightarrow> write_call \<Rightarrow> 'd access_sys \<Rightarrow> 'd access_sys" where
  "begin_write t wr A = A\<lparr>ac_writer := (ac_writer A)(t := W_acquire wr)\<rparr>"

text \<open>The rest of the handler: the adapter's answer to the one call that it makes is known.\<close>

definition answering :: "u64 \<times> byte list \<Rightarrow> u64 \<Rightarrow> unit memory_ops" where
  "answering v u =
     \<lparr>mo_getProcessSnapshot = (\<lambda>m. Inr ([], m)), mo_getModuleSnapshot = (\<lambda>m p. ([], m)), mo_getThreadSnapshot = (\<lambda>m p. ([], m)),
      mo_read = (\<lambda>m p a n. Inr (v, m)), mo_write = (\<lambda>m buf p a n. (u, m)), mo_getMemoryModel = (\<lambda>m p. (MemoryModel_NA, m))\<rparr>"


section \<open>The whole program\<close>

text \<open>
  Connection \<open>i\<close> is served by thread \<open>i\<close>. While it is in the handler of a read or a write, \<open>wh_calls\<close> tells how far it
  has come: \<open>Checked st\<close> after \<open>containsProcessIDHandle\<close>, \<open>Called st st'\<close> inside the call, where \<open>st\<close> and \<open>st'\<close> are the handle
  table at the check and at \<open>getProcessID\<close>. \<open>wh_from\<close> is the position in the device's history at which it called
  \<open>write\<close>; the program does not have these three.
\<close>

datatype call_place = Checked client_state | Called client_state client_state

record 'd whole =
  wh_table :: client_state
  wh_access :: "'d access_sys"
  wh_conns :: "nat \<rightharpoonup> sock \<times> string"
  wh_calls :: "nat \<rightharpoonup> call_place"
  wh_from :: "nat \<Rightarrow> nat"

definition new_whole :: "'d device \<Rightarrow> 'd whole" where
  "new_whole D = \<lparr>wh_table = new_ClientState, wh_access = new_access_sys D, wh_conns = Map.empty, wh_calls = Map.empty,
     wh_from = (\<lambda>i. 0)\<rparr>"

definition thread_client :: "client_state \<Rightarrow> sock \<times> string \<Rightarrow> unit client" where
  "thread_client st x = \<lparr>cl_socket = fst x, cl_connectionName = snd x, cl_memory = (), cl_state = st\<rparr>"

text \<open>The request on a connection, complete, leads its handler to the call.\<close>

definition asks_read :: "client_state \<Rightarrow> sock \<times> string \<Rightarrow> handle \<Rightarrow> address \<Rightarrow> u32 \<Rightarrow> byte list \<Rightarrow> bool" where
  "asks_read st x h a n rest \<longleftrightarrow>
     connected (fst x) \<and> sk_in (fst x) = CMD_READPROCESSMEMORY # read_request h a n 0 @ rest
     \<and> containsProcessIDHandle st h \<and> a \<noteq> 0 \<and> n \<noteq> 0"

definition asks_write :: "client_state \<Rightarrow> sock \<times> string \<Rightarrow> handle \<Rightarrow> address \<Rightarrow> byte list \<Rightarrow> byte list \<Rightarrow> bool" where
  "asks_write st x h a bs rest \<longleftrightarrow>
     connected (fst x) \<and> sk_in (fst x) = CMD_WRITEPROCESSMEMORY # write_request h a bs @ rest
     \<and> length bs < 2 ^ 31 \<and> containsProcessIDHandle st h"

definition write_of :: "client_state \<Rightarrow> handle \<Rightarrow> address \<Rightarrow> byte list \<Rightarrow> write_call" where
  "write_of st h a bs = \<lparr>wr_buffer = bs, wr_pid = getProcessID st h, wr_address = a, wr_size = word_of_nat (length bs)\<rparr>"

text \<open>The effect of a round's end on the connection.\<close>

definition after_round :: "nat \<Rightarrow> bool \<Rightarrow> 'm client \<Rightarrow> (nat \<rightharpoonup> sock \<times> string) \<Rightarrow> nat \<rightharpoonup> sock \<times> string" where
  "after_round i keep c conns = conns(i := if keep then Some (cl_socket c, cl_connectionName c) else None)"

text \<open>
  \<open>inside\<close> stands for the steps of the dispatch thread, its task, writers that have called, and the device calls of
  snapshots. A round that is no complete request to read or write may find any answers.
\<close>

inductive whole_step :: "'d vmmdll \<Rightarrow> vmm_handle \<Rightarrow> 'd whole \<Rightarrow> 'd whole \<Rightarrow> bool"
  for api :: "'d vmmdll" and hv :: vmm_handle where
  accepted: "wh_conns s i = None \<Longrightarrow> whole_step api hv s (s\<lparr>wh_conns := (wh_conns s)(i \<mapsto> (sk, ''''))\<rparr>)"
| round: "wh_conns s i = Some x \<Longrightarrow> wh_calls s i = None \<Longrightarrow> (\<And>h a n rest. \<not> asks_read (wh_table s) x h a n rest) \<Longrightarrow>
    (\<And>h a bs rest. \<not> asks_write (wh_table s) x h a bs rest) \<Longrightarrow>
    connection_round ops E (thread_client (wh_table s) x) = Inr (keep, c) \<Longrightarrow>
    whole_step api hv s (s\<lparr>wh_table := cl_state c, wh_conns := after_round i keep c (wh_conns s)\<rparr>)"
| check: "wh_conns s i = Some x \<Longrightarrow> wh_calls s i = None \<Longrightarrow>
    (\<exists>h a n rest. asks_read (wh_table s) x h a n rest) \<or> (\<exists>h a bs rest. asks_write (wh_table s) x h a bs rest) \<Longrightarrow>
    whole_step api hv s (s\<lparr>wh_calls := (wh_calls s)(i \<mapsto> Checked (wh_table s))\<rparr>)"
| call_read: "wh_conns s i = Some x \<Longrightarrow> wh_calls s i = Some (Checked st) \<Longrightarrow> asks_read st x h a n rest \<Longrightarrow>
    whole_step api hv s (s\<lparr>wh_access := begin_read i (getProcessID (wh_table s) h) a (ucast n) (wh_access s),
      wh_calls := (wh_calls s)(i \<mapsto> Called st (wh_table s))\<rparr>)"
| return_read: "wh_conns s i = Some x \<Longrightarrow> wh_calls s i = Some (Called st st') \<Longrightarrow> asks_read st x h a n rest \<Longrightarrow>
    rs_waiting (ac_data (wh_access s)) i = Some rd \<Longrightarrow> read_finish (ac_data (wh_access s)) rd = Inr (v, d) \<Longrightarrow>
    connection_round (answering v 0) E (thread_client st x) = Inr (keep, c) \<Longrightarrow>
    whole_step api hv s (s\<lparr>wh_access := end_read i rd v d (wh_access s), wh_conns := after_round i keep c (wh_conns s),
      wh_calls := (wh_calls s)(i := None)\<rparr>)"
| call_write: "wh_conns s i = Some x \<Longrightarrow> wh_calls s i = Some (Checked st) \<Longrightarrow> asks_write st x h a bs rest \<Longrightarrow>
    whole_step api hv s (s\<lparr>wh_access := begin_write i (write_of (wh_table s) h a bs) (wh_access s),
      wh_calls := (wh_calls s)(i \<mapsto> Called st (wh_table s)), wh_from := (wh_from s)(i := length (ac_hist (wh_access s)) - 1)\<rparr>)"
| return_write: "wh_conns s i = Some x \<Longrightarrow> wh_calls s i = Some (Called st st') \<Longrightarrow> asks_write st x h a bs rest \<Longrightarrow>
    ac_writer (wh_access s) i = W_idle (Some u) \<Longrightarrow>
    connection_round (answering (0, []) u) E (thread_client st x) = Inr (keep, c) \<Longrightarrow>
    whole_step api hv s (s\<lparr>wh_conns := after_round i keep c (wh_conns s), wh_calls := (wh_calls s)(i := None)\<rparr>)"
| inside: "access_step api hv (wh_access s) A \<Longrightarrow> rs_waiting (ac_data A) = rs_waiting (ac_data (wh_access s)) \<Longrightarrow>
    (\<And>w u. ac_writer (wh_access s) w = W_idle u \<Longrightarrow> ac_writer A w = W_idle u) \<Longrightarrow>
    whole_step api hv s (s\<lparr>wh_access := A\<rparr>)"

inductive whole_steps :: "'d vmmdll \<Rightarrow> vmm_handle \<Rightarrow> 'd whole \<Rightarrow> 'd whole \<Rightarrow> bool"
  for api :: "'d vmmdll" and hv :: vmm_handle where
  none: "whole_steps api hv s s"
| more: "whole_steps api hv s s' \<Longrightarrow> whole_step api hv s' s'' \<Longrightarrow> whole_steps api hv s s''"

section \<open>The calls are steps of the adapter\<close>

lemma begin_read_step:
  "rs_waiting (ac_data A) t = None \<Longrightarrow> access_step api hv A (begin_read t p a n A)"
  using access_step.enqueue [of A t p a n "fst (read_enqueue (ac_data A) p a n)" "snd (read_enqueue (ac_data A) p a n)" api hv]
  by (simp add: begin_read_def split_def Let_def)

lemma end_read_step:
  "rs_waiting (ac_data A) t = Some rd \<Longrightarrow> read_finish (ac_data A) rd = Inr (v, d) \<Longrightarrow> access_step api hv A (end_read t rd v d A)"
  unfolding end_read_def by (rule access_step.finish)

lemma begin_write_step:
  "ac_writer A t = W_idle u \<Longrightarrow> access_step api hv A (begin_write t wr A)"
  unfolding begin_write_def by (intro access_step.writer writer_step.w_call)

lemma call_simps [simp]:
  "ac_writer (begin_read t p a n A) = ac_writer A" "ac_hist (begin_read t p a n A) = ac_hist A"
  "ac_writer (end_read t rd v d A) = ac_writer A" "ac_hist (end_read t rd v d A) = ac_hist A"
  "rs_waiting (ac_data (end_read t rd v d A)) = (rs_waiting (ac_data A))(t := None)"
  "ac_data (begin_write t wr A) = ac_data A" "ac_hist (begin_write t wr A) = ac_hist A"
  "ac_writer (begin_write t wr A) = (ac_writer A)(t := W_acquire wr)"
  by (simp_all add: begin_read_def end_read_def begin_write_def split_def Let_def)

lemma begin_read_waiting:
  "\<exists>k. rs_waiting (ac_data (begin_read t p a n A))
     = (rs_waiting (ac_data A))(t \<mapsto> \<lparr>rd_pid = p, rd_address = a, rd_size = n, rd_item = k\<rparr>)"
  by (auto simp: begin_read_def split_def Let_def)

text \<open>A write that was done after the position \<open>t\<close>, with the result of \<open>Memory::write\<close>.\<close>

definition done_write :: "'d vmmdll \<Rightarrow> vmm_handle \<Rightarrow> 'd device list \<Rightarrow> nat \<Rightarrow> write_call \<Rightarrow> u64 \<Rightarrow> bool" where
  "done_write api hv H t wr u \<longleftrightarrow>
     (\<exists>j \<ge> t. happens H j (\<lambda>D D'. \<exists>ok.
        VMMDLL_MemWrite api D hv (wr_pid wr) (wr_address wr) (wr_buffer wr) (ucast (wr_size wr)) = (ok, D')
        \<and> u = (if ok then wr_size wr else - 1)))"

definition writer_ok :: "'d vmmdll \<Rightarrow> vmm_handle \<Rightarrow> 'd access_sys \<Rightarrow> nat \<Rightarrow> nat \<Rightarrow> write_call \<Rightarrow> bool" where
  "writer_ok api hv A i t wr \<longleftrightarrow> t < length (ac_hist A) \<and>
     (case ac_writer A i of
        W_acquire wr' \<Rightarrow> wr' = wr
      | W_write wr' \<Rightarrow> wr' = wr
      | W_release u \<Rightarrow> done_write api hv (ac_hist A) t wr u
      | W_idle None \<Rightarrow> False
      | W_idle (Some u) \<Rightarrow> done_write api hv (ac_hist A) t wr u)"

lemma done_write_mono: "done_write api hv H t wr u \<Longrightarrow> done_write api hv (H @ [D]) t wr u"
  unfolding done_write_def using happens_mono by blast

lemma writer_ok_mono:
  assumes "writer_ok api hv A i t wr" "ac_writer A' i = ac_writer A i" "ac_hist A' = ac_hist A \<or> (\<exists>D. ac_hist A' = ac_hist A @ [D])"
  shows "writer_ok api hv A' i t wr"
  using assms by (auto simp: writer_ok_def split: writer.splits option.splits intro: done_write_mono)

lemma task_step_frame:
  assumes "task_step api hv A A'"
  shows "ac_writer A' = ac_writer A" "ac_hist A' = ac_hist A \<or> (\<exists>D. ac_hist A' = ac_hist A @ [D])"
  using assms by (cases; simp)+

lemma inside_writer_ok:
  assumes "access_step api hv A A'" "\<And>u. ac_writer A i = W_idle u \<Longrightarrow> ac_writer A' i = W_idle u" "hist_ok A"
    and "writer_ok api hv A i t wr"
  shows "writer_ok api hv A' i t wr"
  using assms(1)
proof cases
  case task
  from writer_ok_mono [OF assms(4)] task_step_frame [OF this] show ?thesis by simp
next
  case writer
  then show ?thesis
  proof cases
    case (w_call w u wr')
    then show ?thesis
      using assms(2) writer_ok_mono [OF assms(4), of A'] by (cases "w = i") auto
  next
    case (w_acquire w wr')
    then show ?thesis
      using assms(4) writer_ok_mono [OF assms(4), of A'] by (cases "w = i") (auto simp: writer_ok_def)
  next
    case (w_write w wr' ok D)
    show ?thesis
    proof (cases "w = i")
      case True
      have H: "ac_hist A \<noteq> []" "last (ac_hist A) = rs_device (ac_data A)"
        using assms(3) by (simp_all add: hist_ok_def)
      have wr: "wr' = wr" and t: "t < length (ac_hist A)"
        using assms(4) w_write(2) True by (simp_all add: writer_ok_def)
      have "happens (ac_hist A @ [D]) (length (ac_hist A) - 1) (\<lambda>D D'. \<exists>ok'.
          VMMDLL_MemWrite api D hv (wr_pid wr) (wr_address wr) (wr_buffer wr) (ucast (wr_size wr)) = (ok', D')
          \<and> (if ok then wr_size wr else - 1) = (if ok' then wr_size wr else - 1))"
        by (rule happens_last [OF H(1)]) (use w_write(3) wr H(2) in auto)
      moreover have "t \<le> length (ac_hist A) - 1"
        using t by simp
      ultimately have "done_write api hv (ac_hist A @ [D]) t wr (if ok then wr_size wr else - 1)"
        unfolding done_write_def by blast
      then show ?thesis
        using w_write(1) True wr t by (cases ok) (simp_all add: writer_ok_def)
    next
      case False
      with w_write writer_ok_mono [OF assms(4), of A'] show ?thesis by simp
    qed
  next
    case (w_release w u)
    then show ?thesis
      using assms(4) writer_ok_mono [OF assms(4), of A'] by (cases "w = i") (auto simp: writer_ok_def)
  qed
qed (use writer_ok_mono [OF assms(4), of A'] in simp_all)

section \<open>The invariant\<close>

lemma asks_read_unique:
  assumes "asks_read st x h a n rest" "asks_read st x h' a' n' rest'"
  shows "h' = h \<and> a' = a \<and> n' = n \<and> rest' = rest"
  using assms by (auto simp: asks_read_def read_request_def le_bytes_inj)

lemma header_unique:
  "le_bytes 4 (h' :: handle) @ le_bytes 8 (a' :: address) @ le_bytes 4 (n' :: u32) @ xs' = le_bytes 4 h @ le_bytes 8 a @ le_bytes 4 n @ xs
   \<longleftrightarrow> h' = h \<and> a' = a \<and> n' = n \<and> xs' = xs"
  by (simp add: le_bytes_inj)

lemma asks_write_unique:
  assumes "asks_write st x h a bs rest" "asks_write st x h' a' bs' rest'"
  shows "h' = h \<and> a' = a \<and> bs' = bs \<and> rest' = rest"
proof -
  have "le_bytes 4 h' @ le_bytes 8 a' @ le_bytes 4 (word_of_nat (length bs') :: u32) @ bs' @ rest'
      = le_bytes 4 h @ le_bytes 8 a @ le_bytes 4 (word_of_nat (length bs) :: u32) @ bs @ rest"
    using assms by (simp add: asks_write_def write_request_def)
  then have *: "h' = h" "a' = a" "(word_of_nat (length bs') :: u32) = word_of_nat (length bs)" "bs' @ rest' = bs @ rest"
    unfolding header_unique by blast+
  have len: "length bs < 2 ^ 31" "length bs' < 2 ^ 31"
    using assms unfolding asks_write_def by blast+
  have "unat (word_of_nat (length bs') :: u32) = length bs'" "unat (word_of_nat (length bs) :: u32) = length bs"
    using len by (simp_all add: unat_of_nat)
  then have "length bs' = length bs"
    unfolding *(3) by (rule trans [OF sym])
  with *(1,2,4) show ?thesis by simp
qed

lemma asks_exclusive: "asks_read st x h a n rest \<Longrightarrow> \<not> asks_write st x h' a' bs' rest'"
  by (simp add: asks_read_def asks_write_def)

definition reading :: "client_state \<Rightarrow> client_state \<Rightarrow> sock \<times> string \<Rightarrow> reader \<Rightarrow> bool" where
  "reading st st' x rd \<longleftrightarrow> (\<exists>h a n rest. asks_read st x h a n rest
     \<and> rd_pid rd = getProcessID st' h \<and> rd_address rd = a \<and> rd_size rd = ucast n)"

definition idle :: "writer \<Rightarrow> bool" where
  "idle w \<longleftrightarrow> (\<exists>u. w = W_idle u)"

definition in_read :: "'d whole \<Rightarrow> nat \<Rightarrow> client_state \<Rightarrow> client_state \<Rightarrow> sock \<times> string \<Rightarrow> bool" where
  "in_read s i st st' x \<longleftrightarrow> idle (ac_writer (wh_access s) i)
     \<and> (\<exists>rd. rs_waiting (ac_data (wh_access s)) i = Some rd \<and> reading st st' x rd)"

definition in_write ::
    "'d vmmdll \<Rightarrow> vmm_handle \<Rightarrow> 'd whole \<Rightarrow> nat \<Rightarrow> client_state \<Rightarrow> client_state \<Rightarrow> sock \<times> string \<Rightarrow> bool" where
  "in_write api hv s i st st' x \<longleftrightarrow> rs_waiting (ac_data (wh_access s)) i = None
     \<and> (\<exists>h a bs rest. asks_write st x h a bs rest
          \<and> writer_ok api hv (wh_access s) i (wh_from s i) (write_of st' h a bs))"

definition outside :: "'d whole \<Rightarrow> nat \<Rightarrow> bool" where
  "outside s i \<longleftrightarrow> rs_waiting (ac_data (wh_access s)) i = None \<and> idle (ac_writer (wh_access s) i)"

definition thread_ok :: "'d vmmdll \<Rightarrow> vmm_handle \<Rightarrow> 'd whole \<Rightarrow> nat \<Rightarrow> bool" where
  "thread_ok api hv s i \<longleftrightarrow>
     (case wh_calls s i of
        None \<Rightarrow> outside s i
      | Some (Checked st) \<Rightarrow> outside s i \<and> wh_conns s i \<noteq> None
      | Some (Called st st') \<Rightarrow> \<exists>x. wh_conns s i = Some x \<and> (in_read s i st st' x \<or> in_write api hv s i st st' x))"

lemmas thread_defs = thread_ok_def in_read_def in_write_def outside_def

definition whole_inv :: "'d vmmdll \<Rightarrow> vmm_handle \<Rightarrow> 'd device \<Rightarrow> 'd whole \<Rightarrow> bool" where
  "whole_inv api hv D s \<longleftrightarrow> access_steps api hv (new_access_sys D) (wh_access s) \<and> (\<forall>i. thread_ok api hv s i)"

text \<open>A step that leaves thread \<open>j\<close> where it is.\<close>

lemma thread_ok_frame:
  assumes "thread_ok api hv s j" "wh_calls s' j = wh_calls s j" "wh_calls s j \<noteq> None \<Longrightarrow> wh_conns s' j = wh_conns s j"
    and "wh_from s' j = wh_from s j" "rs_waiting (ac_data (wh_access s')) j = rs_waiting (ac_data (wh_access s)) j"
    and "idle (ac_writer (wh_access s) j) \<Longrightarrow> idle (ac_writer (wh_access s') j)"
    and "\<And>t wr. writer_ok api hv (wh_access s) j t wr \<Longrightarrow> writer_ok api hv (wh_access s') j t wr"
  shows "thread_ok api hv s' j"
proof -
  have "outside s' j" if "outside s j"
    using that assms(5,6) by (simp add: outside_def)
  moreover have "in_read s' j st st' x" if "in_read s j st st' x" for st st' x
    using that assms(5,6) by (simp add: in_read_def)
  moreover have "in_write api hv s' j st st' x" if "in_write api hv s j st st' x" for st st' x
    using that assms(4,5,7) unfolding in_write_def by metis
  ultimately show ?thesis
    using assms(1-3) unfolding thread_ok_def by (cases "wh_calls s j") (auto split: call_place.splits)
qed

lemma whole_step_access:
  assumes "whole_step api hv s s'" "\<And>i. thread_ok api hv s i"
  shows "wh_access s' = wh_access s \<or> access_step api hv (wh_access s) (wh_access s')"
  using assms(1)
proof cases
  case (call_read i x st h a n rest)
  with assms(2) [of i] show ?thesis by (simp add: thread_ok_def outside_def begin_read_step)
next
  case (return_read i x st st' h a n rest rd v d E keep c)
  then show ?thesis by (simp add: end_read_step)
next
  case (call_write i x st h a bs rest)
  with assms(2) [of i] show ?thesis by (auto simp: thread_ok_def outside_def idle_def intro: begin_write_step)
qed simp_all

lemma whole_step_threads:
  assumes "whole_step api hv s s'" "\<And>i. thread_ok api hv s i" "hist_ok (wh_access s)"
  shows "thread_ok api hv s' j"
  using assms(1)
proof cases
  case (accepted i sk)
  show ?thesis
  proof (rule thread_ok_frame [OF assms(2)])
    show "wh_calls s j \<noteq> None \<Longrightarrow> wh_conns s' j = wh_conns s j"
      using assms(2) [of j] accepted
      by (cases "the (wh_calls s j)") (auto simp: thread_ok_def)
  qed (use accepted in simp_all)
next
  case (round i x ops E keep c)
  show ?thesis
    by (rule thread_ok_frame [OF assms(2)]) (use round in \<open>auto simp: after_round_def\<close>)
next
  case (check i x)
  show ?thesis
  proof (cases "j = i")
    case True
    with check assms(2) [of i] show ?thesis by (simp add: thread_ok_def outside_def)
  next
    case False
    show ?thesis
      by (rule thread_ok_frame [OF assms(2)]) (use check False in simp_all)
  qed
next
  case (call_read i x st h a n rest)
  obtain k where k: "rs_waiting (ac_data (wh_access s')) = (rs_waiting (ac_data (wh_access s)))(i \<mapsto>
      \<lparr>rd_pid = getProcessID (wh_table s) h, rd_address = a, rd_size = ucast n, rd_item = k\<rparr>)"
    using begin_read_waiting call_read(1) by fastforce
  show ?thesis
  proof (cases "j = i")
    case True
    with call_read k assms(2) [of i] show ?thesis
      by (auto simp: thread_defs reading_def)
  next
    case False
    show ?thesis
      by (rule thread_ok_frame [OF assms(2)]) (use call_read k False in \<open>auto elim: writer_ok_mono\<close>)
  qed
next
  case (return_read i x st st' h a n rest rd v d E keep c)
  show ?thesis
  proof (cases "j = i")
    case True
    have "in_read s i st st' x"
      using assms(2) [of i] by (simp add: thread_ok_def in_write_def return_read(2,3,5))
    then show ?thesis
      using return_read True by (simp add: thread_defs)
  next
    case False
    show ?thesis
      by (rule thread_ok_frame [OF assms(2)]) (use return_read False in \<open>auto simp: after_round_def elim: writer_ok_mono\<close>)
  qed
next
  case (call_write i x st h a bs rest)
  show ?thesis
  proof (cases "j = i")
    case True
    have "ac_hist (wh_access s) \<noteq> []"
      using assms(3) by (simp add: hist_ok_def)
    with True call_write assms(2) [of i] show ?thesis
      by (auto simp: thread_defs writer_ok_def)
  next
    case False
    show ?thesis
      by (rule thread_ok_frame [OF assms(2)]) (use call_write False in \<open>auto elim: writer_ok_mono\<close>)
  qed
next
  case (return_write i x st st' h a bs rest u E keep c)
  show ?thesis
  proof (cases "j = i")
    case True
    have "in_write api hv s i st st' x"
      using assms(2) [of i] return_write(4) by (auto simp: thread_ok_def in_read_def reading_def return_write(2,3) dest: asks_exclusive)
    then show ?thesis
      using return_write True by (simp add: thread_defs idle_def)
  next
    case False
    show ?thesis
      by (rule thread_ok_frame [OF assms(2)]) (use return_write False in \<open>auto simp: after_round_def\<close>)
  qed
next
  case (inside A)
  show ?thesis
  proof (rule thread_ok_frame [OF assms(2)])
    show "writer_ok api hv (wh_access s) j t wr \<Longrightarrow> writer_ok api hv (wh_access s') j t wr" for t wr
      using inside_writer_ok [OF inside(2) inside(4) assms(3)] inside(1) by simp
  qed (use inside in \<open>auto simp: idle_def\<close>)
qed

lemma whole_step_inv:
  assumes "whole_step api hv s s'" "whole_inv api hv D s"
  shows "whole_inv api hv D s'"
proof -
  have inv: "access_steps api hv (new_access_sys D) (wh_access s)" "\<And>i. thread_ok api hv s i"
    using assms(2) by (simp_all add: whole_inv_def)
  then have "hist_ok (wh_access s)"
    using reachable_access(1) [OF inv(1)] by (simp add: access_inv_def)
  with whole_step_threads [OF assms(1) inv(2)] whole_step_access [OF assms(1) inv(2)] inv(1) show ?thesis
    by (auto simp: whole_inv_def intro: access_steps.more)
qed

lemma new_whole_inv: "whole_inv api hv D (new_whole D)"
  by (simp add: whole_inv_def new_whole_def thread_ok_def outside_def idle_def access_steps.none)
    (simp add: new_access_sys_def new_read_sys_def)

lemma whole_steps_keep: "whole_steps api hv s s' \<Longrightarrow> whole_inv api hv D s \<Longrightarrow> whole_inv api hv D s'"
  by (induction rule: whole_steps.induct) (auto intro: whole_step_inv)

lemma whole_steps_inv: "whole_steps api hv (new_whole D) s \<Longrightarrow> whole_inv api hv D s"
  using whole_steps_keep new_whole_inv by blast

section \<open>The rest of the handler\<close>

lemma thread_client_exchange:
  "sk_in (fst x) = i \<Longrightarrow> thread_client st x = exchange i [] (thread_client st x)"
  by (simp add: thread_client_def exchange_def)

lemma thread_client_simps [simp]:
  "open_connection (thread_client st x) = connected (fst x)" "cl_state (thread_client st x) = st"
  "cl_connectionName (thread_client st x) = snd x" "cl_socket (thread_client st x) = fst x"
  by (simp_all add: thread_client_def open_connection_def)

definition read_reply :: "u64 \<Rightarrow> byte list \<Rightarrow> byte list" where
  "read_reply r bs = (if r = 0 then le_bytes 4 (0 :: u32) else le_bytes 4 (ucast r :: u32) @ bs)"

text \<open>The connection after it was answered, and the stream went on after the request.\<close>

definition answered :: "byte list \<Rightarrow> byte list \<Rightarrow> sock \<times> string \<Rightarrow> sock \<times> string" where
  "answered rest reply x = ((fst x)\<lparr>sk_in := rest, sk_out := sk_out (fst x) @ reply\<rparr>, snd x)"

lemma read_round:
  assumes "asks_read st x h a n rest"
  shows "connection_round (answering (r, bs) u) E (thread_client st x) = Inr (True, exchange rest (read_reply r bs) (thread_client st x))"
proof -
  have x: "open_connection (thread_client st x)" "sk_in (fst x) = CMD_READPROCESSMEMORY # read_request h a n 0 @ rest"
      "containsProcessIDHandle st h" "a \<noteq> 0" "n \<noteq> 0"
    using assms by (simp_all add: asks_read_def)
  have "connection_round (answering (r, bs) u) E (exchange (CMD_READPROCESSMEMORY # read_request h a n 0 @ rest) [] (thread_client st x))
      = Inr (True, exchange rest (read_reply r bs) (thread_client st x))"
    unfolding connection_round_command [OF x(1)] dispatchCommand_def
    using ReadProcessMemory_exchange [OF x(1), of "answering (r, bs) u" h a n 0 rest "[]"] x(3-5)
    by (simp add: answering_def read_reply_def) (simp add: thread_client_def)
  then show ?thesis
    unfolding thread_client_exchange [OF x(2), of st, symmetric] .
qed

lemma read_round_end:
  assumes "asks_read st x h a n rest" "connection_round (answering (r, bs) u) E (thread_client st x) = Inr (keep, c)"
  shows "after_round i keep c conns = conns(i \<mapsto> answered rest (read_reply r bs) x)"
  using assms(2) read_round [OF assms(1)] by (auto simp: after_round_def answered_def exchange_def)

lemma write_round:
  assumes "asks_write st x h a bs rest"
  shows "connection_round (answering v u) E (thread_client st x) = Inr (u = word_of_nat (length bs),
    if u = word_of_nat (length bs) then exchange rest (le_bytes 4 (ucast u :: u32)) (thread_client st x)
    else close_client (exchange rest (le_bytes 4 (ucast u :: u32)) (thread_client st x)))"
proof -
  have x: "open_connection (thread_client st x)" "sk_in (fst x) = CMD_WRITEPROCESSMEMORY # write_request h a bs @ rest"
      "length bs < 2 ^ 31" "containsProcessIDHandle st h"
    using assms by (simp_all add: asks_write_def)
  have "mo_write (answering v u) (cl_memory (thread_client st x)) bs (getProcessID (cl_state (thread_client st x)) h) a
      (word_of_nat (length bs)) = (u, ())"
    by (simp add: answering_def)
  note reply = WriteProcessMemory_exchange [OF x(1,3) this, of E rest "[]"]
  have "dispatchCommand (answering v u) E CMD_WRITEPROCESSMEMORY (exchange (write_request h a bs @ rest) [] (thread_client st x))
      = Inr (u = word_of_nat (length bs), exchange rest (le_bytes 4 (ucast u :: u32)) (thread_client st x))"
    using reply x(4) by (simp add: dispatchCommand_def) (simp add: thread_client_def)
  then have "connection_round (answering v u) E
      (exchange (CMD_WRITEPROCESSMEMORY # write_request h a bs @ rest) [] (thread_client st x))
    = Inr (u = word_of_nat (length bs), if u = word_of_nat (length bs)
        then exchange rest (le_bytes 4 (ucast u :: u32)) (thread_client st x)
        else close_client (exchange rest (le_bytes 4 (ucast u :: u32)) (thread_client st x)))"
    unfolding connection_round_command [OF x(1)] by simp
  then show ?thesis
    unfolding thread_client_exchange [OF x(2), of st, symmetric] .
qed

lemma write_round_end:
  assumes "asks_write st x h a bs rest" "connection_round (answering v u) E (thread_client st x) = Inr (keep, c)"
  shows "after_round i keep c conns
    = conns(i := if u = word_of_nat (length bs) then Some (answered rest (le_bytes 4 (ucast u :: u32)) x) else None)"
  using assms(2) write_round [OF assms(1)] by (auto simp: after_round_def answered_def exchange_def)

section \<open>What a thread does when its call returns\<close>

lemma read_answered:
  assumes "whole_steps api hv (new_whole D) s" "whole_step api hv s s'" "wh_calls s i = Some (Called st st')" "wh_calls s' i = None"
    and "wh_conns s i = Some x" "asks_read st x h a n rest"
  shows "\<exists>r full. fresh_answer api hv (ac_hist (wh_access s)) (ac_from (wh_access s) i) (getProcessID st' h) a (ucast n) (r, full)
    \<and> wh_conns s' = (wh_conns s)(i \<mapsto> answered rest (read_reply r (take (unat r) full)) x)
    \<and> wh_table s' = wh_table s"
proof -
  have inv: "access_steps api hv (new_access_sys D) (wh_access s)" "thread_ok api hv s i"
    using whole_steps_inv [OF assms(1)] by (simp_all add: whole_inv_def)
  from assms(2) show ?thesis
  proof cases
    case (return_read j y st0 st1 h' a' n' rest' rd v d E keep c)
    then have j: "j = i" "y = x" "st0 = st"
      using assms(3-5) by (auto split: if_splits)
    obtain r bs where v: "v = (r, bs)" by fastforce
    have "reading st st' x rd"
      using inv(2) return_read(5) assms(3,5) j by (auto simp: thread_ok_def in_read_def in_write_def)
    then have rd: "rd_pid rd = getProcessID st' h" "rd_address rd = a" "rd_size rd = ucast n"
      using asks_read_unique [OF assms(6)] by (auto simp: reading_def)
    obtain full where full: "fresh_answer api hv (ac_hist (wh_access s)) (ac_from (wh_access s) i) (getProcessID st' h) a (ucast n) (r, full)"
        "bs = take (unat r) full"
      using read_answer_fresh [OF inv(1) return_read(5) return_read(6) [unfolded v]] j rd by auto
    have "wh_conns s' = (wh_conns s)(i \<mapsto> answered rest (read_reply r bs) x)"
      using read_round_end [OF assms(6)] return_read(1,7) j v by simp
    with full return_read(1) show ?thesis by auto
  next
    case (return_write j y st0 st1 h' a' bs rest' u E keep c)
    then show ?thesis
      using assms(3-6) asks_exclusive by (auto split: if_splits)
  qed (use assms(3,4) in \<open>auto split: if_splits\<close>)
qed

lemma write_answered:
  assumes "whole_steps api hv (new_whole D) s" "whole_step api hv s s'" "wh_calls s i = Some (Called st st')" "wh_calls s' i = None"
    and "wh_conns s i = Some x" "asks_write st x h a bs rest"
  shows "\<exists>u. done_write api hv (ac_hist (wh_access s)) (wh_from s i) (write_of st' h a bs) u
    \<and> wh_conns s' = (wh_conns s)(i :=
        if u = word_of_nat (length bs) then Some (answered rest (le_bytes 4 (ucast u :: u32)) x) else None)
    \<and> wh_table s' = wh_table s"
proof -
  have inv: "thread_ok api hv s i"
    using whole_steps_inv [OF assms(1)] by (simp_all add: whole_inv_def)
  from assms(2) show ?thesis
  proof cases
    case (return_write j y st0 st1 h' a' bs' rest' u E keep c)
    then have j: "j = i" "y = x" "st0 = st"
      using assms(3-5) by (auto split: if_splits)
    obtain h1 a1 bs1 rest1 where w: "asks_write st x h1 a1 bs1 rest1"
        "writer_ok api hv (wh_access s) i (wh_from s i) (write_of st' h1 a1 bs1)"
      using inv assms(6) by (auto simp: thread_ok_def in_read_def in_write_def reading_def assms(3,5) dest: asks_exclusive)
    have "writer_ok api hv (wh_access s) i (wh_from s i) (write_of st' h a bs)"
      using w asks_write_unique [OF assms(6) w(1)] by simp
    then have "done_write api hv (ac_hist (wh_access s)) (wh_from s i) (write_of st' h a bs) u"
      using return_write(5) j by (simp add: writer_ok_def)
    moreover have "wh_conns s' = (wh_conns s)(i :=
        if u = word_of_nat (length bs) then Some (answered rest (le_bytes 4 (ucast u :: u32)) x) else None)"
      using write_round_end [OF assms(6)] return_write(1,6) j by simp
    ultimately show ?thesis using return_write(1) by auto
  next
    case (return_read j y st0 st1 h' a' n' rest' rd v d E keep c)
    then show ?thesis
      using assms(3-6) asks_exclusive by (auto split: if_splits)
  qed (use assms(3,4) in \<open>auto split: if_splits\<close>)
qed

section \<open>A concrete run\<close>

text \<open>Connection 0 has been accepted and has opened process 4 under handle 1; \<open>req\<close> is what it asks next.\<close>

definition opened_table :: client_state where
  "opened_table = new_ClientState\<lparr>lastHandleID := 1, handlesToProcessIDs := [(1, 4)]\<rparr>"

definition opened_conn :: "byte list \<Rightarrow> sock \<times> string" where
  "opened_conn req = (plain_socket\<lparr>sk_in := req, sk_out := le_bytes 4 (1 :: handle)\<rparr>, '''')"

definition opened_whole :: "'d device \<Rightarrow> byte list \<Rightarrow> 'd whole" where
  "opened_whole D req = (new_whole D)\<lparr>wh_table := opened_table, wh_conns := [0 \<mapsto> opened_conn req]\<rparr>"

lemma opened_table_simps [simp]: "containsProcessIDHandle opened_table 1" "getProcessID opened_table 1 = 4"
  by (simp_all add: opened_table_def client_state_defs umap_contains_def)

lemma opened_conn_simps [simp]:
  "connected (fst (opened_conn req))" "sk_in (fst (opened_conn req)) = req"
  by (simp_all add: opened_conn_def connected_def plain_socket_def)

lemma opened_whole_reached: "whole_steps api hv (new_whole D) (opened_whole D req)"
proof -
  let ?x = "(plain_socket\<lparr>sk_in := CMD_OPENPROCESS # le_bytes 4 (4 :: pid) @ req\<rparr>, '''')"
  let ?s = "(new_whole D)\<lparr>wh_conns := (wh_conns (new_whole D))(0 \<mapsto> ?x)\<rparr>"
  let ?c = "thread_client new_ClientState ?x"
  have acc: "whole_step api hv (new_whole D) ?s"
    by (rule whole_step.accepted) (simp add: new_whole_def)
  have x: "connected (fst ?x)" by (simp add: connected_def plain_socket_def)
  have st: "storeOpenProcess new_ClientState 4 = (1, opened_table)"
    using generateHandle_step(1) [of new_ClientState]
    by (simp add: storeOpenProcess_def storeOpenProcess_at_def opened_table_def, simp add: new_ClientState_def umap_assign_def)
  have "connection_round (answering v u) E (exchange (CMD_OPENPROCESS # le_bytes 4 (4 :: pid) @ req) [] ?c)
      = Inr (True, exchange req (le_bytes 4 (1 :: handle)) (?c\<lparr>cl_state := opened_table\<rparr>))" for v u E
    using x st OpenProcess_exchange [of ?c 4 1 opened_table req "[]"] by (simp add: connection_round_command dispatchCommand_def)
  then have round: "connection_round (answering (0, []) 0) (plain_env Linux) ?c
      = Inr (True, exchange req (le_bytes 4 (1 :: handle)) (?c\<lparr>cl_state := opened_table\<rparr>))"
    by (subst thread_client_exchange [of ?x "CMD_OPENPROCESS # le_bytes 4 (4 :: pid) @ req"]) simp_all
  have "wh_conns ?s 0 = Some ?x" "wh_calls ?s 0 = None" "wh_table ?s = new_ClientState"
    by (simp_all add: new_whole_def)
  from whole_step.round [OF this(1,2), unfolded this(3), OF _ _ round]
  have "whole_step api hv ?s (?s\<lparr>wh_table := opened_table, wh_conns := [0 \<mapsto> opened_conn req]\<rparr>)"
    by (simp add: asks_read_def asks_write_def after_round_def opened_conn_def exchange_def new_whole_def plain_socket_def)
  moreover have "?s\<lparr>wh_table := opened_table, wh_conns := [0 \<mapsto> opened_conn req]\<rparr> = opened_whole D req"
    by (simp add: opened_whole_def new_whole_def)
  ultimately show ?thesis
    using acc by (metis whole_steps.intros)
qed

lemma inside_quiet:
  assumes "whole_steps api hv s0 s" "access_step api hv (wh_access s) A"
    and "rs_waiting (ac_data A) = rs_waiting (ac_data (wh_access s))" "ac_writer A = ac_writer (wh_access s)"
  shows "whole_steps api hv s0 (s\<lparr>wh_access := A\<rparr>)"
  using assms by (intro whole_steps.more [OF assms(1)] whole_step.inside) simp_all

lemma concurrent_reads_run:
  "\<exists>s s'. whole_steps flat_api 1 (new_whole flat_device) s \<and> whole_step flat_api 1 s s' \<and> wh_calls s 0 = Some (Called opened_table opened_table)
     \<and> wh_calls s' 0 = None \<and> wh_conns s 0 = Some (opened_conn (CMD_READPROCESSMEMORY # read_request 1 2 4 0)) \<and> wh_access s = flat_answered"
proof -
  let ?req = "CMD_READPROCESSMEMORY # read_request 1 2 4 0" and ?s = "\<lambda>A. (opened_whole flat_device (CMD_READPROCESSMEMORY # read_request 1 2 4 0))
      \<lparr>wh_calls := [0 \<mapsto> Called opened_table opened_table], wh_access := A\<rparr>"
  have quiet: "rs_waiting (ac_data A) = [0 \<mapsto> flat_reader] \<and> ac_writer A = (\<lambda>w. W_idle None)"
    if "A \<in> {flat_begun, flat_formed, flat_acquired, flat_answered}" for A
    using that by (auto simp: flat_states)
  have asks: "asks_read opened_table (opened_conn ?req) 1 2 4 []"
    by (simp add: asks_read_def)
  have "begin_read 0 4 2 4 (new_access_sys flat_device) = flat_begun"
    by (simp add: begin_read_def flat_states read_enqueue_def umap_assign_def flat_reader_def fun_upd_idem)
  then have "whole_step flat_api 1 ((opened_whole flat_device ?req)\<lparr>wh_calls := [0 \<mapsto> Checked opened_table]\<rparr>) (?s flat_begun)"
    using whole_step.call_read [of "(opened_whole flat_device ?req)\<lparr>wh_calls := [0 \<mapsto> Checked opened_table]\<rparr>" 0 "opened_conn ?req"
        opened_table 1 2 4 "[]" flat_api 1] asks
    by (simp add: opened_whole_def new_whole_def)
  moreover have "whole_step flat_api 1 (opened_whole flat_device ?req) ((opened_whole flat_device ?req)\<lparr>wh_calls := [0 \<mapsto> Checked opened_table]\<rparr>)"
    using whole_step.check [of "opened_whole flat_device ?req" 0 "opened_conn ?req" flat_api 1] asks
    by (auto simp: opened_whole_def new_whole_def)
  ultimately have "whole_steps flat_api 1 (new_whole flat_device) (?s flat_begun)"
    using opened_whole_reached by (blast intro: whole_steps.more)
  from inside_quiet [OF this, of flat_formed] have "whole_steps flat_api 1 (new_whole flat_device) (?s flat_formed)"
    using flat_round by (simp add: quiet)
  from inside_quiet [OF this, of flat_acquired] have "whole_steps flat_api 1 (new_whole flat_device) (?s flat_acquired)"
    using flat_acquire by (simp add: quiet)
  from inside_quiet [OF this, of flat_answered] have run: "whole_steps flat_api 1 (new_whole flat_device) (?s flat_answered)"
    using flat_read by (simp add: quiet)
  obtain d where fin: "read_finish (ac_data flat_answered) flat_reader = Inr ((4, [12, 13, 14, 15]), d)"
    by (simp add: flat_answered_def flat_reader_def read_finish_def get_def new_BacklogItem_def Let_def)
  have "wh_conns (?s flat_answered) 0 = Some (opened_conn ?req)" "wh_calls (?s flat_answered) 0 = Some (Called opened_table opened_table)"
      "rs_waiting (ac_data (wh_access (?s flat_answered))) 0 = Some flat_reader"
      "read_finish (ac_data (wh_access (?s flat_answered))) flat_reader = Inr ((4, [12, 13, 14, 15]), d)"
    using fin by (simp_all add: opened_whole_def quiet)
  from whole_step.return_read [OF this(1,2) asks this(3,4) read_round [OF asks]]
  obtain s' where "whole_step flat_api 1 (?s flat_answered) s'" "wh_calls s' 0 = None"
    by fastforce
  with run show ?thesis
    by (intro exI [of _ "?s flat_answered"] exI [of _ s']) (simp add: opened_whole_def)
qed

lemma inside_writer:
  assumes "whole_steps api hv s0 s" "writer_step api hv (wh_access s) A" "rs_waiting (ac_data A) = rs_waiting (ac_data (wh_access s))"
    and "ac_writer A = (ac_writer (wh_access s))(t := y)" "\<not> idle (ac_writer (wh_access s) t)"
  shows "whole_steps api hv s0 (s\<lparr>wh_access := A\<rparr>)"
  using assms(2-5)
  by (intro whole_steps.more [OF assms(1)] whole_step.inside access_step.writer) (auto simp: idle_def)

text \<open>A connection that is not in a call writes, and is acknowledged.\<close>

definition written :: "nat \<Rightarrow> u64 \<Rightarrow> 'd device \<Rightarrow> 'd access_sys \<Rightarrow> 'd access_sys" where
  "written i u D A = (device_to D A)\<lparr>ac_writer := (ac_writer A)(i := W_idle (Some u))\<rparr>"

definition in_call :: "nat \<Rightarrow> 'd whole \<Rightarrow> 'd whole" where
  "in_call i s = s\<lparr>wh_calls := (wh_calls s)(i \<mapsto> Called (wh_table s) (wh_table s))\<rparr>"

lemma write_run:
  assumes run: "whole_steps api hv s0 s" and conn: "wh_conns s i = Some x" "wh_calls s i = None"
    and asks: "asks_write (wh_table s) x h a bs rest" and free: "idle (ac_writer (wh_access s) i)" "ac_sem (wh_access s) = 1"
    and call: "VMMDLL_MemWrite api (rs_device (ac_data (wh_access s))) hv (getProcessID (wh_table s) h) a bs (ucast (word_of_nat (length bs) :: u64)) = (True, D)"
  defines "s1 \<equiv> (in_call i s)\<lparr>wh_from := (wh_from s)(i := length (ac_hist (wh_access s)) - 1),
    wh_access := written i (word_of_nat (length bs)) D (wh_access s)\<rparr>"
  defines "s2 \<equiv> s1\<lparr>wh_conns := (wh_conns s)(i \<mapsto> answered rest (le_bytes 4 (ucast (word_of_nat (length bs) :: u64) :: u32)) x), wh_calls := wh_calls s\<rparr>"
  shows "whole_steps api hv s0 s1" "whole_step api hv s1 s2"
proof -
  let ?A = "wh_access s" and ?wr = "write_of (wh_table s) h a bs" and ?u = "word_of_nat (length bs) :: u64"
  let ?s = "\<lambda>B. (in_call i s)\<lparr>wh_from := (wh_from s)(i := length (ac_hist ?A) - 1), wh_access := B\<rparr>"
  let ?A1 = "begin_write i ?wr ?A"
  let ?A2 = "?A1\<lparr>ac_sem := 0, ac_writer := (ac_writer ?A1)(i := W_write ?wr)\<rparr>"
  let ?A3 = "(device_to D ?A2)\<lparr>ac_writer := (ac_writer ?A2)(i := W_release ?u)\<rparr>"
  let ?A4 = "?A3\<lparr>ac_sem := 1, ac_writer := (ac_writer ?A3)(i := W_idle (Some ?u))\<rparr>"
  have "whole_steps api hv s0 (s\<lparr>wh_calls := (wh_calls s)(i \<mapsto> Checked (wh_table s))\<rparr>)" (is "whole_steps api hv s0 ?c")
    using asks by (intro whole_steps.more [OF run] whole_step.check [OF conn]) blast
  moreover have "whole_step api hv ?c (?s ?A1)"
    using whole_step.call_write [of ?c i x "wh_table s" h a bs rest api hv] conn asks by (cases s) (simp add: in_call_def)
  ultimately have "whole_steps api hv s0 (?s ?A1)"
    by (rule whole_steps.more)
  from inside_writer [OF this, of ?A2 i "W_write ?wr"] have "whole_steps api hv s0 (?s ?A2)"
    using writer_step.w_acquire [of ?A1 i ?wr api hv] free(2) by (simp add: idle_def in_call_def) (simp add: begin_write_def)
  from inside_writer [OF this, of ?A3 i "W_release ?u"] have "whole_steps api hv s0 (?s ?A3)"
    using writer_step.w_write [of ?A2 i ?wr api hv True D] call by (simp add: idle_def in_call_def write_of_def)
  from inside_writer [OF this, of ?A4 i "W_idle (Some ?u)"] have "whole_steps api hv s0 (?s ?A4)"
    using writer_step.w_release [of ?A3 i ?u api hv] by (simp add: idle_def in_call_def)
  moreover have "?A4 = written i ?u D ?A"
    using free(2) by (cases ?A) (simp add: written_def device_to_def begin_write_def)
  ultimately show "whole_steps api hv s0 s1"
    by (simp add: s1_def)
  have s1: "wh_conns s1 i = Some x" "wh_calls s1 i = Some (Called (wh_table s) (wh_table s))"
      "ac_writer (wh_access s1) i = W_idle (Some ?u)"
    using conn by (simp_all add: s1_def in_call_def written_def)
  have round: "after_round i keep c conns = conns(i \<mapsto> answered rest (le_bytes 4 (ucast ?u :: u32)) x)"
    if "connection_round (answering (0, []) ?u) E (thread_client (wh_table s) x) = Inr (keep, c)" for E keep c conns
    using write_round_end [OF asks that] by simp
  show "whole_step api hv s1 s2"
    using whole_step.return_write [OF s1(1,2) asks s1(3) write_round [OF asks], of api hv] round [OF write_round [OF asks]] conn
    by (simp add: s2_def) (simp add: s1_def in_call_def fun_upd_idem)
qed

lemma concurrent_writes_run:
  "\<exists>s s'. whole_steps flat_api 1 (new_whole flat_device) s \<and> whole_step flat_api 1 s s' \<and> wh_calls s 0 = Some (Called opened_table opened_table)
     \<and> wh_calls s' 0 = None \<and> wh_conns s 0 = Some (opened_conn (CMD_WRITEPROCESSMEMORY # write_request 1 2 [1, 9]))"
proof -
  let ?req = "CMD_WRITEPROCESSMEMORY # write_request 1 2 [1, 9]"
  let ?s = "opened_whole flat_device ?req"
  have s: "wh_conns ?s 0 = Some (opened_conn ?req)" "wh_calls ?s 0 = None" "wh_table ?s = opened_table"
      "wh_access ?s = new_access_sys flat_device"
    by (simp_all add: opened_whole_def new_whole_def)
  have asks: "asks_write (wh_table ?s) (opened_conn ?req) 1 2 [1, 9] []"
    by (simp add: asks_write_def s)
  have free: "idle (ac_writer (wh_access ?s) 0)" "ac_sem (wh_access ?s) = 1" "rs_device (ac_data (wh_access ?s)) = flat_device"
    by (simp_all add: s new_access_sys_def new_read_sys_def idle_def)
  obtain D where "VMMDLL_MemWrite flat_api (rs_device (ac_data (wh_access ?s))) 1 (getProcessID (wh_table ?s) 1) 2 [1, 9]
      (ucast (word_of_nat (length [1 :: byte, 9]) :: u64)) = (True, D)"
    by (simp add: VMMDLL_MemWrite_def flat_api_def)
  note run = write_run [OF opened_whole_reached s(1,2) asks free(1,2) this]
  show ?thesis
    by (rule exI, rule exI, intro conjI, rule run(1), rule run(2)) (simp_all add: in_call_def s)
qed

section \<open>A handle closed between the check and the lookup\<close>

definition write_conn :: "sock \<times> string" where
  "write_conn = opened_conn (CMD_WRITEPROCESSMEMORY # write_request 1 2 [1, 9])"

definition closing_conn :: "sock \<times> string" where
  "closing_conn = (plain_socket\<lparr>sk_in := CMD_CLOSEHANDLE # le_bytes 4 (1 :: handle)\<rparr>, '''')"

text \<open>Connection 0 has checked handle 1 for its write; connection 1 closes it.\<close>

definition closed_meanwhile :: "'d device \<Rightarrow> 'd whole" where
  "closed_meanwhile D = (new_whole D)\<lparr>wh_calls := [0 \<mapsto> Checked opened_table], wh_table := closeHandle opened_table 1,
     wh_conns := [0 \<mapsto> write_conn, 1 \<mapsto> answered [] (le_bytes 4 (1 :: u32)) closing_conn]\<rparr>"

lemma write_conn_asks: "asks_write opened_table write_conn 1 2 [1, 9] []"
  by (simp add: asks_write_def write_conn_def)

lemma close_round:
  "connection_round (answering (0, []) 0) (plain_env Linux) (thread_client opened_table closing_conn)
     = Inr (True, exchange [] (le_bytes 4 (1 :: u32)) (thread_client (closeHandle opened_table 1) closing_conn))"
proof -
  let ?c = "thread_client opened_table closing_conn"
  have x: "open_connection ?c"
    by (simp add: closing_conn_def connected_def plain_socket_def)
  have "connection_round (answering (0, []) 0) (plain_env Linux) (exchange (CMD_CLOSEHANDLE # le_bytes 4 (1 :: handle) @ []) [] ?c)
      = Inr (True, exchange [] (le_bytes 4 (1 :: u32)) (?c\<lparr>cl_state := closeHandle opened_table 1\<rparr>))"
    unfolding connection_round_command [OF x] dispatchCommand_def
    using CloseHandle_exchange [OF x, of 1 "[]" "[]"] by simp
  moreover have "?c = exchange (CMD_CLOSEHANDLE # le_bytes 4 (1 :: handle) @ []) [] ?c"
    by (rule thread_client_exchange) (simp add: closing_conn_def)
  ultimately show ?thesis
    by (simp add: thread_client_def)
qed

lemma closed_meanwhile_reached: "whole_steps api hv (new_whole D) (closed_meanwhile D)"
proof -
  let ?s0 = "opened_whole D (CMD_WRITEPROCESSMEMORY # write_request 1 2 [1, 9])"
  let ?s1 = "?s0\<lparr>wh_calls := [0 \<mapsto> Checked opened_table]\<rparr>"
  let ?s2 = "?s1\<lparr>wh_conns := [0 \<mapsto> write_conn, 1 \<mapsto> closing_conn]\<rparr>"
  have s: "wh_table ?s0 = opened_table" "wh_conns ?s0 = [0 \<mapsto> write_conn]" "wh_calls ?s0 = Map.empty"
    by (simp_all add: opened_whole_def new_whole_def write_conn_def)
  have "\<exists>h a bs rest. asks_write (wh_table ?s0) write_conn h a bs rest"
    unfolding s using write_conn_asks by blast
  then have "whole_step api hv ?s0 ?s1"
    using whole_step.check [of ?s0 0 write_conn, OF _ _ disjI2, of api hv] by (simp add: s)
  moreover have "whole_step api hv ?s1 ?s2"
    using whole_step.accepted [of ?s1 1 api hv "fst closing_conn"] by (simp add: s) (simp add: closing_conn_def)
  moreover have s2: "wh_conns ?s2 1 = Some closing_conn" "wh_calls ?s2 1 = None" "wh_table ?s2 = opened_table"
    by (simp_all add: s)
  have "whole_step api hv ?s2 (closed_meanwhile D)"
    using whole_step.round [OF s2(1,2), unfolded s2(3), OF _ _ close_round, of api hv]
    by (simp add: s closing_conn_def asks_read_def asks_write_def after_round_def exchange_def)
      (simp add: closed_meanwhile_def opened_whole_def answered_def closing_conn_def plain_socket_def)
  ultimately show ?thesis
    using opened_whole_reached by (blast intro: whole_steps.more)
qed

section \<open>Properties\<close>

text \<open>
  C3: from the wire to the device and back, in any interleaving. Connections are served side by side, their reads are joined
  and batched, writes and snapshots run in between. When the call that a connection's thread makes for
  a complete read request returns, the thread sends the count and the bytes that the device gave for
  the process that the handle stood for when it was looked up, the address and the size of the request, read after the
  call; the connection goes on behind its request, and no other connection and no handle is touched.
\<close>

theorem concurrent_read_answered:
  assumes "whole_steps api hv (new_whole D) s" "whole_step api hv s s'" "wh_calls s i = Some (Called st st')" "wh_calls s' i = None"
    and "wh_conns s i = Some x" "asks_read st x h a n rest"
  shows "\<exists>r full. fresh_answer api hv (ac_hist (wh_access s)) (ac_from (wh_access s) i) (getProcessID st' h) a (ucast n) (r, full)
    \<and> wh_conns s' = (wh_conns s)(i \<mapsto> answered rest (read_reply r (take (unat r) full)) x)
    \<and> wh_table s' = wh_table s"
  by (rule read_answered [OF assms])

theorem concurrent_read_answered_witness:
  "\<exists>s s' r full. whole_step flat_api 1 s s' \<and> fresh_answer flat_api 1 (ac_hist (wh_access s)) 0 4 2 4 (r, full)
     \<and> wh_conns s' 0 = Some (answered [] (read_reply r (take (unat r) full)) (opened_conn (CMD_READPROCESSMEMORY # read_request 1 2 4 0)))"
proof -
  obtain s s' where run: "whole_steps flat_api 1 (new_whole flat_device) s" "whole_step flat_api 1 s s'" "wh_calls s 0 = Some (Called opened_table opened_table)"
      "wh_calls s' 0 = None" "wh_conns s 0 = Some (opened_conn (CMD_READPROCESSMEMORY # read_request 1 2 4 0))" "wh_access s = flat_answered"
    using concurrent_reads_run by blast
  have "asks_read opened_table (opened_conn (CMD_READPROCESSMEMORY # read_request 1 2 4 0)) 1 2 4 []" "ac_from flat_answered 0 = 0"
    by (simp_all add: asks_read_def flat_answered_def)
  with concurrent_read_answered [OF run(1-5)] run(2,6) show ?thesis by fastforce
qed

text \<open>
  C4: a write that is acknowledged was done. When the call that a connection's thread makes for a complete write request
  returns, the device was asked once the thread had called, for the process the handle stood for, to
  write these bytes to this address; if it accepted, the size is answered and the connection goes on,
  otherwise the connection ends.
\<close>

theorem concurrent_write_answered:
  assumes "whole_steps api hv (new_whole D) s" "whole_step api hv s s'" "wh_calls s i = Some (Called st st')" "wh_calls s' i = None"
    and "wh_conns s i = Some x" "asks_write st x h a bs rest"
  shows "\<exists>u. done_write api hv (ac_hist (wh_access s)) (wh_from s i) (write_of st' h a bs) u
    \<and> wh_conns s' = (wh_conns s)(i :=
        if u = word_of_nat (length bs) then Some (answered rest (le_bytes 4 (ucast u :: u32)) x) else None)
    \<and> wh_table s' = wh_table s"
  by (rule write_answered [OF assms])

theorem concurrent_write_answered_witness:
  "\<exists>s s' u. whole_step flat_api 1 s s' \<and> done_write flat_api 1 (ac_hist (wh_access s)) (wh_from s 0) (write_of opened_table 1 2 [1, 9]) u
     \<and> wh_conns s' 0 = (if u = 2 then Some (answered [] (le_bytes 4 (ucast u :: u32)) (opened_conn (CMD_WRITEPROCESSMEMORY # write_request 1 2 [1, 9])))
         else None)"
proof -
  obtain s s' where run: "whole_steps flat_api 1 (new_whole flat_device) s" "whole_step flat_api 1 s s'" "wh_calls s 0 = Some (Called opened_table opened_table)"
      "wh_calls s' 0 = None" "wh_conns s 0 = Some (opened_conn (CMD_WRITEPROCESSMEMORY # write_request 1 2 [1, 9]))"
    using concurrent_writes_run by blast
  have "asks_write opened_table (opened_conn (CMD_WRITEPROCESSMEMORY # write_request 1 2 [1, 9])) 1 2 [1, 9] []"
    by (simp add: asks_write_def)
  from concurrent_write_answered [OF run this] obtain u where
      "done_write flat_api 1 (ac_hist (wh_access s)) (wh_from s 0) (write_of opened_table 1 2 [1, 9]) u"
      "wh_conns s' = (wh_conns s)(0 := if u = word_of_nat (length [1 :: byte, 9])
         then Some (answered [] (le_bytes 4 (ucast u :: u32)) (opened_conn (CMD_WRITEPROCESSMEMORY # write_request 1 2 [1, 9]))) else None)"
    by blast
  with run(2) show ?thesis
    by (intro exI [of _ s] exI [of _ s'] exI [of _ u]) simp
qed

text \<open>
  C27: a handle that is closed between its check and its lookup redirects a write. The handler tests the handle and asks
  for its process under two acquisitions of the table's mutex; when another connection closes the handle in
  between, the process is -1, and the device is asked to write the client's bytes there, which for the
  library is the physical memory of the target.
\<close>

theorem closed_handle_redirects_write:
  "\<exists>s st'. whole_steps api hv (new_whole D) s \<and> wh_conns s 0 = Some write_conn \<and> asks_write opened_table write_conn 1 2 [1, 9] []
     \<and> wh_calls s 0 = Some (Called opened_table st') \<and> getProcessID opened_table 1 = 4
     \<and> happens (ac_hist (wh_access s)) 0 (\<lambda>D D'. \<exists>ok. VMMDLL_MemWrite api D hv (- 1) 2 [1, 9] 2 = (ok, D'))"
proof -
  let ?c = "closed_meanwhile D" and ?wr = "write_of (closeHandle opened_table 1) 1 2 [1, 9]"
  let ?s = "\<lambda>A. ?c\<lparr>wh_calls := [0 \<mapsto> Called opened_table (closeHandle opened_table 1)], wh_from := (\<lambda>i. 0), wh_access := A\<rparr>"
  let ?A1 = "begin_write 0 ?wr (new_access_sys D)"
  let ?A2 = "?A1\<lparr>ac_sem := 0, ac_writer := (ac_writer ?A1)(0 := W_write ?wr)\<rparr>"
  obtain ok D' where call: "VMMDLL_MemWrite api D hv (- 1) 2 [1, 9] 2 = (ok, D')"
    by fastforce
  let ?A3 = "(device_to D' ?A2)\<lparr>ac_writer := (ac_writer ?A2)(0 := W_release (if ok then wr_size ?wr else - 1))\<rparr>"
  have pid: "getProcessID (closeHandle opened_table 1) 1 = - 1"
    by (simp add: opened_table_def client_state_defs umap_erase_def)
  have "whole_step api hv ?c (?s ?A1)"
    using whole_step.call_write [of ?c 0 write_conn opened_table 1 2 "[1, 9]" "[]" api hv] write_conn_asks
    by (simp add: closed_meanwhile_def new_whole_def new_access_sys_def fun_upd_idem)
  with closed_meanwhile_reached have "whole_steps api hv (new_whole D) (?s ?A1)"
    by (rule whole_steps.more)
  from inside_writer [OF this, of ?A2 0 "W_write ?wr"] have "whole_steps api hv (new_whole D) (?s ?A2)"
    using writer_step.w_acquire [of ?A1 0 ?wr api hv] by (simp add: idle_def new_access_sys_def begin_write_def)
  from inside_writer [OF this, of ?A3 0 "W_release (if ok then wr_size ?wr else - 1)"]
  have "whole_steps api hv (new_whole D) (?s ?A3)"
    using writer_step.w_write [of ?A2 0 ?wr api hv ok D'] call
    by (simp add: idle_def write_of_def pid new_access_sys_def new_read_sys_def)
  moreover have "happens (ac_hist ?A3) 0 (\<lambda>D D'. \<exists>ok. VMMDLL_MemWrite api D hv (- 1) 2 [1, 9] 2 = (ok, D'))"
    using call by (simp add: happens_def new_access_sys_def)
  ultimately show ?thesis
    using write_conn_asks
    by (intro exI [of _ "?s ?A3"] exI [of _ "closeHandle opened_table 1"]) (simp add: closed_meanwhile_def)
qed

end
