(* ===== verification/Coherence.thy ===== *)
theory Coherence
  imports Composition
begin

text \<open>
  What clients see of the target's memory through the whole program: once a write has been acknowledged on one
  connection, every read of the range that is asked for afterwards, on any connection, is answered with
  the bytes of that write. The library's part is a hypothesis on the range, \<open>coherent\<close>.
\<close>


section \<open>The history consists of calls to the device\<close>

inductive device_call :: "'d vmmdll \<Rightarrow> vmm_handle \<Rightarrow> 'd device \<Rightarrow> 'd device \<Rightarrow> bool"
  for api :: "'d vmmdll" and hv :: vmm_handle where
  "query_call api hv D D' \<Longrightarrow> device_call api hv D D'"
| "VMMDLL_MemReadEx api D hv p a n fl = (ok, bs, r, D') \<Longrightarrow> device_call api hv D D'"
| "VMMDLL_MemWrite api D hv p a buf n = (ok, D') \<Longrightarrow> device_call api hv D D'"
| "VMMDLL_Scatter_Initialize api D hv p fl = (sc, D') \<Longrightarrow> device_call api hv D D'"
| "VMMDLL_Scatter_Prepare api D sc a n = (ok, D') \<Longrightarrow> device_call api hv D D'"
| "VMMDLL_Scatter_Execute api D sc = (ok, D') \<Longrightarrow> device_call api hv D D'"
| "VMMDLL_Scatter_Read api D sc a n = (ok, bs, r, D') \<Longrightarrow> device_call api hv D D'"
| "D' = VMMDLL_Scatter_CloseHandle api D sc \<Longrightarrow> device_call api hv D D'"

definition device_run :: "'d vmmdll \<Rightarrow> vmm_handle \<Rightarrow> 'd device list \<Rightarrow> bool" where
  "device_run api hv H \<longleftrightarrow> (\<forall>k. Suc k < length H \<longrightarrow> happens H k (device_call api hv))"

lemma device_run_append:
  "device_run api hv H \<Longrightarrow> H \<noteq> [] \<Longrightarrow> device_call api hv (last H) D \<Longrightarrow> device_run api hv (H @ [D])"
  by (auto simp: device_run_def happens_append less_Suc_eq)

lemma task_step_call:
  assumes "task_step api hv A A'"
  shows "ac_hist A' = ac_hist A \<or> (\<exists>D. ac_hist A' = ac_hist A @ [D] \<and> device_call api hv (rs_device (ac_data A)) D)"
  using assms
proof cases
  case (seq_read p x todo v D)
  then show ?thesis
    by (auto simp: sequential_read_def split: prod.splits intro: device_call.intros(2))
next
  case (seq_free b D s')
  then show ?thesis
    by (auto intro: device_call.intros(1) query_call.intros(6))
qed (auto intro: device_call.intros(4-8))

lemma access_step_call:
  assumes "access_step api hv A A'"
  shows "ac_hist A' = ac_hist A \<or> (\<exists>D. ac_hist A' = ac_hist A @ [D] \<and> device_call api hv (rs_device (ac_data A)) D)"
  using assms
proof cases
  case task
  then show ?thesis by (rule task_step_call)
next
  case writer
  then show ?thesis by cases (auto intro: device_call.intros(3))
qed (auto intro: device_call.intros(1))

lemma access_step_run:
  assumes "access_step api hv A A'" "hist_ok A" "device_run api hv (ac_hist A)"
  shows "device_run api hv (ac_hist A')"
  using access_step_call [OF assms(1)] assms(2,3) device_run_append [of api hv "ac_hist A"] by (auto simp: hist_ok_def)

lemma access_steps_run:
  assumes "access_steps api hv (new_access_sys D) A"
  shows "device_run api hv (ac_hist A)"
  using assms
proof (induction "new_access_sys D" A rule: access_steps.induct)
  case none
  show ?case by (simp add: device_run_def new_access_sys_def)
next
  case (more A' A'')
  moreover have "hist_ok A'"
    using reachable_access(1) [OF more(1)] by (simp add: access_inv_def)
  ultimately show ?case by (blast intro: access_step_run)
qed


section \<open>The order of calls\<close>

lemma whole_step_hist:
  assumes "whole_step api hv s s'" "whole_inv api hv D s"
  shows "\<exists>tail. ac_hist (wh_access s') = ac_hist (wh_access s) @ tail"
proof -
  have "wh_access s' = wh_access s \<or> access_step api hv (wh_access s) (wh_access s')"
    by (rule whole_step_access [OF assms(1)]) (use assms(2) in \<open>simp add: whole_inv_def\<close>)
  then show ?thesis by (auto dest: access_step_call)
qed

lemma whole_steps_hist:
  "whole_steps api hv s s' \<Longrightarrow> whole_inv api hv D s \<Longrightarrow> \<exists>tail. ac_hist (wh_access s') = ac_hist (wh_access s) @ tail"
proof (induction rule: whole_steps.induct)
  case (more s s' s'')
  with whole_step_hist [OF more(2) whole_steps_keep [OF more(1)]] show ?case by force
qed simp

lemma whole_steps_trans: "whole_steps api hv s' s'' \<Longrightarrow> whole_steps api hv s s' \<Longrightarrow> whole_steps api hv s s''"
  by (induction rule: whole_steps.induct) (auto intro: whole_steps.more)

lemma inside_from:
  assumes "access_step api hv A A'" "rs_waiting (ac_data A') = rs_waiting (ac_data A)"
  shows "ac_from A' = ac_from A"
  using assms(1)
proof cases
  case (enqueue t p a n i d)
  then have "rs_waiting (ac_data A') t \<noteq> None" by simp
  with enqueue(2) assms(2) show ?thesis by simp
next
  case task
  then show ?thesis by cases simp_all
next
  case writer
  then show ?thesis by cases simp_all
qed simp_all

lemma begin_read_from:
  "ac_from (begin_read t p a n A) = (ac_from A)(t := length (ac_hist A) - 1)"
  by (simp add: begin_read_def split_def Let_def)

text \<open>A read that was not yet asked for in \<open>s\<close> is answered from what the device does after \<open>s\<close>.\<close>

lemma read_begins_later:
  assumes "whole_steps api hv s s'" "whole_inv api hv D s" "rs_waiting (ac_data (wh_access s)) j = None"
    and "rs_waiting (ac_data (wh_access s')) j \<noteq> None"
  shows "length (ac_hist (wh_access s)) - 1 \<le> ac_from (wh_access s') j"
  using assms
proof (induction rule: whole_steps.induct)
  case (more s s' s'')
  obtain tail where tail: "ac_hist (wh_access s') = ac_hist (wh_access s) @ tail"
    using whole_steps_hist [OF more(1,4)] by blast
  show ?case
  proof (cases "rs_waiting (ac_data (wh_access s')) j")
    case None
    from more(2) show ?thesis
    proof cases
      case (call_read i x st h a n rest)
      obtain k where "rs_waiting (ac_data (wh_access s'')) = (rs_waiting (ac_data (wh_access s')))(i \<mapsto>
          \<lparr>rd_pid = getProcessID (wh_table s') h, rd_address = a, rd_size = ucast n, rd_item = k\<rparr>)"
        using begin_read_waiting call_read(1) by fastforce
      with None more(6) have "i = j" by (auto split: if_splits)
      with call_read(1) tail show ?thesis by (auto simp: begin_read_from)
    qed (use None more(6) in \<open>auto split: if_splits\<close>)
  next
    case (Some rd)
    then have IH: "length (ac_hist (wh_access s)) - 1 \<le> ac_from (wh_access s') j"
      using more(3-5) by simp
    from more(2) show ?thesis
    proof cases
      case (call_read i x st h a n rest)
      with IH tail show ?thesis by (auto simp: begin_read_from)
    next
      case (inside A)
      with IH inside_from [OF inside(2,3)] show ?thesis by simp
    qed (use IH in \<open>simp_all add: end_read_def begin_write_def\<close>)
  qed
qed simp


section \<open>What the library promises for a range of memory\<close>

text \<open>
  \<open>content\<close> gives the bytes of the range, of \<open>n\<close> bytes from \<open>a\<close> in process \<open>p\<close>, in a state of the device. The range
  is mapped, so it is read whole; a scatter handle that was opened, prepared for it, executed and not
  disturbed reads its content from some moment since it was opened; a write that succeeds gives it the
  written bytes; and nothing but writes changes it: the target leaves it alone.
\<close>

definition reads_range :: "'d vmmdll \<Rightarrow> vmm_handle \<Rightarrow> pid \<Rightarrow> address \<Rightarrow> u32 \<Rightarrow> ('d \<Rightarrow> byte list) \<Rightarrow> bool" where
  "reads_range api hv p a n content \<longleftrightarrow>
     (\<forall>D ok bs r D'. VMMDLL_MemReadEx api D hv p a n (scatterFlags api) = (ok, bs, r, D') \<longrightarrow>
        r = n \<and> take (unat n) bs = content (dev D))"

definition scatters_range :: "'d vmmdll \<Rightarrow> vmm_handle \<Rightarrow> pid \<Rightarrow> address \<Rightarrow> u32 \<Rightarrow> ('d \<Rightarrow> byte list) \<Rightarrow> bool" where
  "scatters_range api hv p a n content \<longleftrightarrow>
     (\<forall>H i j k sc ok bs r D'. device_run api hv H \<and> scatter_opened api hv H i p sc \<and> scatter_prepared api H i j sc a (ucast n)
        \<and> scatter_executed api H j sc \<and> i < j \<and> j < k \<and> k < length H \<and> undisturbed H i k
        \<and> VMMDLL_Scatter_Read api (H ! k) sc a n = (ok, bs, r, D') \<longrightarrow>
        r = n \<and> (\<exists>m. i \<le> m \<and> m \<le> k \<and> take (unat n) bs = content (dev (H ! m))))"

definition writes_range :: "'d vmmdll \<Rightarrow> vmm_handle \<Rightarrow> pid \<Rightarrow> address \<Rightarrow> u32 \<Rightarrow> ('d \<Rightarrow> byte list) \<Rightarrow> bool" where
  "writes_range api hv p a n content \<longleftrightarrow>
     (\<forall>D buf D'. length buf = unat n \<and> VMMDLL_MemWrite api D hv p a buf n = (True, D') \<longrightarrow> content (dev D') = buf)"

definition keeps_range :: "'d vmmdll \<Rightarrow> vmm_handle \<Rightarrow> ('d \<Rightarrow> byte list) \<Rightarrow> bool" where
  "keeps_range api hv content \<longleftrightarrow>
     (\<forall>D D'. device_call api hv D D' \<and> \<not> is_write D D' \<longrightarrow> content (dev D') = content (dev D))"

definition coherent :: "'d vmmdll \<Rightarrow> vmm_handle \<Rightarrow> pid \<Rightarrow> address \<Rightarrow> u32 \<Rightarrow> ('d \<Rightarrow> byte list) \<Rightarrow> bool" where
  "coherent api hv p a n content \<longleftrightarrow>
     reads_range api hv p a n content \<and> scatters_range api hv p a n content
     \<and> writes_range api hv p a n content \<and> keeps_range api hv content"

text \<open>A write that takes the bytes \<open>bs\<close> from the range.\<close>

definition overwrites :: "('d \<Rightarrow> byte list) \<Rightarrow> byte list \<Rightarrow> 'd device \<Rightarrow> 'd device \<Rightarrow> bool" where
  "overwrites content bs D D' \<longleftrightarrow> is_write D D' \<and> content (dev D) = bs \<and> content (dev D') \<noteq> bs"

lemma content_stays:
  assumes "keeps_range api hv content" "device_run api hv H" "content (dev (H ! k)) = bs"
    and "\<And>l. k \<le> l \<Longrightarrow> \<not> happens H l (overwrites content bs)" "k \<le> m" "m < length H"
  shows "content (dev (H ! m)) = bs"
  using assms(5,6)
proof (induction m rule: dec_induct)
  case base
  show ?case by (rule assms(3))
next
  case (step m)
  then have "device_call api hv (H ! m) (H ! Suc m)" "content (dev (H ! m)) = bs"
    using assms(2) by (simp_all add: device_run_def happens_def)
  with assms(1) assms(4) [OF step(1)] step(4) show ?case
    by (cases "is_write (H ! m) (H ! Suc m)") (auto simp: keeps_range_def happens_def overwrites_def)
qed

lemma ucast_u32_back: "ucast (ucast (n :: u32) :: u64) = n"
  by (rule bit_word_eqI) (simp add: bit_simps)

lemma take_promise_buffer: "unat n \<le> length bs \<Longrightarrow> take (unat n) (promise_buffer n bs) = take (unat n) bs"
  by (simp add: promise_buffer_def overwrite_def)

text \<open>The answer to a request for the range, of which the content has been the same since it was asked for.\<close>

lemma fresh_content:
  assumes "coherent api hv p a n content" "fresh_answer api hv H t p a (ucast n) (r, full)" "device_run api hv H"
    and "\<And>m. t \<le> m \<Longrightarrow> m < length H \<Longrightarrow> content (dev (H ! m)) = bs" "length bs = unat n"
  shows "r = ucast n \<and> take (unat n) full = bs"
proof -
  have width: "unat (ucast n :: u64) = unat n" "ucast (ucast n :: u64) = n"
    by (simp_all add: ucast_u32_back)
  have full: "take (unat n) (promise_buffer (ucast n) xs) = bs" if "take (unat n) xs = bs" for xs
  proof -
    have "unat n \<le> length xs"
      using that assms(5) by (metis length_take min.cobounded1)
    then show ?thesis
      using that assms(5) take_promise_buffer [of "ucast n" xs] by (simp add: width)
  qed
  from assms(2) consider "fresh_direct api hv H t p a (ucast n) (r, full)" | "fresh_scatter api hv H t p a (ucast n) (r, full)"
    by (auto simp: fresh_answer_def)
  then show ?thesis
  proof cases
    case 1
    then obtain j ok xs r' where j: "t \<le> j" "Suc j < length H"
        "VMMDLL_MemReadEx api (H ! j) hv p a n (scatterFlags api) = (ok, xs, r', H ! Suc j)" "r = ucast r'" "full = promise_buffer (ucast n) xs"
      by (auto simp: fresh_direct_def happens_def width)
    then have "r' = n" "take (unat n) xs = content (dev (H ! j))"
      using assms(1) unfolding coherent_def reads_range_def by blast+
    with j assms(4) [of j] assms(5) full show ?thesis by simp
  next
    case 2
    then obtain i j k sc ok xs r' where k: "t \<le> i" "i < j" "j < k" "scatter_opened api hv H i p sc"
        "scatter_prepared api H i j sc a (ucast n)" "scatter_executed api H j sc" "undisturbed H i k" "Suc k < length H"
        "VMMDLL_Scatter_Read api (H ! k) sc a n = (ok, xs, r', H ! Suc k)" "r = ucast r'" "full = promise_buffer (ucast n) xs"
      by (auto simp: fresh_scatter_def happens_def width)
    then have "k < length H" by simp
    with k assms(1,3) have "r' = n \<and> (\<exists>m. i \<le> m \<and> m \<le> k \<and> take (unat n) xs = content (dev (H ! m)))"
      unfolding coherent_def scatters_range_def by blast
    then obtain m where m: "r' = n" "i \<le> m" "m \<le> k" "take (unat n) xs = content (dev (H ! m))" by blast
    then have "t \<le> m" "m < length H"
      using k(1,8) by simp_all
    with m assms(4) [of m] assms(5) full k(10,11) show ?thesis by simp
  qed
qed


section \<open>From an acknowledged write to later reads\<close>

text \<open>The calls for a write and a read return, on connection \<open>i\<close>; the write is acknowledged, so the connection goes on.\<close>

definition acknowledges_write ::
    "'d vmmdll \<Rightarrow> vmm_handle \<Rightarrow> 'd whole \<Rightarrow> nat \<Rightarrow> 'd whole \<Rightarrow> pid \<Rightarrow> address \<Rightarrow> byte list \<Rightarrow> bool" where
  "acknowledges_write api hv s i s' p a bs \<longleftrightarrow>
     whole_step api hv s s' \<and> wh_calls s' i = None \<and> wh_conns s' i \<noteq> None
     \<and> (\<exists>st st' x h rest. wh_calls s i = Some (Called st st') \<and> wh_conns s i = Some x \<and> asks_write st x h a bs rest
          \<and> getProcessID st' h = p)"

definition returns_read ::
    "'d vmmdll \<Rightarrow> vmm_handle \<Rightarrow> 'd whole \<Rightarrow> nat \<Rightarrow> 'd whole \<Rightarrow> sock \<times> string \<Rightarrow> pid \<Rightarrow> address \<Rightarrow> u32 \<Rightarrow> byte list \<Rightarrow> bool" where
  "returns_read api hv s j s' x p a n rest \<longleftrightarrow>
     whole_step api hv s s' \<and> wh_calls s' j = None \<and> wh_conns s j = Some x
     \<and> (\<exists>st st' h. wh_calls s j = Some (Called st st') \<and> asks_read st x h a n rest \<and> getProcessID st' h = p)"

lemma acknowledged_write_done:
  assumes "whole_steps api hv (new_whole D) s" "acknowledges_write api hv s i s' p a bs" "unat n = length bs"
    and "writes_range api hv p a n content"
  shows "\<exists>k \<ge> wh_from s i. Suc k < length (ac_hist (wh_access s)) \<and> content (dev (ac_hist (wh_access s) ! Suc k)) = bs"
proof -
  obtain st st' x h rest where w: "whole_step api hv s s'" "wh_calls s i = Some (Called st st')" "wh_calls s' i = None" "wh_conns s i = Some x"
      "asks_write st x h a bs rest" and p: "getProcessID st' h = p" and on: "wh_conns s' i \<noteq> None"
    using assms(2) by (auto simp: acknowledges_write_def)
  obtain u where u: "done_write api hv (ac_hist (wh_access s)) (wh_from s i) (write_of st' h a bs) u" "u = word_of_nat (length bs)"
    using write_answered [OF assms(1) w] on by (auto split: if_splits)
  have len: "length bs < 2 ^ 31"
    using w(5) by (simp add: asks_write_def)
  then have "unat (word_of_nat (length bs) :: u64) = length bs"
    by (simp add: unat_of_nat)
  moreover have "unat (- 1 :: u64) = 2 ^ 64 - 1"
    by (simp add: unsigned_minus_1_eq_mask mask_eq_exp_minus_1)
  ultimately have "(word_of_nat (length bs) :: u64) \<noteq> - 1"
    using len by force
  then obtain k ok D' where k: "wh_from s i \<le> k" "Suc k < length (ac_hist (wh_access s))" "ok"
      "VMMDLL_MemWrite api (ac_hist (wh_access s) ! k) hv p a bs (ucast (word_of_nat (length bs) :: u64)) = (ok, D')"
      "D' = ac_hist (wh_access s) ! Suc k"
    using u p by (auto simp: done_write_def happens_def write_of_def split: if_splits)
  moreover have "(ucast (word_of_nat (length bs) :: u64) :: u32) = n"
    using ucast_u32_back [of n] by (simp flip: assms(3))
  ultimately have "content (dev (ac_hist (wh_access s) ! Suc k)) = bs"
    using assms(3,4) unfolding writes_range_def by (metis (full_types))
  with k(1,2) show ?thesis by blast
qed


lemma acknowledged_read:
  assumes "coherent api hv p a n content" "unat n = length bs"
    and "whole_steps api hv (new_whole D) s1" "acknowledges_write api hv s1 i s1' p a bs"
    and "whole_steps api hv s1' s2" "wh_calls s2 j = None"
    and "whole_steps api hv s2 s3" "returns_read api hv s3 j s3' y p a n rest"
    and "\<And>k. wh_from s1 i \<le> k \<Longrightarrow> \<not> happens (ac_hist (wh_access s3)) k (overwrites content bs)"
  shows "wh_conns s3' = (wh_conns s3)(j \<mapsto> answered rest (le_bytes 4 n @ bs) y)"
proof -
  have run2: "whole_steps api hv (new_whole D) s2"
    using assms(3-5) by (auto simp: acknowledges_write_def intro: whole_steps.more whole_steps_trans)
  then have run3: "whole_steps api hv (new_whole D) s3"
    using assms(7) whole_steps_trans by blast
  note inv = whole_steps_inv [OF assms(3)] whole_steps_inv [OF run2] whole_steps_inv [OF run3]
  have "whole_steps api hv s1 s1'"
    using assms(4) by (auto simp: acknowledges_write_def intro: whole_steps.more whole_steps.none)
  then have "whole_steps api hv s1 s2"
    using assms(5) whole_steps_trans by blast
  then obtain tail2 where tail2: "ac_hist (wh_access s2) = ac_hist (wh_access s1) @ tail2"
    using whole_steps_hist inv(1) by blast
  obtain tail3 where tail3: "ac_hist (wh_access s3) = ac_hist (wh_access s2) @ tail3"
    using whole_steps_hist [OF assms(7) inv(2)] by blast
  have run: "device_run api hv (ac_hist (wh_access s3))"
    using inv(3) access_steps_run by (auto simp: whole_inv_def)
  have laws: "writes_range api hv p a n content" "keeps_range api hv content"
    using assms(1) by (simp_all add: coherent_def)
  obtain k where k: "wh_from s1 i \<le> k" "Suc k < length (ac_hist (wh_access s1))" "content (dev (ac_hist (wh_access s1) ! Suc k)) = bs"
    using acknowledged_write_done [OF assms(3,4,2) laws(1)] by blast
  have content: "content (dev (ac_hist (wh_access s3) ! m)) = bs" if "Suc k \<le> m" "m < length (ac_hist (wh_access s3))" for m
  proof (rule content_stays [OF laws(2) run _ _ that])
    show "content (dev (ac_hist (wh_access s3) ! Suc k)) = bs"
      using k(2,3) tail2 tail3 by (simp add: nth_append)
  qed (use assms(9) k(1) in simp)
  obtain st st' h where r: "whole_step api hv s3 s3'" "wh_calls s3 j = Some (Called st st')" "wh_calls s3' j = None" "wh_conns s3 j = Some y"
      "asks_read st y h a n rest" "getProcessID st' h = p"
    using assms(8) by (auto simp: returns_read_def)
  have "thread_ok api hv s2 j" "thread_ok api hv s3 j"
    using inv(2,3) by (simp_all add: whole_inv_def)
  then have "rs_waiting (ac_data (wh_access s2)) j = None" "rs_waiting (ac_data (wh_access s3)) j \<noteq> None"
    using assms(6) r(2,4) asks_exclusive [OF r(5)] by (auto simp: thread_defs)
  then have "length (ac_hist (wh_access s2)) - 1 \<le> ac_from (wh_access s3) j"
    by (rule read_begins_later [OF assms(7) inv(2)])
  then have later: "Suc k \<le> ac_from (wh_access s3) j"
    using k(2) tail2 by simp
  obtain v full where v: "fresh_answer api hv (ac_hist (wh_access s3)) (ac_from (wh_access s3) j) p a (ucast n) (v, full)"
      "wh_conns s3' = (wh_conns s3)(j \<mapsto> answered rest (read_reply v (take (unat v) full)) y)"
    using read_answered [OF run3 r(1-5)] r(6) by auto
  have "v = ucast n \<and> take (unat n) full = bs"
    by (rule fresh_content [OF assms(1) v(1) run]) (use content later assms(2) in auto)
  moreover have "n \<noteq> 0"
    using r(5) by (simp add: asks_read_def)
  ultimately have "read_reply v (take (unat v) full) = le_bytes 4 n @ bs"
    using ucast_u32_back [of n] by (auto simp: read_reply_def)
  with v(2) show ?thesis by simp
qed


section \<open>A concrete run\<close>

text \<open>A device that is nothing but memory, the same for every process, and always mapped.\<close>

definition memory_range :: "address \<Rightarrow> u32 \<Rightarrow> (address \<Rightarrow> byte) \<Rightarrow> byte list" where
  "memory_range a n d = map (\<lambda>k. d (a + word_of_nat k)) [0..<unat n]"

definition store :: "(address \<Rightarrow> byte) \<Rightarrow> address \<Rightarrow> byte list \<Rightarrow> address \<Rightarrow> byte" where
  "store d a buf = (\<lambda>x. if unat (x - a) < length buf then buf ! unat (x - a) else d x)"

definition memory_api :: "(address \<Rightarrow> byte) vmmdll" where
  "memory_api =
     \<lparr>api_Initialize = (\<lambda>d argv. (1, d)),
      api_Close = (\<lambda>d h. d),
      api_Map_GetPhysMem = (\<lambda>d h. (0, \<lparr>dwVersion = 2, pMap = []\<rparr>, d)),
      api_PidList = (\<lambda>d h has_buffer n. (1, [], 0, d)),
      api_Map_GetVadU = (\<lambda>d h pid identify. (0, [], d)),
      api_MemReadEx = (\<lambda>d h pid a n flags. (1, memory_range a n d, n, d)),
      api_MemWrite = (\<lambda>d h pid a buf n. (1, store d a buf)),
      api_ProcessGetInformationString = (\<lambda>d h pid opt. (None, d)),
      api_Map_GetThread = (\<lambda>d h pid. (0, [], d)),
      api_ProcessGetInformation = (\<lambda>d h pid. (0, VMMDLL_MEMORYMODEL_NA, d)),
      api_Scatter_Initialize = (\<lambda>d h pid flags. (1, d)),
      api_Scatter_Prepare = (\<lambda>d s a n. (1, d)),
      api_Scatter_Execute = (\<lambda>d s. (1, d)),
      api_Scatter_Read = (\<lambda>d s a n. (1, memory_range a n d, n, d)),
      api_Scatter_Clear = (\<lambda>d s pid flags. (1, d)),
      api_Scatter_CloseHandle = (\<lambda>d s. d),
      VMMDLL_FLAG_NOCACHE = 1, VMMDLL_FLAG_NOCACHEPUT = 0x100, VMMDLL_FLAG_ZEROPAD_ON_FAIL = 2,
      VMMDLL_MAP_PHYSMEM_VERSION = 2, VMMDLL_OPT_STRING_PATH_USER_IMAGE = 3\<rparr>"

definition memory_device :: "(address \<Rightarrow> byte) device" where
  "memory_device = \<lparr>dev = (\<lambda>x. 0), calls = []\<rparr>"

lemma length_memory_range [simp]: "length (memory_range a n d) = unat n"
  by (simp add: memory_range_def)

lemma range_store: "length buf = unat n \<Longrightarrow> memory_range a n (store d a buf) = buf"
proof (rule nth_equalityI)
  fix k
  assume len: "length buf = unat n" and "k < length (memory_range a n (store d a buf))"
  then have k: "k < unat n" by (simp add: memory_range_def)
  moreover have "unat n < 2 ^ LENGTH(32)"
    by (rule unsigned_less)
  ultimately have "k < 2 ^ 32" by simp
  then have "unat (word_of_nat k :: address) = k"
    by (simp add: unat_of_nat)
  with k len show "memory_range a n (store d a buf) ! k = buf ! k"
    by (simp add: memory_range_def store_def)
qed (simp add: memory_range_def)

lemma memory_query: "query_call memory_api hv D D' \<Longrightarrow> dev D' = dev D"
  by (erule query_call.cases) (auto simp: vmm_wrapper_defs memory_api_def)

lemma memory_keeps: "device_call memory_api hv D D' \<Longrightarrow> \<not> is_write D D' \<Longrightarrow> dev D' = dev D"
  by (erule device_call.cases) (auto simp: memory_query, auto simp: vmm_wrapper_defs memory_api_def is_write_def)

lemma memory_coherent: "coherent memory_api hv p a n (memory_range a n)"
proof -
  have "reads_range memory_api hv p a n (memory_range a n)"
    by (auto simp: reads_range_def VMMDLL_MemReadEx_def memory_api_def)
  moreover have "scatters_range memory_api hv p a n (memory_range a n)"
    by (auto simp: scatters_range_def VMMDLL_Scatter_Read_def memory_api_def intro: less_imp_le less_trans)
  moreover have "writes_range memory_api hv p a n (memory_range a n)"
    by (auto simp: writes_range_def VMMDLL_MemWrite_def memory_api_def range_store)
  moreover have "keeps_range memory_api hv (memory_range a n)"
    using memory_keeps by (fastforce simp: keeps_range_def)
  ultimately show ?thesis by (simp add: coherent_def)
qed

text \<open>A connection that is not in a call asks for two bytes, and nobody else is reading.\<close>

definition no_readers :: "'d access_sys \<Rightarrow> bool" where
  "no_readers A \<longleftrightarrow> ac_sem A = 1 \<and> ac_task A = No_task \<and> rs_phase (ac_data A) = Idle \<and> rs_backlog (ac_data A) = []
     \<and> rs_items (ac_data A) = [] \<and> rs_waiting (ac_data A) = Map.empty"

lemma read_run:
  assumes conn: "wh_conns s j = Some y" "wh_calls s j = None" and asks: "asks_read (wh_table s) y h a 2 rest"
    and quiet: "no_readers (wh_access s)"
    and call: "VMMDLL_MemReadEx api (rs_device (ac_data (wh_access s))) hv (getProcessID (wh_table s) h) a 2 (scatterFlags api) = (ok, bs, 2, D)"
  shows "\<exists>s3 s3'. whole_steps api hv s s3 \<and> returns_read api hv s3 j s3' y (getProcessID (wh_table s) h) a 2 rest
    \<and> ac_hist (wh_access s3) = ac_hist (wh_access s) @ [D]"
proof -
  let ?A = "wh_access s" and ?p = "getProcessID (wh_table s) h" and ?s = "\<lambda>B. (in_call j s)\<lparr>wh_access := B\<rparr>"
  let ?rd = "\<lparr>rd_pid = ?p, rd_address = a, rd_size = 2, rd_item = 0\<rparr>" and ?order = "[(backlog_key ?p a 2, 0 :: nat)]"
  let ?A1 = "begin_read j ?p a 2 ?A"
  let ?A2 = "?A1\<lparr>ac_data := dispatch_round (ac_data ?A1) ?order, ac_task := At_acquire\<rparr>"
  let ?A3 = "?A2\<lparr>ac_sem := ac_sem ?A2 - 1, ac_data := (ac_data ?A2)\<lparr>rs_phase := Dispatching ?p ?order\<rparr>,
      ac_task := (if length ?order \<le> SCATTER_READ_THRESHOLD then Seq_loop else Sc_init)\<rparr>"
  let ?A4 = "(set_promise ?p (backlog_key ?p a 2, 0) [] (2, promise_buffer 2 bs) (device_to D ?A3))
      \<lparr>ac_task := Seq_free (length (rs_buffers (ac_data ?A3)))\<rparr>"
  have q: "ac_sem ?A = 1" "ac_task ?A = No_task" "rs_phase (ac_data ?A) = Idle" "rs_backlog (ac_data ?A) = []"
      "rs_items (ac_data ?A) = []" "rs_waiting (ac_data ?A) = Map.empty"
    using quiet by (simp_all add: no_readers_def)
  have d1: "ac_data ?A1 = (ac_data ?A)\<lparr>rs_items := [new_BacklogItem ?p a 2], rs_backlog := ?order, rs_waiting := [j \<mapsto> ?rd]\<rparr>"
    using q by (simp add: begin_read_def read_enqueue_def umap_assign_def)
  have a1: "ac_task ?A1 = No_task" "ac_sem ?A1 = 1"
    using q by (simp_all add: begin_read_def split_def Let_def)
  have d2: "dispatch_round (ac_data ?A1) ?order = (ac_data ?A1)\<lparr>rs_backlog := [], rs_phase := Dispatching ?p ?order\<rparr>"
    by (simp add: d1 dispatch_round_def form_batch_def with_items_def MAX_BYTES_PER_DISPATCH_def MAX_DISPATCH_SIZE_def
        new_BacklogItem_def umap_erase_def Let_def)
  have "whole_steps api hv s (s\<lparr>wh_calls := (wh_calls s)(j \<mapsto> Checked (wh_table s))\<rparr>)" (is "whole_steps api hv s ?c")
    using asks by (intro whole_steps.more [OF whole_steps.none] whole_step.check [OF conn]) blast
  moreover have "whole_step api hv ?c (?s ?A1)"
    using whole_step.call_read [of ?c j y "wh_table s" h a 2 rest api hv] conn asks by (cases s) (simp add: in_call_def)
  ultimately have "whole_steps api hv s (?s ?A1)"
    by (rule whole_steps.more)
  from inside_quiet [OF this, of ?A2] have "whole_steps api hv s (?s ?A2)"
    using access_step.round [of ?A1 ?order api hv] d1 d2 a1 by (simp add: in_call_def)
  from inside_quiet [OF this, of ?A3] have "whole_steps api hv s (?s ?A3)"
    using access_step.task [OF task_step.acquire [of ?A2 ?p ?order ?order api hv]] d2 a1 by (simp add: in_call_def)
  moreover have "sequential_read api hv ?p (rs_device (ac_data ?A)) (new_BacklogItem ?p a 2) = ((2, promise_buffer 2 bs), D)"
    using call by (simp add: sequential_read_def new_BacklogItem_def)
  then have "access_step api hv ?A3 ?A4"
    using access_step.task [OF task_step.seq_read [of ?A3 ?p "(backlog_key ?p a 2, 0)" "[]" api hv "(2, promise_buffer 2 bs)" D]] d1 d2
    by (simp add: SCATTER_READ_THRESHOLD_def)
  ultimately have run: "whole_steps api hv s (?s ?A4)"
    using inside_quiet [of api hv s "?s ?A3" ?A4] d2 by (simp add: in_call_def)
  have "rs_waiting (ac_data ?A4) j = Some ?rd" "\<exists>v d. read_finish (ac_data ?A4) ?rd = Inr (v, d)"
    using d1 d2 by (simp_all add: read_finish_def get_def new_BacklogItem_def Let_def)
  then obtain r xs d where "rs_waiting (ac_data ?A4) j = Some ?rd" "read_finish (ac_data ?A4) ?rd = Inr ((r, xs), d)"
    by (metis surj_pair)
  with whole_step.return_read [of "?s ?A4" j y "wh_table s" "wh_table s" h a 2 rest ?rd "(r, xs)" d, OF _ _ asks _ _ read_round [OF asks]]
  obtain s3' where "whole_step api hv (?s ?A4) s3'" "wh_calls s3' j = None"
    using conn by (fastforce simp: in_call_def)
  with run conn asks show ?thesis
    by (intro exI [of _ "?s ?A4"] exI [of _ s3']) (auto simp: returns_read_def in_call_def begin_read_def split_def Let_def)
qed


text \<open>Connection 0 has opened process 4 under handle 1 and writes; connection 1 has been accepted and reads.\<close>

definition two_clients :: "(address \<Rightarrow> byte) whole" where
  "two_clients = (opened_whole memory_device (CMD_WRITEPROCESSMEMORY # write_request 1 2 [1, 9]))
     \<lparr>wh_conns := [0 \<mapsto> opened_conn (CMD_WRITEPROCESSMEMORY # write_request 1 2 [1, 9]),
        1 \<mapsto> (plain_socket\<lparr>sk_in := CMD_READPROCESSMEMORY # read_request 1 2 2 0\<rparr>, '''')]\<rparr>"

lemma two_clients_reached: "whole_steps memory_api 1 (new_whole memory_device) two_clients"
  using whole_steps.more [OF opened_whole_reached whole_step.accepted [of _ 1 memory_api 1
      "plain_socket\<lparr>sk_in := CMD_READPROCESSMEMORY # read_request 1 2 2 0\<rparr>"]]
  by (simp add: two_clients_def opened_whole_def new_whole_def)

lemma two_clients_run:
  "\<exists>s1 s1' s3 s3'. whole_steps memory_api 1 (new_whole memory_device) s1 \<and> acknowledges_write memory_api 1 s1 0 s1' 4 2 [1, 9]
     \<and> wh_calls s1' 1 = None \<and> whole_steps memory_api 1 s1' s3
     \<and> returns_read memory_api 1 s3 1 s3' (plain_socket\<lparr>sk_in := CMD_READPROCESSMEMORY # read_request 1 2 2 0\<rparr>, '''') 4 2 2 []
     \<and> (\<forall>k. \<not> happens (ac_hist (wh_access s3)) k (overwrites (memory_range 2 2) [1, 9]))"
proof -
  let ?s = two_clients and ?x = "opened_conn (CMD_WRITEPROCESSMEMORY # write_request 1 2 [1, 9])"
  let ?y = "(plain_socket\<lparr>sk_in := CMD_READPROCESSMEMORY # read_request 1 2 2 0\<rparr>, '''')"
  let ?D = "called memory_device (Call_MemWrite 1 4 2 [1, 9] 2) (store (dev memory_device) 2 [1, 9])"
  have table: "wh_table ?s = opened_table" "wh_access ?s = new_access_sys memory_device" "wh_calls ?s = Map.empty"
      "wh_conns ?s 0 = Some ?x" "wh_conns ?s 1 = Some ?y" "wh_from ?s = (\<lambda>i. 0)"
    by (simp_all add: two_clients_def opened_whole_def new_whole_def)
  have asks: "asks_write (wh_table ?s) ?x 1 2 [1, 9] []"
    by (simp add: asks_write_def table)
  have free: "idle (ac_writer (wh_access ?s) 0)" "ac_sem (wh_access ?s) = 1" "rs_device (ac_data (wh_access ?s)) = memory_device"
    by (simp_all add: table new_access_sys_def new_read_sys_def idle_def)
  have "VMMDLL_MemWrite memory_api (rs_device (ac_data (wh_access ?s))) 1 (getProcessID (wh_table ?s) 1) 2 [1, 9]
      (ucast (word_of_nat (length [1 :: byte, 9]) :: u64)) = (True, ?D)"
    unfolding free(3) by (simp add: table VMMDLL_MemWrite_def memory_api_def)
  note w = write_run [OF two_clients_reached table(4) _ asks free(1,2) this]
  define s1 where "s1 = (in_call 0 ?s)\<lparr>wh_from := (wh_from ?s)(0 := length (ac_hist (wh_access ?s)) - 1),
    wh_access := written 0 (word_of_nat (length [1 :: byte, 9])) ?D (wh_access ?s)\<rparr>"
  define s2 where "s2 = s1\<lparr>wh_conns := (wh_conns ?s)(0 \<mapsto>
    answered [] (le_bytes 4 (ucast (word_of_nat (length [1 :: byte, 9]) :: u64) :: u32)) ?x), wh_calls := wh_calls ?s\<rparr>"
  have run: "whole_steps memory_api 1 (new_whole memory_device) s1" and step: "whole_step memory_api 1 s1 s2"
    using w by (simp_all add: s1_def s2_def table)
  have "wh_calls s1 0 = Some (Called opened_table opened_table)" "wh_conns s1 0 = Some ?x" "wh_calls s2 0 = None" "wh_conns s2 0 \<noteq> None"
    by (simp_all add: s2_def s1_def table in_call_def)
  with step asks have ack: "acknowledges_write memory_api 1 s1 0 s2 4 2 [1, 9]"
    unfolding acknowledges_write_def table(1) by fastforce
  have conn: "wh_conns s2 1 = Some ?y"
    using table(5) by (simp add: s2_def)
  have s2: "wh_calls s2 1 = None" "wh_table s2 = opened_table" "no_readers (wh_access s2)"
      "rs_device (ac_data (wh_access s2)) = ?D" "ac_hist (wh_access s2) = [memory_device, ?D]"
    by (simp_all add: s2_def s1_def table in_call_def written_def no_readers_def new_access_sys_def new_read_sys_def)
  have "asks_read (wh_table s2) ?y 1 2 2 []"
    by (simp add: s2 asks_read_def connected_def plain_socket_def)
  moreover have "VMMDLL_MemReadEx memory_api ?D 1 4 2 2 (scatterFlags memory_api)
      = (True, memory_range 2 2 (dev ?D), 2, called ?D (Call_MemReadEx 1 4 2 2 (scatterFlags memory_api)) (dev ?D))"
    by (simp add: VMMDLL_MemReadEx_def memory_api_def)
  ultimately obtain s3 s3' where s3: "whole_steps memory_api 1 s2 s3" "returns_read memory_api 1 s3 1 s3' ?y 4 2 2 []"
      "ac_hist (wh_access s3) = [memory_device, ?D, called ?D (Call_MemReadEx 1 4 2 2 (scatterFlags memory_api)) (dev ?D)]"
    using read_run [OF conn s2(1) _ s2(3), of 1 2 "[]" memory_api 1] s2(2,4,5) by fastforce
  have "memory_range 2 2 (dev ?D) = [1, 9]"
    by (simp add: range_store)
  then have "\<not> happens (ac_hist (wh_access s3)) k (overwrites (memory_range 2 2) [1, 9])" for k
    by (auto simp: s3(3) happens_def overwrites_def less_Suc_eq nth_Cons split: nat.splits)
  with run ack s2(1) s3(1,2) show ?thesis
    by (intro exI [of _ s1] exI [of _ s2] exI [of _ s3] exI [of _ s3']) simp
qed

section \<open>Properties\<close>

text \<open>
  C1: an acknowledged write is what later reads return. Once the server has acknowledged a write on one connection,
  every read of the same range of the process that is asked for afterwards, on this or any other connection,
  is answered with the number of bytes and the bytes of that write, whatever batches, snapshots and
  other writes run in between, as long as no write overwrites them and the range behaves as memory.
\<close>

theorem acknowledged_write_is_read:
  assumes "coherent api hv p a n content" "unat n = length bs"
    and "whole_steps api hv (new_whole D) s1" "acknowledges_write api hv s1 i s1' p a bs"
    and "whole_steps api hv s1' s2" "wh_calls s2 j = None"
    and "whole_steps api hv s2 s3" "returns_read api hv s3 j s3' y p a n rest"
    and "\<And>k. wh_from s1 i \<le> k \<Longrightarrow> \<not> happens (ac_hist (wh_access s3)) k (overwrites content bs)"
  shows "wh_conns s3' = (wh_conns s3)(j \<mapsto> answered rest (le_bytes 4 n @ bs) y)"
  by (rule acknowledged_read [OF assms])

theorem acknowledged_write_is_read_witness:
  "\<exists>s1 s1' s3 s3' y. acknowledges_write memory_api 1 s1 0 s1' 4 2 [1, 9] \<and> whole_steps memory_api 1 s1' s3
     \<and> returns_read memory_api 1 s3 1 s3' y 4 2 2 [] \<and> wh_conns s3' 1 = Some (answered [] [2, 0, 0, 0, 1, 9] y)"
proof -
  let ?y = "(plain_socket\<lparr>sk_in := CMD_READPROCESSMEMORY # read_request 1 2 2 0\<rparr>, '''')"
  obtain s1 s1' s3 s3' where run: "whole_steps memory_api 1 (new_whole memory_device) s1" "acknowledges_write memory_api 1 s1 0 s1' 4 2 [1, 9]"
      "wh_calls s1' 1 = None" "whole_steps memory_api 1 s1' s3" "returns_read memory_api 1 s3 1 s3' ?y 4 2 2 []"
      "\<And>k. \<not> happens (ac_hist (wh_access s3)) k (overwrites (memory_range 2 2) [1, 9])"
    by (insert two_clients_run, elim exE conjE) (rule that, assumption+, blast)
  have "wh_conns s3' = (wh_conns s3)(1 \<mapsto> answered [] (le_bytes 4 (2 :: u32) @ [1, 9]) ?y)"
    by (rule acknowledged_write_is_read [OF memory_coherent _ run(1,2) whole_steps.none run(3,4,5)]) (simp_all add: run(6))
  moreover have "le_bytes 4 (2 :: u32) = [2, 0, 0, 0]"
    by code_simp
  ultimately show ?thesis
    using run(2,4,5) by (intro exI [of _ s1] exI [of _ s1'] exI [of _ s3] exI [of _ s3'] exI [of _ ?y]) simp
qed

end
