(* ===== verification/Progress.thy ===== *)
theory Progress
  imports Composition
begin

text \<open>
  Calls come to their end. The adapter's own steps, which are those of the dispatch thread, of its task and of writers
  that have called, make the work that is left smaller each time, so they come to rest; and at rest
  every thread that is inside \<open>memory->read\<close> or \<open>memory->write\<close> can go on. Nobody waits for ever for the
  semaphore, a batch or a promise, as long as every request fits a batch.
\<close>


section \<open>The adapter's own steps\<close>

inductive inner_step :: "'d vmmdll \<Rightarrow> vmm_handle \<Rightarrow> 'd access_sys \<Rightarrow> 'd access_sys \<Rightarrow> bool"
  for api :: "'d vmmdll" and h :: vmm_handle where
  round: "ac_task s = No_task \<Longrightarrow> rs_backlog (ac_data s) \<noteq> [] \<Longrightarrow> mset order = mset (rs_backlog (ac_data s)) \<Longrightarrow>
    inner_step api h s (s\<lparr>ac_data := dispatch_round (ac_data s) order, ac_task := At_acquire\<rparr>)"
| task: "task_step api h s s' \<Longrightarrow> inner_step api h s s'"
| writer: "writer_step api h s s' \<Longrightarrow> (\<forall>w u. ac_writer s w = W_idle u \<longrightarrow> ac_writer s' w = W_idle u) \<Longrightarrow> inner_step api h s s'"

lemma inner_step_access: "inner_step api h s s' \<Longrightarrow> access_step api h s s'"
  by (erule inner_step.cases) (auto intro: access_step.intros)

lemma inner_step_frame:
  assumes "inner_step api h s s'"
  shows "rs_waiting (ac_data s') = rs_waiting (ac_data s)" "ac_writer s w = W_idle u \<Longrightarrow> ac_writer s' w = W_idle u"
proof -
  have "rs_waiting (ac_data s') = rs_waiting (ac_data s) \<and> (ac_writer s w = W_idle u \<longrightarrow> ac_writer s' w = W_idle u)"
    using assms
  proof cases
    case (round order)
    then show ?thesis by (simp add: dispatch_round_def split: prod.splits)
  next
    case task
    then show ?thesis by cases simp_all
  next
    case writer
    moreover from writer(1) have "rs_waiting (ac_data s') = rs_waiting (ac_data s)"
      by cases simp_all
    ultimately show ?thesis by blast
  qed
  then show "rs_waiting (ac_data s') = rs_waiting (ac_data s)" "ac_writer s w = W_idle u \<Longrightarrow> ac_writer s' w = W_idle u"
    by simp_all
qed


section \<open>The work that is left\<close>

fun writer_rank :: "writer \<Rightarrow> nat" where
  "writer_rank (W_idle u) = 0"
| "writer_rank (W_acquire wr) = 3"
| "writer_rank (W_write wr) = 2"
| "writer_rank (W_release u) = 1"

definition writers_left :: "(nat \<Rightarrow> writer) \<Rightarrow> nat" where
  "writers_left W = (\<Sum>w | writer_rank (W w) \<noteq> 0. writer_rank (W w))"

definition work_left :: "'d access_sys \<Rightarrow> nat" where
  "work_left s = 10 * length (rs_backlog (ac_data s)) + task_distance s + writers_left (ac_writer s)"

text \<open>Every request of the backlog fits a batch.\<close>

definition all_fit :: "'d access_sys \<Rightarrow> bool" where
  "all_fit s \<longleftrightarrow> (\<forall>x \<in> set (rs_backlog (ac_data s)). unat (bi_size (rs_items (ac_data s) ! snd x)) < 1000000000)"

definition few_writers :: "'d access_sys \<Rightarrow> bool" where
  "few_writers s \<longleftrightarrow> finite {w. writer_rank (ac_writer s w) \<noteq> 0}"

lemma few_writers_upd:
  "finite {w. writer_rank (W w) \<noteq> 0} \<Longrightarrow> finite {w. writer_rank ((W(v := x)) w) \<noteq> 0}"
  by (rule finite_subset [of _ "insert v {w. writer_rank (W w) \<noteq> 0}"]) auto

lemma access_step_writers:
  assumes "access_step api h s s'" "few_writers s"
  shows "few_writers s'"
  using assms(1)
proof cases
  case task
  with assms(2) show ?thesis by (simp add: few_writers_def task_step_frame(1))
next
  case writer
  then obtain w x where "ac_writer s' = (ac_writer s)(w := x)"
    by cases auto
  with few_writers_upd assms(2) show ?thesis
    unfolding few_writers_def by metis
qed (use assms(2) in \<open>simp_all add: few_writers_def\<close>)

lemma access_steps_writers: "access_steps api h (new_access_sys D) s \<Longrightarrow> few_writers s"
proof (induction "new_access_sys D" s rule: access_steps.induct)
  case none
  show ?case by (simp add: few_writers_def new_access_sys_def)
next
  case (more s' s'')
  then show ?case by (blast intro: access_step_writers)
qed

lemma writers_left_upd:
  assumes "finite {w. writer_rank (W w) \<noteq> 0}" "writer_rank x < writer_rank (W v)"
  shows "writers_left (W(v := x)) < writers_left W"
proof -
  let ?A = "{w. writer_rank (W w) \<noteq> 0}" and ?W = "W(v := x)"
  have "writers_left ?W \<le> (\<Sum>w \<in> ?A. writer_rank (?W w))"
    unfolding writers_left_def using assms by (intro sum_mono2) auto
  also have "\<dots> < (\<Sum>w \<in> ?A. writer_rank (W w))"
    using assms by (intro sum_strict_mono_ex1) auto
  finally show ?thesis by (simp add: writers_left_def)
qed

lemma writer_step_work:
  assumes "writer_step api h s s'" "few_writers s" "\<forall>w u. ac_writer s w = W_idle u \<longrightarrow> ac_writer s' w = W_idle u"
  shows "work_left s' < work_left s"
proof -
  have same: "rs_backlog (ac_data s') = rs_backlog (ac_data s)" "rs_phase (ac_data s') = rs_phase (ac_data s)" "ac_task s' = ac_task s"
    using assms(1) by (cases; simp)+
  have "writers_left (ac_writer s') < writers_left (ac_writer s)"
    using assms(1)
  proof cases
    case (w_call w u wr)
    then show ?thesis using assms(3) by force
  qed (use assms(2) in \<open>auto simp: few_writers_def intro!: writers_left_upd\<close>)
  then show ?thesis
    by (simp add: work_left_def task_distance_def same)
qed

text \<open>The device calls of snapshots, which may come at any time, do not undo it.\<close>

lemma query_work: "work_left (device_to D s) = work_left s" "all_fit (device_to D s) = all_fit s"
  by (simp_all add: work_left_def task_distance_def all_fit_def cong: phase.case_cong)

text \<open>A batch takes its requests from the backlog.\<close>

lemma round_work:
  assumes inv: "read_inv d" and idle: "rs_phase d = Idle" and order: "mset order = mset (rs_backlog d)" and some: "rs_backlog d \<noteq> []"
    and fits: "\<forall>x \<in> set (rs_backlog d). unat (bi_size (rs_items d ! snd x)) < 1000000000"
    and batch: "rs_phase (dispatch_round d order) = Dispatching p batch"
  shows "10 * length (rs_backlog (dispatch_round d order)) + (2 * length batch + 5) < 10 * length (rs_backlog d)"
proof -
  let ?rest = "rs_backlog (dispatch_round d order)"
  have less: "length ?rest < length (rs_backlog d)" and sub: "set ?rest \<subseteq> set (rs_backlog d)"
    by (rule round_shrinks [OF inv order some fits])+
  have "form_batch (rs_items d) order = (p, batch)"
    using batch by (simp add: dispatch_round_def split: prod.splits)
  then have "set batch \<subseteq> set order"
    by (intro set_mono_subseq form_batch_subseq(1))
  then have "set batch \<subseteq> set (rs_backlog d)"
    unfolding mset_eq_setD [OF order] .
  moreover have "distinct (?rest @ batch)"
    using read_invD(2) [OF read_inv_round [OF inv idle order]] batch by (auto simp: pending_def distinct_map)
  ultimately have "length (?rest @ batch) \<le> card (set (rs_backlog d))"
    using sub by (subst distinct_card [symmetric]) (auto intro!: card_mono)
  then have "length ?rest + length batch \<le> length (rs_backlog d)"
    using card_length [of "rs_backlog d"] by simp
  with less show ?thesis by linarith
qed

lemma inner_step_work:
  assumes "inner_step api h s s'" "access_inv api h s" "few_writers s" "all_fit s"
  shows "work_left s' < work_left s \<and> all_fit s'"
  using assms(1)
proof cases
  case (round order)
  have inv: "read_inv (ac_data s)" "task_ok api h s"
    using assms(2) by (simp_all add: access_inv_def)
  then have idle: "rs_phase (ac_data s) = Idle"
    using round(2) by (simp add: task_ok_def split: phase.splits)
  obtain p batch where ph: "rs_phase (dispatch_round (ac_data s) order) = Dispatching p batch"
    by (cases "form_batch (rs_items (ac_data s)) order") (simp add: dispatch_round_def)
  note * = round_work [OF inv(1) idle round(4,3) _ ph] round_shrinks(2) [OF inv(1) round(4,3)]
  have "rs_items (dispatch_round (ac_data s) order) = rs_items (ac_data s)"
    by (simp add: dispatch_round_def split: prod.splits)
  then show ?thesis
    using * assms(4) round ph idle by (auto simp: work_left_def task_distance_def all_fit_def)
next
  case task
  have "rs_backlog (ac_data s') = rs_backlog (ac_data s)"
      "\<And>j. bi_size (rs_items (ac_data s') ! j) = bi_size (rs_items (ac_data s) ! j)"
    using task by (cases; simp add: set_promise_request)+
  then show ?thesis
    using task_step_distance [OF task] task_step_frame(1) [OF task] assms(4) by (simp add: work_left_def all_fit_def)
next
  case writer
  have "ac_data s' = ac_data s \<or> (\<exists>D. ac_data s' = (ac_data s)\<lparr>rs_device := D\<rparr>)"
    using writer(1) by cases auto
  then have "all_fit s'"
    using assms(4) by (elim disjE exE) (simp_all add: all_fit_def)
  with writer_step_work [OF writer(1) assms(3) writer(2)] show ?thesis by blast
qed

section \<open>At rest\<close>

definition at_rest :: "'d vmmdll \<Rightarrow> vmm_handle \<Rightarrow> 'd access_sys \<Rightarrow> bool" where
  "at_rest api h s \<longleftrightarrow> (\<forall>s'. \<not> inner_step api h s s')"

lemma rest_writers:
  assumes "at_rest api h s"
  shows "\<not> writer_holds (ac_writer s w)" "0 < ac_sem s \<Longrightarrow> idle (ac_writer s w)"
proof -
  have no: "\<not> writer_step api h s s'" if "\<forall>v u. ac_writer s v = W_idle u \<longrightarrow> ac_writer s' v = W_idle u" for s'
    using assms that inner_step.writer unfolding at_rest_def by blast
  show "\<not> writer_holds (ac_writer s w)"
  proof
    assume "writer_holds (ac_writer s w)"
    then consider wr where "ac_writer s w = W_write wr" | u where "ac_writer s w = W_release u"
      by (auto simp: writer_holds_def split: writer.splits)
    then show False
    proof cases
      case (1 wr)
      obtain ok D where "VMMDLL_MemWrite api (rs_device (ac_data s)) h (wr_pid wr) (wr_address wr) (wr_buffer wr) (ucast (wr_size wr)) = (ok, D)"
        by fastforce
      from writer_step.w_write [OF 1 this] no 1 show False by fastforce
    next
      case (2 u)
      from writer_step.w_release [OF 2, of api h] no 2 show False by fastforce
    qed
  qed
  show "idle (ac_writer s w)" if "0 < ac_sem s"
  proof (cases "ac_writer s w")
    case (W_acquire wr)
    from writer_step.w_acquire [OF W_acquire that, of api h] no W_acquire show ?thesis by fastforce
  qed (use \<open>\<not> writer_holds (ac_writer s w)\<close> in \<open>simp_all add: idle_def\<close>)
qed

lemma rest_state:
  assumes "at_rest api h s" "access_inv api h s" "sem_ok s"
  shows "ac_task s = No_task" "pending (ac_data s) = []" "idle (ac_writer s w)"
proof -
  have task: "task_ok api h s"
    using assms(2) by (simp add: access_inv_def)
  have "writers_inside (ac_writer s) = {}"
    using rest_writers(1) [OF assms(1)] by (simp add: writers_inside_def)
  then have free: "0 < ac_sem s" if "\<not> task_holds (ac_task s)"
    using assms(3) that by (auto simp: sem_ok_def holders_def)
  show none: "ac_task s = No_task"
  proof (rule ccontr)
    assume "ac_task s \<noteq> No_task"
    then obtain s' where "task_step api h s s'"
      using task_step_enabled [OF task] free by (metis holds_simps(2))
    then show False
      using assms(1) inner_step.task unfolding at_rest_def by blast
  qed
  then have "rs_phase (ac_data s) = Idle"
    using task by (simp add: task_ok_def split: phase.splits)
  moreover have "rs_backlog (ac_data s) = []"
    using inner_step.round [OF none _ refl] assms(1) unfolding at_rest_def by blast
  ultimately show "pending (ac_data s) = []"
    by (simp add: pending_def)
  show "idle (ac_writer s w)"
    using rest_writers(2) [OF assms(1)] free none by simp
qed

text \<open>At rest the promise of every request that somebody waits for has been set.\<close>

lemma rest_answered:
  assumes "pending d = []" "reader_ok d rd"
  shows "read_finish d rd \<noteq> Inl Never_returns"
  using assms by (auto simp: reader_ok_def read_finish_def get_def Let_def split: option.splits if_splits)

lemma inner_step_whole:
  assumes "inner_step api hv (wh_access s) A"
  shows "whole_step api hv s (s\<lparr>wh_access := A\<rparr>)"
  using inner_step_access [OF assms] inner_step_frame [OF assms] by (rule whole_step.inside)

text \<open>A thread inside a call, when the adapter is at rest.\<close>

lemma rest_returns:
  assumes inv: "whole_inv api hv D s" and rest: "at_rest api hv (wh_access s)" and call: "wh_calls s i = Some (Called st st')"
  shows "(\<exists>s'. whole_step api hv s s' \<and> wh_calls s' i = None)
    \<or> (\<exists>rd e. rs_waiting (ac_data (wh_access s)) i = Some rd \<and> read_finish (ac_data (wh_access s)) rd = Inl e \<and> e \<noteq> Never_returns)"
proof -
  have run: "access_steps api hv (new_access_sys D) (wh_access s)" and "thread_ok api hv s i"
    using inv by (simp_all add: whole_inv_def)
  then obtain x where x: "wh_conns s i = Some x" "in_read s i st st' x \<or> in_write api hv s i st st' x"
    by (auto simp: thread_ok_def call)
  note state = rest_state [OF rest reachable_access [OF run]]
  from x(2) show ?thesis
  proof
    assume "in_read s i st st' x"
    then obtain rd h a n rest where rd: "rs_waiting (ac_data (wh_access s)) i = Some rd" "asks_read st x h a n rest"
      by (auto simp: in_read_def reading_def)
    have "reader_ok (ac_data (wh_access s)) rd"
      using reachable_access(1) [OF run] read_invD(4) rd(1) by (auto simp: access_inv_def)
    with rest_answered [OF state(2)] have no: "read_finish (ac_data (wh_access s)) rd \<noteq> Inl Never_returns"
      by blast
    show ?thesis
    proof (cases "read_finish (ac_data (wh_access s)) rd")
      case (Inr y)
      then obtain r bs d where "read_finish (ac_data (wh_access s)) rd = Inr ((r, bs), d)"
        by (cases y) auto
      from whole_step.return_read [OF x(1) call rd(2,1) this read_round [OF rd(2)]] show ?thesis
        by fastforce
    qed (use no rd(1) in auto)
  next
    assume "in_write api hv s i st st' x"
    then obtain h a bs rest where w: "asks_write st x h a bs rest"
        "writer_ok api hv (wh_access s) i (wh_from s i) (write_of st' h a bs)"
      by (auto simp: in_write_def)
    obtain u where "ac_writer (wh_access s) i = W_idle (Some u)"
      using state(3) [of i] w(2) by (auto simp: idle_def writer_ok_def split: option.splits)
    from whole_step.return_write [OF x(1) call w(1) this write_round [OF w(1)]] show ?thesis
      by fastforce
  qed
qed

section \<open>Properties\<close>

text \<open>
  C5: every call comes to its end. In any reachable state in which all requests of the backlog fit a batch, each step of
  the dispatch thread, its task and the writers makes the remaining work smaller and keeps this so, whatever
  order the hash map gives and whatever the device answers, and the device calls of snapshots do not add to it; and
  when no such step is left, every connection that is inside a read or a write can return, unless its
  read comes to a fault.
\<close>

theorem calls_come_to_an_end:
  assumes "whole_steps api hv (new_whole D) s" "all_fit (wh_access s)"
  shows "(\<forall>A. inner_step api hv (wh_access s) A \<longrightarrow>
        whole_step api hv s (s\<lparr>wh_access := A\<rparr>) \<and> work_left A < work_left (wh_access s) \<and> all_fit A)
    \<and> (\<forall>D'. work_left (device_to D' (wh_access s)) = work_left (wh_access s))
    \<and> (at_rest api hv (wh_access s) \<longrightarrow> (\<forall>i st st'. wh_calls s i = Some (Called st st') \<longrightarrow>
        (\<exists>s'. whole_step api hv s s' \<and> wh_calls s' i = None)
        \<or> (\<exists>rd e. rs_waiting (ac_data (wh_access s)) i = Some rd \<and> read_finish (ac_data (wh_access s)) rd = Inl e \<and> e \<noteq> Never_returns)))"
proof -
  have inv: "whole_inv api hv D s"
    by (rule whole_steps_inv [OF assms(1)])
  then have run: "access_steps api hv (new_access_sys D) (wh_access s)"
    by (simp add: whole_inv_def)
  show ?thesis
    using inner_step_work [OF _ reachable_access(1) [OF run] access_steps_writers [OF run] assms(2)] inner_step_whole
      rest_returns [OF inv] query_work(1) by blast
qed

theorem calls_come_to_an_end_witness:
  "\<exists>A. inner_step flat_api 1 flat_answered A \<and> work_left A < work_left flat_answered"
proof -
  obtain s where s: "whole_steps flat_api 1 (new_whole flat_device) s" "wh_access s = flat_answered"
    using concurrent_reads_run by blast
  have "all_fit flat_answered" "ac_task flat_answered = Seq_free 0"
    by (simp_all add: all_fit_def flat_answered_def)
  then obtain A where "inner_step flat_api 1 flat_answered A"
    using task_step.seq_free [of flat_answered 0 _ _ flat_api 1] inner_step.task by blast
  with calls_come_to_an_end [OF s(1)] s(2) \<open>all_fit flat_answered\<close> show ?thesis by auto
qed

end
