(* ===== verification/Objects.thy ===== *)
theory Objects
  imports ClientState
begin

text \<open>
  What the handle table promises its users: one map from handles to objects. \<open>ClientState\<close> keeps it in five unordered
  maps. Here the operations are specified on the one map, and each operation of \<open>ClientState\<close> is shown to
  implement its specification (a data refinement).
\<close>


section \<open>The abstract table\<close>

datatype object = Opened pid | Processes "ProcessInfo list" nat | Modules "MemoryRegion list" nat

type_synonym objects = "handle \<rightharpoonup> object"

text \<open>The entry at an index and the next index, which stays at the end.\<close>

definition take_entry :: "'a list \<Rightarrow> nat \<Rightarrow> 'a option \<times> nat" where
  "take_entry xs i = (if i < length xs then (Some (xs ! i), Suc i) else (None, i))"

definition next_process :: "bool \<Rightarrow> objects \<Rightarrow> handle \<Rightarrow> ProcessInfo option \<times> objects" where
  "next_process rewind obs h =
     (case obs h of
        Some (Processes ps i) \<Rightarrow>
          (let (p, j) = take_entry ps (if rewind then 0 else i) in (p, obs(h \<mapsto> Processes ps j)))
      | _ \<Rightarrow> (None, obs))"

definition next_module :: "bool \<Rightarrow> objects \<Rightarrow> handle \<Rightarrow> MemoryRegion option \<times> objects" where
  "next_module rewind obs h =
     (case obs h of
        Some (Modules rs i) \<Rightarrow>
          (let (r, j) = take_entry rs (if rewind then 0 else i) in (r, obs(h \<mapsto> Modules rs j)))
      | _ \<Rightarrow> (None, obs))"

definition opened_process :: "objects \<Rightarrow> handle \<Rightarrow> pid option" where
  "opened_process obs h = (case obs h of Some (Opened p) \<Rightarrow> Some p | _ \<Rightarrow> None)"


section \<open>The table that \<open>ClientState\<close> holds\<close>

definition open_pids :: "client_state \<Rightarrow> handle \<rightharpoonup> pid" where
  "open_pids st = map_of (handlesToProcessIDs st)"

fun merge :: "pid option \<Rightarrow> (ProcessInfo list \<times> nat) option \<Rightarrow> (MemoryRegion list \<times> nat) option \<Rightarrow> object option" where
  "merge (Some p) _ _ = Some (Opened p)"
| "merge None (Some (ps, i)) _ = Some (Processes ps i)"
| "merge None None (Some (rs, i)) = Some (Modules rs i)"
| "merge None None None = None"

definition objects_of :: "client_state \<Rightarrow> objects" where
  "objects_of st h = merge (open_pids st h) (process_cursor st h) (module_cursor st h)"

definition at_most_one :: "'a option \<Rightarrow> 'b option \<Rightarrow> 'c option \<Rightarrow> bool" where
  "at_most_one x y z \<longleftrightarrow> (x \<noteq> None \<longrightarrow> y = None \<and> z = None) \<and> (y \<noteq> None \<longrightarrow> z = None)"

text \<open>
  The maps are disjoint, and every handle in them has been given out: it is at most the last one. So a handle that
  is drawn is new, below the point where the handles wrap.
\<close>

definition table_ok :: "client_state \<Rightarrow> bool" where
  "table_ok st \<longleftrightarrow>
     cs_inv st \<and> (\<forall>h. at_most_one (open_pids st h) (process_cursor st h) (module_cursor st h))
     \<and> (\<forall>h. objects_of st h \<noteq> None \<longrightarrow> unat h \<le> unat (lastHandleID st))"

lemma table_ok_new: "table_ok new_ClientState" "objects_of new_ClientState = Map.empty"
  using cs_inv_new
  by (auto simp: table_ok_def at_most_one_def objects_of_def open_pids_def process_cursor_def module_cursor_def cursor_of_def
      new_ClientState_def fun_eq_iff)

lemma merge_eq:
  assumes "at_most_one x y z"
  shows "merge x y z = Some (Opened p) \<longleftrightarrow> x = Some p" "merge x y z = Some (Processes ps i) \<longleftrightarrow> y = Some (ps, i)"
    "merge x y z = Some (Modules rs i) \<longleftrightarrow> z = Some (rs, i)" "merge x y z = None \<longleftrightarrow> x = None \<and> y = None \<and> z = None"
  using assms by (cases x; cases y; cases z; force simp: at_most_one_def)+

lemma objects_of_cases:
  assumes "table_ok st"
  shows "objects_of st h = Some (Opened p) \<longleftrightarrow> open_pids st h = Some p"
    and "objects_of st h = Some (Processes ps i) \<longleftrightarrow> process_cursor st h = Some (ps, i)"
    and "objects_of st h = Some (Modules rs i) \<longleftrightarrow> module_cursor st h = Some (rs, i)"
    and "objects_of st h = None \<longleftrightarrow> open_pids st h = None \<and> process_cursor st h = None \<and> module_cursor st h = None"
  using assms by (simp_all add: table_ok_def objects_of_def merge_eq)

lemma objects_of_queries:
  assumes "table_ok st"
  shows "containsProcessIDHandle st h \<longleftrightarrow> opened_process (objects_of st) h \<noteq> None"
    and "getProcessID st h = (case opened_process (objects_of st) h of Some p \<Rightarrow> p | None \<Rightarrow> - 1)"
    and "containsProcessInfoHandle st h \<longleftrightarrow> (\<exists>ps i. objects_of st h = Some (Processes ps i))"
    and "containsMemoryRegionHandle st h \<longleftrightarrow> (\<exists>rs i. objects_of st h = Some (Modules rs i))"
proof -
  have "opened_process (objects_of st) h = open_pids st h"
    by (cases "open_pids st h"; cases "process_cursor st h"; cases "module_cursor st h")
      (auto simp: opened_process_def objects_of_def)
  then show "containsProcessIDHandle st h \<longleftrightarrow> opened_process (objects_of st) h \<noteq> None"
    "getProcessID st h = (case opened_process (objects_of st) h of Some p \<Rightarrow> p | None \<Rightarrow> - 1)"
    by (simp_all add: containsProcessIDHandle_def umap_contains_def open_pids_def getProcessID_def)
  show "containsProcessInfoHandle st h \<longleftrightarrow> (\<exists>ps i. objects_of st h = Some (Processes ps i))"
    "containsMemoryRegionHandle st h \<longleftrightarrow> (\<exists>rs i. objects_of st h = Some (Modules rs i))"
    by (auto simp: objects_of_cases [OF assms] processes.contains_cursor modules.contains_cursor)
qed

text \<open>An operation that acts on the maps at one handle only.\<close>

lemma table_view:
  assumes "table_ok st" "cs_inv st'" "unat (lastHandleID st) \<le> unat (lastHandleID st')"
    and view: "open_pids st' = (open_pids st)(h := x)" "process_cursor st' = (process_cursor st)(h := y)"
      "module_cursor st' = (module_cursor st)(h := z)"
    and "at_most_one x y z" "merge x y z \<noteq> None \<Longrightarrow> unat h \<le> unat (lastHandleID st')"
  shows "table_ok st' \<and> objects_of st' = (objects_of st)(h := merge x y z)"
proof -
  have obs: "objects_of st' = (objects_of st)(h := merge x y z)"
    by (simp add: fun_eq_iff objects_of_def view)
  have "unat k \<le> unat (lastHandleID st')" if "objects_of st' k \<noteq> None" for k
    using assms(1,3,8) that unfolding obs table_ok_def by (cases "k = h") (force intro: le_trans)+
  moreover have "at_most_one (open_pids st' k) (process_cursor st' k) (module_cursor st' k)" for k
    using assms(1,7) by (simp add: table_ok_def view)
  ultimately show ?thesis
    using assms(2) obs by (simp add: table_ok_def)
qed


lemma table_same:
  assumes "table_ok st" "cs_inv st'" "lastHandleID st' = lastHandleID st" "open_pids st' = open_pids st"
    and "process_cursor st' = process_cursor st" "module_cursor st' = module_cursor st"
  shows "table_ok st' \<and> objects_of st' = objects_of st"
proof -
  have "objects_of st' = objects_of st"
    by (simp add: objects_of_def assms fun_eq_iff)
  then show ?thesis using assms by (simp add: table_ok_def)
qed


section \<open>Each operation implements its specification\<close>

lemma maps_frame [simp]:
  "open_pids (st\<lparr>lastHandleID := l\<rparr>) = open_pids st" "process_cursor (st\<lparr>lastHandleID := l\<rparr>) = process_cursor st"
  "module_cursor (st\<lparr>lastHandleID := l\<rparr>) = module_cursor st" "cs_inv (st\<lparr>lastHandleID := l\<rparr>) = cs_inv st"
  "open_pids (st\<lparr>processIter := pi, handlesToProcessInfoSnapshots := ps\<rparr>) = open_pids st"
  "module_cursor (st\<lparr>processIter := pi, handlesToProcessInfoSnapshots := ps\<rparr>) = module_cursor st"
  "open_pids (st\<lparr>moduleIter := mi, handlesToModuleSnapshots := ms\<rparr>) = open_pids st"
  "process_cursor (st\<lparr>moduleIter := mi, handlesToModuleSnapshots := ms\<rparr>) = process_cursor st"
  "open_pids (st\<lparr>processIter := pi\<rparr>) = open_pids st" "module_cursor (st\<lparr>processIter := pi\<rparr>) = module_cursor st"
  "open_pids (st\<lparr>moduleIter := mi\<rparr>) = open_pids st" "process_cursor (st\<lparr>moduleIter := mi\<rparr>) = process_cursor st"
  "process_cursor (st\<lparr>handlesToProcessIDs := ids\<rparr>) = process_cursor st" "module_cursor (st\<lparr>handlesToProcessIDs := ids\<rparr>) = module_cursor st"
  "open_pids (st\<lparr>handlesToProcessIDs := ids\<rparr>) = map_of ids"
  by (simp_all add: open_pids_def process_cursor_def module_cursor_def cs_inv_def)

lemma store_frame [simp]:
  "open_pids (snd (storeProcessSnapshot_at st xs h)) = open_pids st" "module_cursor (snd (storeProcessSnapshot_at st xs h)) = module_cursor st"
  "lastHandleID (snd (storeProcessSnapshot_at st xs h)) = lastHandleID st"
  "open_pids (snd (storeModuleSnapshot_at st rs h)) = open_pids st" "process_cursor (snd (storeModuleSnapshot_at st rs h)) = process_cursor st"
  "lastHandleID (snd (storeModuleSnapshot_at st rs h)) = lastHandleID st"
  "open_pids (resetProcessIterator st h) = open_pids st" "module_cursor (resetProcessIterator st h) = module_cursor st"
  "lastHandleID (resetProcessIterator st h) = lastHandleID st"
  "open_pids (resetModuleIterator st h) = open_pids st" "process_cursor (resetModuleIterator st h) = process_cursor st"
  "lastHandleID (resetModuleIterator st h) = lastHandleID st"
  "open_pids (snd (nextProcessInfo st h)) = open_pids st" "module_cursor (snd (nextProcessInfo st h)) = module_cursor st"
  "lastHandleID (snd (nextProcessInfo st h)) = lastHandleID st"
  "open_pids (snd (nextMemoryRegion st h)) = open_pids st" "process_cursor (snd (nextMemoryRegion st h)) = process_cursor st"
  "lastHandleID (snd (nextMemoryRegion st h)) = lastHandleID st"
  "lastHandleID (closeHandle st h) = lastHandleID st" "open_pids (closeHandle st h) = (open_pids st)(h := None)"
  by (simp_all add: client_state_defs Let_def split_def open_pids_def map_of_umap_erase process_cursor_def module_cursor_def)

text \<open>A new handle, and the table after something was stored under it.\<close>

definition new_handle :: "client_state \<Rightarrow> handle" where
  "new_handle st = word_of_nat (Suc (unat (lastHandleID st)))"

lemma generateHandle_new:
  assumes "table_ok st" "unat (lastHandleID st) < 2 ^ 31 - 1"
  shows "generateHandle st = (new_handle st, st\<lparr>lastHandleID := new_handle st\<rparr>)"
    "unat (new_handle st) = Suc (unat (lastHandleID st))"
    "open_pids st (new_handle st) = None" "process_cursor st (new_handle st) = None" "module_cursor st (new_handle st) = None"
proof -
  note g = generateHandle_step [OF assms(2)]
  have h: "new_handle st = lastHandleID st + 1"
    unfolding new_handle_def g(2) [symmetric] by simp
  then show "generateHandle st = (new_handle st, st\<lparr>lastHandleID := new_handle st\<rparr>)"
    "unat (new_handle st) = Suc (unat (lastHandleID st))"
    using g by simp_all
  then have "objects_of st (new_handle st) = None"
    using assms(1) by (force simp: table_ok_def)
  then show "open_pids st (new_handle st) = None" "process_cursor st (new_handle st) = None" "module_cursor st (new_handle st) = None"
    using objects_of_cases(4) [OF assms(1)] by simp_all
qed

text \<open>What a drawing operation promises: the new handle, and the object under it.\<close>

definition stores :: "client_state \<Rightarrow> object \<Rightarrow> handle \<times> client_state \<Rightarrow> bool" where
  "stores st ob r \<longleftrightarrow>
     fst r = new_handle st \<and> table_ok (snd r) \<and> unat (lastHandleID (snd r)) = Suc (unat (lastHandleID st))
     \<and> objects_of (snd r) = (objects_of st)(new_handle st \<mapsto> ob)"

lemma storeOpenProcess_refines:
  assumes "table_ok st" "unat (lastHandleID st) < 2 ^ 31 - 1"
  shows "stores st (Opened p) (storeOpenProcess st p)"
proof -
  note new = generateHandle_new [OF assms]
  let ?st = "st\<lparr>lastHandleID := new_handle st, handlesToProcessIDs := umap_assign (new_handle st) p (handlesToProcessIDs st)\<rparr>"
  have pids: "open_pids ?st = (open_pids st)(new_handle st \<mapsto> p)"
    by (simp add: map_of_umap_assign open_pids_def)
  have "cs_inv ?st"
    using assms(1) by (simp add: table_ok_def cs_inv_def)
  with table_view [OF assms(1) _ _ pids, of None None] show ?thesis
    using new by (simp add: stores_def storeOpenProcess_def storeOpenProcess_at_def at_most_one_def fun_upd_idem)
qed

lemma storeProcessSnapshot_refines:
  assumes "table_ok st" "unat (lastHandleID st) < 2 ^ 31 - 1" "length ps < 2 ^ 31"
  shows "stores st (Processes ps 0) (storeProcessSnapshot st ps)"
proof -
  note new = generateHandle_new [OF assms(1,2)]
  let ?st = "snd (storeProcessSnapshot_at (st\<lparr>lastHandleID := new_handle st\<rparr>) ps (new_handle st))"
  have cur: "cs_inv ?st" "process_cursor ?st = (process_cursor st)(new_handle st \<mapsto> (ps, 0))"
    using processes.store_fresh [of "st\<lparr>lastHandleID := new_handle st\<rparr>" "new_handle st" ps] assms(1,3) new
    by (simp_all add: table_ok_def)
  have "fst (storeProcessSnapshot_at s xs h) = h" for s xs h
    by (simp add: storeProcessSnapshot_at_def)
  with table_view [OF assms(1) cur(1) _ _ cur(2), of None None] show ?thesis
    using new by (simp add: stores_def storeProcessSnapshot_def at_most_one_def fun_upd_idem)
qed

lemma storeModuleSnapshot_refines:
  assumes "table_ok st" "unat (lastHandleID st) < 2 ^ 31 - 1" "length rs < 2 ^ 31"
  shows "stores st (Modules rs 0) (storeModuleSnapshot st rs)"
proof -
  note new = generateHandle_new [OF assms(1,2)]
  let ?st = "snd (storeModuleSnapshot_at (st\<lparr>lastHandleID := new_handle st\<rparr>) rs (new_handle st))"
  have cur: "cs_inv ?st" "module_cursor ?st = (module_cursor st)(new_handle st \<mapsto> (rs, 0))"
    using modules.store_fresh [of "st\<lparr>lastHandleID := new_handle st\<rparr>" "new_handle st" rs] assms(1,3) new
    by (simp_all add: table_ok_def)
  have "fst (storeModuleSnapshot_at s xs h) = h" for s xs h
    by (simp add: storeModuleSnapshot_at_def)
  with table_view [OF assms(1) cur(1) _ _ _ cur(2), of None None] show ?thesis
    using new by (simp add: stores_def storeModuleSnapshot_def at_most_one_def fun_upd_idem)
qed

text \<open>Closing, and walking a snapshot.\<close>

lemma closeHandle_refines:
  assumes "table_ok st"
  shows "table_ok (closeHandle st h) \<and> objects_of (closeHandle st h) = (objects_of st)(h := None)"
  using table_view [OF assms, of "closeHandle st h" h None None None] assms processes.close_cursor [of st h] modules.close_cursor [of st h]
  by (simp add: table_ok_def at_most_one_def)

lemma nextProcessInfo_present:
  assumes ok: "table_ok st" and h: "containsProcessInfoHandle st h"
  shows "let r = nextProcessInfo (if rewind then resetProcessIterator st h else st) h
    in table_ok (snd r) \<and> (fst r, objects_of (snd r)) = next_process rewind (objects_of st) h
      \<and> lastHandleID (snd r) = lastHandleID st"
proof -
  obtain ps i where cur: "process_cursor st h = Some (ps, i)"
    using h by (auto simp: processes.contains_cursor)
  define st1 k where st1: "st1 = (if rewind then resetProcessIterator st h else st)" "k = (if rewind then 0 else i)"
  have inv: "cs_inv st" and "at_most_one (open_pids st h) (process_cursor st h) (module_cursor st h)"
    using ok by (simp_all add: table_ok_def)
  with cur have one: "open_pids st h = None" "module_cursor st h = None"
    by (cases "open_pids st h"; cases "process_cursor st h"; simp add: at_most_one_def)+
  have st: "cs_inv st1" "process_cursor st1 = (process_cursor st)(h \<mapsto> (ps, k))"
      "open_pids st1 = open_pids st" "module_cursor st1 = module_cursor st" "lastHandleID st1 = lastHandleID st"
    using inv cur processes.reset_cursor [OF inv cur] by (simp_all add: st1 fun_upd_idem)
  then have here: "process_cursor st1 h = Some (ps, k)" by simp
  let ?r = "nextProcessInfo st1 h"
  have r: "cs_inv (snd ?r)" "fst ?r = fst (take_entry ps k)" "process_cursor (snd ?r) = (process_cursor st)(h \<mapsto> (ps, snd (take_entry ps k)))"
    using processes.next_element [OF st(1) here] processes.next_end [OF st(1) here]
    by (cases "k < length ps"; auto simp: take_entry_def st(2) fun_upd_idem)+
  have obs: "objects_of st h = Some (Processes ps i)"
    using objects_of_cases(2) [OF ok] cur by simp
  then have "unat h \<le> unat (lastHandleID st)"
    using ok by (force simp: table_ok_def)
  then have "table_ok (snd ?r) \<and> objects_of (snd ?r) = (objects_of st)(h := merge None (Some (ps, snd (take_entry ps k))) None)"
    by (intro table_view [OF ok r(1)]) (simp_all add: one st r(3) fun_upd_idem at_most_one_def)
  with r(2) show ?thesis
    unfolding st1(1) [symmetric] by (simp add: Let_def next_process_def obs split_def st st1(2) [symmetric])
qed

text \<open>A handle that has no process list: nothing is returned, and the one map is as it was.\<close>

lemma nextProcessInfo_absent:
  assumes "table_ok st" "\<not> containsProcessInfoHandle st h"
  shows "let r = nextProcessInfo (if rewind then resetProcessIterator st h else st) h
    in table_ok (snd r) \<and> (fst r, objects_of (snd r)) = next_process rewind (objects_of st) h
      \<and> lastHandleID (snd r) = lastHandleID st"
proof -
  have none: "process_cursor st h = None"
    using assms(2) by (cases "process_cursor st h") (auto simp: processes.contains_cursor)
  define st1 where "st1 = (if rewind then resetProcessIterator st h else st)"
  have same: "process_cursor st1 = process_cursor st" "open_pids st1 = open_pids st" "module_cursor st1 = module_cursor st"
      "lastHandleID st1 = lastHandleID st" "cs_inv st1"
    using none assms(1)
    by (auto simp: st1_def table_ok_def cursor_table_simps)
      (auto simp: resetProcessIterator_def process_cursor_def cursor_of_def umap_simps fun_eq_iff split: option.splits)
  then have "nextProcessInfo st1 h = (None, st1)"
    using processes.next_absent [of st1 h] none by simp
  moreover have "next_process rewind (objects_of st) h = (None, objects_of st)"
    using objects_of_queries(3) [OF assms(1), of h] assms(2) by (auto simp: next_process_def split: option.splits object.splits)
  ultimately show ?thesis
    using table_same [OF assms(1), of st1] same by (simp add: st1_def [symmetric])
qed

lemma nextProcessInfo_refines:
  assumes "table_ok st"
  shows "let r = nextProcessInfo (if rewind then resetProcessIterator st h else st) h
    in table_ok (snd r) \<and> (fst r, objects_of (snd r)) = next_process rewind (objects_of st) h
      \<and> lastHandleID (snd r) = lastHandleID st"
  using nextProcessInfo_present [OF assms] nextProcessInfo_absent [OF assms] by blast

lemma nextMemoryRegion_present:
  assumes ok: "table_ok st" and h: "containsMemoryRegionHandle st h"
  shows "let r = nextMemoryRegion (if rewind then resetModuleIterator st h else st) h
    in table_ok (snd r) \<and> (fst r, objects_of (snd r)) = next_module rewind (objects_of st) h
      \<and> lastHandleID (snd r) = lastHandleID st"
proof -
  obtain rs i where cur: "module_cursor st h = Some (rs, i)"
    using h by (auto simp: modules.contains_cursor)
  define st1 k where st1: "st1 = (if rewind then resetModuleIterator st h else st)" "k = (if rewind then 0 else i)"
  have inv: "cs_inv st" and "at_most_one (open_pids st h) (process_cursor st h) (module_cursor st h)"
    using ok by (simp_all add: table_ok_def)
  with cur have one: "open_pids st h = None" "process_cursor st h = None"
    by (cases "open_pids st h"; cases "process_cursor st h"; simp add: at_most_one_def)+
  have st: "cs_inv st1" "module_cursor st1 = (module_cursor st)(h \<mapsto> (rs, k))"
      "open_pids st1 = open_pids st" "process_cursor st1 = process_cursor st" "lastHandleID st1 = lastHandleID st"
    using inv cur modules.reset_cursor [OF inv cur] by (simp_all add: st1 fun_upd_idem)
  then have here: "module_cursor st1 h = Some (rs, k)" by simp
  let ?r = "nextMemoryRegion st1 h"
  have r: "cs_inv (snd ?r)" "fst ?r = fst (take_entry rs k)" "module_cursor (snd ?r) = (module_cursor st)(h \<mapsto> (rs, snd (take_entry rs k)))"
    using modules.next_element [OF st(1) here] modules.next_end [OF st(1) here]
    by (cases "k < length rs"; auto simp: take_entry_def st(2) fun_upd_idem)+
  have obs: "objects_of st h = Some (Modules rs i)"
    using objects_of_cases(3) [OF ok] cur by simp
  then have "unat h \<le> unat (lastHandleID st)"
    using ok by (force simp: table_ok_def)
  then have "table_ok (snd ?r) \<and> objects_of (snd ?r) = (objects_of st)(h := merge None None (Some (rs, snd (take_entry rs k))))"
    by (intro table_view [OF ok r(1)]) (simp_all add: one st r(3) fun_upd_idem at_most_one_def)
  with r(2) show ?thesis
    unfolding st1(1) [symmetric] by (simp add: Let_def next_module_def obs split_def st st1(2) [symmetric])
qed

text \<open>A handle that has no module list: nothing is returned, and the one map is as it was.\<close>

lemma nextMemoryRegion_absent:
  assumes "table_ok st" "\<not> containsMemoryRegionHandle st h"
  shows "let r = nextMemoryRegion (if rewind then resetModuleIterator st h else st) h
    in table_ok (snd r) \<and> (fst r, objects_of (snd r)) = next_module rewind (objects_of st) h
      \<and> lastHandleID (snd r) = lastHandleID st"
proof -
  have none: "module_cursor st h = None"
    using assms(2) by (cases "module_cursor st h") (auto simp: modules.contains_cursor)
  define st1 where "st1 = (if rewind then resetModuleIterator st h else st)"
  have same: "module_cursor st1 = module_cursor st" "open_pids st1 = open_pids st" "process_cursor st1 = process_cursor st"
      "lastHandleID st1 = lastHandleID st" "cs_inv st1"
    using none assms(1)
    by (auto simp: st1_def table_ok_def cursor_table_simps)
      (auto simp: resetModuleIterator_def module_cursor_def cursor_of_def umap_simps fun_eq_iff split: option.splits)
  then have "nextMemoryRegion st1 h = (None, st1)"
    using modules.next_absent [of st1 h] none by simp
  moreover have "next_module rewind (objects_of st) h = (None, objects_of st)"
    using objects_of_queries(4) [OF assms(1), of h] assms(2) by (auto simp: next_module_def split: option.splits object.splits)
  ultimately show ?thesis
    using table_same [OF assms(1), of st1] same by (simp add: st1_def [symmetric])
qed

lemma nextMemoryRegion_refines:
  assumes "table_ok st"
  shows "let r = nextMemoryRegion (if rewind then resetModuleIterator st h else st) h
    in table_ok (snd r) \<and> (fst r, objects_of (snd r)) = next_module rewind (objects_of st) h
      \<and> lastHandleID (snd r) = lastHandleID st"
  using nextMemoryRegion_present [OF assms] nextMemoryRegion_absent [OF assms] by blast

section \<open>Properties\<close>

text \<open>
  C10: \<open>ClientState\<close> implements one map from handles to objects. Opening a process and storing a snapshot each put their
  object under the next handle, which is unused; closing removes whatever is under the handle; the iteration
  hands out the entry at the position of that snapshot, or of its start when it is rewound, and moves on, and
  gives nothing and leaves the map as it is for a handle that has no such snapshot. Every query answers what the map
  says, for every handle: whether it stands for a process, a process list or a module list, and the process, which is
  \<open>- 1\<close> for a handle without one. All operations keep the table well formed.
\<close>

theorem handle_table_refines:
  assumes "table_ok st" "unat (lastHandleID st) < 2 ^ 31 - 1" "length ps < 2 ^ 31" "length rs < 2 ^ 31"
  shows "objects_of st (new_handle st) = None
    \<and> stores st (Opened p) (storeOpenProcess st p)
    \<and> stores st (Processes ps 0) (storeProcessSnapshot st ps)
    \<and> stores st (Modules rs 0) (storeModuleSnapshot st rs)
    \<and> table_ok (closeHandle st h) \<and> objects_of (closeHandle st h) = (objects_of st)(h := None)
    \<and> (\<forall>rewind. let r = nextProcessInfo (if rewind then resetProcessIterator st h else st) h
         in table_ok (snd r) \<and> (fst r, objects_of (snd r)) = next_process rewind (objects_of st) h)
    \<and> (\<forall>rewind. let r = nextMemoryRegion (if rewind then resetModuleIterator st h else st) h
         in table_ok (snd r) \<and> (fst r, objects_of (snd r)) = next_module rewind (objects_of st) h)
    \<and> (containsProcessIDHandle st h \<longleftrightarrow> (\<exists>q. objects_of st h = Some (Opened q)))
    \<and> (containsProcessInfoHandle st h \<longleftrightarrow> (\<exists>qs i. objects_of st h = Some (Processes qs i)))
    \<and> (containsMemoryRegionHandle st h \<longleftrightarrow> (\<exists>qs i. objects_of st h = Some (Modules qs i)))
    \<and> getProcessID st h = (case objects_of st h of Some (Opened q) \<Rightarrow> q | _ \<Rightarrow> - 1)"
proof -
  have "opened_process (objects_of st) h \<noteq> None \<longleftrightarrow> (\<exists>q. objects_of st h = Some (Opened q))"
    "(case opened_process (objects_of st) h of Some q \<Rightarrow> q | None \<Rightarrow> - 1) = (case objects_of st h of Some (Opened q) \<Rightarrow> q | _ \<Rightarrow> - 1)"
    by (auto simp: opened_process_def split: option.split object.split)
  then show ?thesis
    using objects_of_cases(4) [OF assms(1)] generateHandle_new [OF assms(1,2)]
      storeOpenProcess_refines [OF assms(1,2)] storeProcessSnapshot_refines [OF assms(1,2,3)] storeModuleSnapshot_refines [OF assms(1,2,4)]
      closeHandle_refines [OF assms(1)] nextProcessInfo_refines [OF assms(1)] nextMemoryRegion_refines [OF assms(1)]
      objects_of_queries [OF assms(1)]
    by (simp add: Let_def)
qed

text \<open>A table in which handle 1 has a process and handle 2 a list of one.\<close>

theorem handle_table_refines_witness:
  "\<exists>st. table_ok st \<and> objects_of st 1 = Some (Opened 4) \<and> getProcessID st 1 = 4
     \<and> stores st (Processes [\<lparr>pi_name = ''a.exe'', pi_pid = 4\<rparr>] 0) (storeProcessSnapshot st [\<lparr>pi_name = ''a.exe'', pi_pid = 4\<rparr>])
     \<and> \<not> containsMemoryRegionHandle st 1"
proof -
  let ?st = "snd (storeOpenProcess new_ClientState 4)" let ?ps = "[\<lparr>pi_name = ''a.exe'', pi_pid = 4\<rparr>] :: ProcessInfo list"
  have new: "unat (lastHandleID new_ClientState) < 2 ^ 31 - 1" "new_handle new_ClientState = 1"
      "unat (lastHandleID new_ClientState) = 0"
    by (simp_all add: new_ClientState_def new_handle_def)
  have ok: "table_ok ?st" "objects_of ?st 1 = Some (Opened 4)" "unat (lastHandleID ?st) < 2 ^ 31 - 1"
    using storeOpenProcess_refines [OF table_ok_new(1) new(1), of 4] new by (auto simp: stores_def)
  from handle_table_refines [OF ok(1,3), of ?ps "[]" 4 1] ok show ?thesis
    by (intro exI [of _ ?st]) auto
qed

end
