(* ===== verification/Protocol.thy ===== *)
theory Protocol
  imports Server Objects
begin

text \<open>
  The server as its clients see it: a specification of the commands on an abstract state (a map from handles to objects,
  the number of handles given out, the adapter and the connection's name), independent of buffers,
  sockets and the layout of the handle table. A session of requests, encoded and sent in one stream, is
  answered by the loop of a connection exactly as the specification says.

  \<open>CMD_GETARCHITECTURE\<close> is left out: what it does depends on when its handle arrives (see \<open>Handlers\<close>).
\<close>


section \<open>Requests\<close>

datatype request =
    GetVersion | GetABI | GetOptions
  | OpenProcess pid
  | CloseHandle handle
  | Snapshot u32 pid
  | SnapshotEx u32 pid
  | NextProcess bool handle
  | NextModule bool handle
  | ReadMemory handle address u32 byte
  | WriteMemory handle address "byte list"
  | QueryRegion bool handle address
  | QueryRegions handle byte
  | SetConnectionName string
  | SymbolList "byte list"
  | StartDebug handle
  | Closing byte

text \<open>The bytes a client sends. In the iterations the flag asks for the first entry, in \<open>QueryRegion\<close> for the region's name.\<close>

fun encode :: "request \<Rightarrow> byte list" where
  "encode GetVersion = [CMD_GETVERSION]"
| "encode GetABI = [CMD_GETABI]"
| "encode GetOptions = [CMD_GETOPTIONS]"
| "encode (OpenProcess p) = CMD_OPENPROCESS # le_bytes 4 p"
| "encode (CloseHandle h) = CMD_CLOSEHANDLE # le_bytes 4 h"
| "encode (Snapshot flags p) = CMD_CREATETOOLHELP32SNAPSHOT # le_bytes 4 flags @ le_bytes 4 p"
| "encode (SnapshotEx flags p) = CMD_CREATETOOLHELP32SNAPSHOTEX # le_bytes 4 flags @ le_bytes 4 p"
| "encode (NextProcess rewind h) = (if rewind then CMD_PROCESS32FIRST else CMD_PROCESS32NEXT) # le_bytes 4 h"
| "encode (NextModule rewind h) = (if rewind then CMD_MODULE32FIRST else CMD_MODULE32NEXT) # le_bytes 4 h"
| "encode (ReadMemory h a n compress) = CMD_READPROCESSMEMORY # read_request h a n compress"
| "encode (WriteMemory h a bs) = CMD_WRITEPROCESSMEMORY # write_request h a bs"
| "encode (QueryRegion name h a) = (if name then CMD_GETREGIONINFO else CMD_VIRTUALQUERYEX) # le_bytes 4 h @ le_bytes 8 a"
| "encode (QueryRegions h flags) = CMD_VIRTUALQUERYEXFULL # le_bytes 4 h @ [flags]"
| "encode (SetConnectionName name) = CMD_SET_CONNECTION_NAME # le_bytes 4 (word_of_nat (length name) :: u32) @ to_bytes name"
| "encode (SymbolList path) = CMD_GETSYMBOLLISTFROMFILE # le_bytes 4 (word_of_nat (length path) :: u32) @ path"
| "encode (StartDebug h) = CMD_STARTDEBUG # le_bytes 4 h"
| "encode (Closing command) = [command]"

text \<open>Sizes that fit their fields, names without a zero byte, and commands that only close the connection.\<close>

fun request_ok :: "request \<Rightarrow> bool" where
  "request_ok (WriteMemory h a bs) = (length bs < 2 ^ 31)"
| "request_ok (SymbolList path) = (length path < 2 ^ 31)"
| "request_ok (SetConnectionName name) = (length name < 2 ^ 32 - 1 \<and> CHR 0x00 \<notin> set name)"
| "request_ok (Closing command) = (command \<in> set unimplemented \<or> command = CMD_CLOSECONNECTION \<or> command = CMD_TERMINATESERVER)"
| "request_ok _ = True"


section \<open>The specification\<close>

record 'm spec =
  sp_given :: nat
  sp_objects :: objects
  sp_memory :: 'm
  sp_name :: string

text \<open>A new handle for an object.\<close>

definition draw :: "object \<Rightarrow> 'm spec \<Rightarrow> handle \<times> 'm spec" where
  "draw ob s =
     (let h = word_of_nat (Suc (sp_given s))
      in (h, s\<lparr>sp_given := Suc (sp_given s), sp_objects := (sp_objects s)(h \<mapsto> ob)\<rparr>))"

definition version_reply :: "byte list" where
  "version_reply =
     bytes_of_CeVersion \<lparr>cv_version = CE_SERVER_VERSION, cv_stringsize = word_of_nat (length VERSION_STRING)\<rparr>
     @ to_bytes VERSION_STRING"

definition take_snapshot :: "'m memory_ops \<Rightarrow> 'm spec \<Rightarrow> fault + bool \<times> byte list \<times> 'm spec" where
  "take_snapshot ops s =
     (case mo_getProcessSnapshot ops (sp_memory s) of
        Inl e \<Rightarrow> Inl e
      | Inr (ps, m) \<Rightarrow> (let (h, s) = draw (Processes ps 0) (s\<lparr>sp_memory := m\<rparr>) in Inr (True, le_bytes 4 h, s)))"

text \<open>
  What a request does: whether the connection stays open, the reply, and the next state; or the fault of the adapter
  under it. A path without a zero byte makes the server read behind its array.
\<close>

fun serve :: "'m memory_ops \<Rightarrow> client_env \<Rightarrow> request \<Rightarrow> 'm spec \<Rightarrow> fault + bool \<times> byte list \<times> 'm spec" where
  "serve ops E GetVersion s = Inr (True, version_reply, s)"
| "serve ops E GetABI s = Inr (True, [ABI_WINDOWS], s)"
| "serve ops E GetOptions s = Inr (True, le_bytes 2 (0 :: u16), s)"
| "serve ops E (OpenProcess p) s = (let (h, s) = draw (Opened p) s in Inr (True, le_bytes 4 h, s))"
| "serve ops E (CloseHandle h) s = Inr (True, le_bytes 4 (1 :: u32), s\<lparr>sp_objects := (sp_objects s)(h := None)\<rparr>)"
| "serve ops E (Snapshot flags p) s =
     (if flags AND TH32CS_SNAPPROCESS \<noteq> 0 then take_snapshot ops s
      else if flags AND TH32CS_SNAPMODULE \<noteq> 0 then
        (let (rs, m) = mo_getModuleSnapshot ops (sp_memory s) p; (h, s) = draw (Modules rs 0) (s\<lparr>sp_memory := m\<rparr>)
         in Inr (True, le_bytes 4 h, s))
      else Inr (True, le_bytes 4 (0 :: handle), s))"
| "serve ops E (SnapshotEx flags p) s =
     (if flags AND TH32CS_SNAPTHREAD \<noteq> 0 then
        (let (ts, m) = mo_getThreadSnapshot ops (sp_memory s) p
         in Inr (True, le_bytes 4 (word_of_nat (length ts) :: u32) @ concat (map (\<lambda>t. le_bytes 4 (dwTID (ti_threadentry t))) ts),
              s\<lparr>sp_memory := m\<rparr>))
      else if flags AND TH32CS_SNAPMODULE \<noteq> 0 then
        (let (rs, m) = mo_getModuleSnapshot ops (sp_memory s) p
         in Inr (True, concat (map region_entry rs) @ module_reply None, s\<lparr>sp_memory := m\<rparr>))
      else take_snapshot ops s)"
| "serve ops E (NextProcess rewind h) s =
     (let (p, obs) = next_process rewind (sp_objects s) h in Inr (True, process_reply p, s\<lparr>sp_objects := obs\<rparr>))"
| "serve ops E (NextModule rewind h) s =
     (let (r, obs) = next_module rewind (sp_objects s) h in Inr (True, module_reply r, s\<lparr>sp_objects := obs\<rparr>))"
| "serve ops E (ReadMemory h a n compress) s =
     (case opened_process (sp_objects s) h of
        None \<Rightarrow> Inr (False, [], s)
      | Some p \<Rightarrow>
          (if compress \<noteq> 0 then Inr (False, [], s)
           else if a = 0 \<or> n = 0 then Inr (True, le_bytes 4 (0 :: u32), s)
           else
             (case mo_read ops (sp_memory s) p a (ucast n) of
                Inl e \<Rightarrow> Inl e
              | Inr ((r, bs), m) \<Rightarrow>
                  Inr (True, if r = 0 then le_bytes 4 (0 :: u32) else le_bytes 4 (ucast r :: u32) @ bs, s\<lparr>sp_memory := m\<rparr>))))"
| "serve ops E (WriteMemory h a bs) s =
     (case opened_process (sp_objects s) h of
        None \<Rightarrow> Inr (False, [], s)
      | Some p \<Rightarrow>
          (let (w, m) = mo_write ops (sp_memory s) bs p a (word_of_nat (length bs))
           in Inr (w = word_of_nat (length bs), le_bytes 4 (ucast w :: u32), s\<lparr>sp_memory := m\<rparr>)))"
| "serve ops E (QueryRegion name h a) s =
     (case opened_process (sp_objects s) h of
        None \<Rightarrow> Inr (False, [], s)
      | Some p \<Rightarrow>
          (if a = 0 then Inr (True, region_reply E None, s)
           else
             (let (rs, m) = mo_getModuleSnapshot ops (sp_memory s) p
              in Inr (True, region_reply E (region_at a rs) @ (if name then name_reply (region_at a rs) else []),
                   s\<lparr>sp_memory := m\<rparr>))))"
| "serve ops E (QueryRegions h flags) s =
     (case opened_process (sp_objects s) h of
        None \<Rightarrow> Inr (False, [], s)
      | Some p \<Rightarrow>
          (let (rs, m) = mo_getModuleSnapshot ops (sp_memory s) p
           in Inr (True, le_bytes 4 (word_of_nat (length rs) :: u32) @ concat (map (region_info E) rs), s\<lparr>sp_memory := m\<rparr>)))"
| "serve ops E (SetConnectionName name) s = Inr (True, [], s\<lparr>sp_name := name\<rparr>)"
| "serve ops E (SymbolList path) s = (if 0 \<notin> set path then Inl Buffer_overflow else Inr (True, le_bytes 8 (0 :: u64), s))"
| "serve ops E (StartDebug h) s = Inr (True, le_bytes 4 h, s)"
| "serve ops E (Closing command) s = Inr (False, [], s)"

text \<open>A session: the replies up to the end or to the request that closed the connection, and what was not served.\<close>

fun session :: "'m memory_ops \<Rightarrow> (nat \<Rightarrow> client_env) \<Rightarrow> nat \<Rightarrow> request list \<Rightarrow> 'm spec
    \<Rightarrow> fault + bool \<times> byte list \<times> request list \<times> 'm spec" where
  "session ops E k [] s = Inr (True, [], [], s)"
| "session ops E k (r # rs) s =
     (case serve ops (E k) r s of
        Inl e \<Rightarrow> Inl e
      | Inr (keep, reply, s) \<Rightarrow>
          (if \<not> keep then Inr (False, reply, rs, s)
           else
             (case session ops E (Suc k) rs s of
                Inl e \<Rightarrow> Inl e
              | Inr (keep, replies, left, s) \<Rightarrow> Inr (keep, reply @ replies, left, s))))"


section \<open>A command implements its specification\<close>

definition spec_of :: "'m client \<Rightarrow> 'm spec" where
  "spec_of c =
     \<lparr>sp_given = unat (lastHandleID (cl_state c)), sp_objects = objects_of (cl_state c), sp_memory = cl_memory c,
      sp_name = cl_connectionName c\<rparr>"

text \<open>
  What the handler makes of the connection, against the specified result: the same fault, or the reply sent and a
  connection that stands for the next state and has consumed the request.
\<close>

definition implements ::
    "byte list \<Rightarrow> byte list \<Rightarrow> 'm client \<Rightarrow> fault + bool \<times> byte list \<times> 'm spec \<Rightarrow> fault + bool \<times> 'm client \<Rightarrow> bool" where
  "implements rest out c result actual \<longleftrightarrow>
     (case result of
        Inl e \<Rightarrow> actual = Inl e
      | Inr (keep, reply, s) \<Rightarrow>
          (\<exists>c'. actual = Inr (keep, exchange rest (out @ reply) c') \<and> spec_of c' = s \<and> table_ok (cl_state c')
             \<and> cl_socket c' = cl_socket c))"

lemma implementsI:
  "actual = Inr (keep, exchange rest (out @ reply) c') \<Longrightarrow> spec_of c' = s \<Longrightarrow> table_ok (cl_state c') \<Longrightarrow> cl_socket c' = cl_socket c
     \<Longrightarrow> implements rest out c (Inr (keep, reply, s)) actual"
  by (auto simp: implements_def)

lemma implements_result [simp]:
  "table_ok (cl_state c') \<Longrightarrow> cl_socket c' = cl_socket c \<Longrightarrow>
     implements rest out c (Inr (keep, reply, spec_of c')) (Inr (keep, exchange rest (out @ reply) c'))"
  "table_ok (cl_state c') \<Longrightarrow> cl_socket c' = cl_socket c \<Longrightarrow>
     implements rest out c (Inr (keep, [], spec_of c')) (Inr (keep, exchange rest out c'))"
  "implements rest out c (Inl e) (Inl e)"
  by (force simp: implements_def)+

lemma spec_of_simps [simp]:
  "sp_given (spec_of c) = unat (lastHandleID (cl_state c))" "sp_objects (spec_of c) = objects_of (cl_state c)"
  "sp_memory (spec_of c) = cl_memory c" "sp_name (spec_of c) = cl_connectionName c"
  "(spec_of c)\<lparr>sp_objects := objects_of (cl_state c)\<rparr> = spec_of c"
  "(spec_of c)\<lparr>sp_memory := m\<rparr> = spec_of (c\<lparr>cl_memory := m\<rparr>)"
  "(spec_of c)\<lparr>sp_name := n\<rparr> = spec_of (c\<lparr>cl_connectionName := n\<rparr>)"
  by (simp_all add: spec_of_def)

lemma spec_of_objects:
  "lastHandleID st = lastHandleID (cl_state c) \<Longrightarrow> objects_of st = obs \<Longrightarrow>
     spec_of (c\<lparr>cl_state := st\<rparr>) = (spec_of c)\<lparr>sp_objects := obs\<rparr>"
  by (simp add: spec_of_def)

lemma spec_of_draw:
  assumes "stores (cl_state c) ob (h, st)"
  shows "draw ob (spec_of c) = (h, spec_of (c\<lparr>cl_state := st\<rparr>))" "table_ok st"
  using assms by (simp_all add: stores_def draw_def spec_of_def new_handle_def Let_def)

lemma take_snapshot_refines:
  assumes "open_connection c" "table_ok (cl_state c)" "unat (lastHandleID (cl_state c)) < 2 ^ 31 - 1" "small_snapshots ops"
    and faults: "\<And>e. mo_getProcessSnapshot ops (cl_memory c) = Inl e \<Longrightarrow> actual = Inl e"
    and actual: "\<And>ps m h st. mo_getProcessSnapshot ops (cl_memory c) = Inr (ps, m) \<Longrightarrow> storeProcessSnapshot (cl_state c) ps = (h, st) \<Longrightarrow>
      actual = Inr (True, exchange rest (out @ le_bytes 4 h) (c\<lparr>cl_memory := m, cl_state := st\<rparr>))"
  shows "implements rest out c (take_snapshot ops (spec_of c)) actual"
proof (cases "mo_getProcessSnapshot ops (cl_memory c)")
  case (Inl e)
  with faults show ?thesis by (simp add: take_snapshot_def implements_def)
next
  case (Inr x)
  then obtain ps m where ps: "mo_getProcessSnapshot ops (cl_memory c) = Inr (ps, m)"
    by (cases x) simp
  obtain h st where st: "storeProcessSnapshot (cl_state c) ps = (h, st)"
    by fastforce
  have "length ps < 2 ^ 31"
    using assms(4) ps by (auto simp: small_snapshots_def)
  then have "stores (cl_state (c\<lparr>cl_memory := m\<rparr>)) (Processes ps 0) (h, st)"
    using storeProcessSnapshot_refines [OF assms(2,3)] st by (metis client.simps(4) client.surjective client.update_convs(3))
  note spec = spec_of_draw [OF this]
  have "implements rest out c (Inr (True, le_bytes 4 h, spec_of (c\<lparr>cl_memory := m, cl_state := st\<rparr>))) actual"
    by (rule implementsI [OF actual [OF ps st]]) (simp_all add: spec(2))
  with ps spec(1) show ?thesis by (simp add: take_snapshot_def)
qed

lemma Snapshot_refines:
  assumes "open_connection c" "table_ok (cl_state c)" "unat (lastHandleID (cl_state c)) < 2 ^ 31 - 1" "small_snapshots ops"
  shows "implements rest out c (serve ops E (Snapshot flags p) (spec_of c))
    (kept_open (handleCommandToolHelp32Snapshot ops (exchange (le_bytes 4 flags @ le_bytes 4 p @ rest) out c)))"
proof -
  note ex = ToolHelp32Snapshot_exchange [OF assms(1)]
  consider (processes) "flags AND TH32CS_SNAPPROCESS \<noteq> 0"
    | (modules) "flags AND TH32CS_SNAPPROCESS = 0" "flags AND TH32CS_SNAPMODULE \<noteq> 0"
    | (neither) "flags AND TH32CS_SNAPPROCESS = 0" "flags AND TH32CS_SNAPMODULE = 0" by blast
  then show ?thesis
  proof cases
    case processes
    have "implements rest out c (take_snapshot ops (spec_of c))
      (kept_open (handleCommandToolHelp32Snapshot ops (exchange (le_bytes 4 flags @ le_bytes 4 p @ rest) out c)))"
      by (rule take_snapshot_refines [OF assms])
        (use processes assms(1) in \<open>simp_all add: ex kept_open_def handleCommandToolHelp32Snapshot_def client_io\<close>)
    with processes show ?thesis by simp
  next
    case modules
    obtain rs m where rs: "mo_getModuleSnapshot ops (cl_memory c) p = (rs, m)"
      by fastforce
    obtain h st where st: "storeModuleSnapshot (cl_state c) rs = (h, st)"
      by fastforce
    have "length rs < 2 ^ 31"
      using assms(4) rs unfolding small_snapshots_def by blast
    then have "stores (cl_state (c\<lparr>cl_memory := m\<rparr>)) (Modules rs 0) (h, st)"
      using storeModuleSnapshot_refines [OF assms(2,3)] st by (metis client.simps(4) client.surjective client.update_convs(3))
    note spec = spec_of_draw [OF this]
    with modules rs show ?thesis by (simp add: ex(2) [OF modules rs st] kept_open_def)
  next
    case neither
    then show ?thesis
      using assms(2) by (simp add: ex(3) kept_open_def)
  qed
qed

lemma SnapshotEx_refines:
  assumes "open_connection c" "table_ok (cl_state c)" "unat (lastHandleID (cl_state c)) < 2 ^ 31 - 1" "small_snapshots ops"
  shows "implements rest out c (serve ops E (SnapshotEx flags p) (spec_of c))
    (kept_open (handleCommandToolHelp32SnapshotEx ops (exchange (le_bytes 4 flags @ le_bytes 4 p @ rest) out c)))"
proof -
  note ex = ToolHelp32SnapshotEx_exchange [OF assms(1)]
  consider (threads) "flags AND TH32CS_SNAPTHREAD \<noteq> 0"
    | (modules) "flags AND TH32CS_SNAPTHREAD = 0" "flags AND TH32CS_SNAPMODULE \<noteq> 0"
    | (processes) "flags AND TH32CS_SNAPTHREAD = 0" "flags AND TH32CS_SNAPMODULE = 0" by blast
  then show ?thesis
  proof cases
    case threads
    obtain ts m where ts: "mo_getThreadSnapshot ops (cl_memory c) p = (ts, m)"
      by fastforce
    with threads assms(2) show ?thesis
      by (simp add: ex(1) [OF threads ts] kept_open_def)
  next
    case modules
    obtain rs m where rs: "mo_getModuleSnapshot ops (cl_memory c) p = (rs, m)"
      by fastforce
    with modules assms(2) show ?thesis
      by (simp add: ex(2) [OF modules rs] kept_open_def module_reply_def)
  next
    case processes
    have "implements rest out c (take_snapshot ops (spec_of c))
      (kept_open (handleCommandToolHelp32SnapshotEx ops (exchange (le_bytes 4 flags @ le_bytes 4 p @ rest) out c)))"
      by (rule take_snapshot_refines [OF assms])
        (use processes assms(1) in \<open>simp_all add: ex(3) kept_open_def handleCommandToolHelp32SnapshotEx_def client_io\<close>)
    with processes show ?thesis by simp
  qed
qed

text \<open>Handles: opening, closing, walking.\<close>

lemma OpenProcess_refines:
  assumes "open_connection c" "table_ok (cl_state c)" "unat (lastHandleID (cl_state c)) < 2 ^ 31 - 1"
  shows "implements rest out c (serve ops E (OpenProcess p) (spec_of c))
    (Inr (True, handleCommandOpenProcess (exchange (le_bytes 4 p @ rest) out c)))"
proof -
  obtain h st where st: "storeOpenProcess (cl_state c) p = (h, st)"
    by fastforce
  then have "stores (cl_state c) (Opened p) (h, st)"
    using storeOpenProcess_refines [OF assms(2,3), of p] by simp
  note spec = spec_of_draw [OF this]
  then show ?thesis
    by (simp add: OpenProcess_exchange [OF assms(1) st])
qed

lemma CloseHandle_refines:
  assumes "open_connection c" "table_ok (cl_state c)"
  shows "implements rest out c (serve ops E (CloseHandle h) (spec_of c))
    (Inr (True, handleCommandCloseHandle (exchange (le_bytes 4 h @ rest) out c)))"
proof -
  let ?st = "closeHandle (cl_state c) h"
  have "lastHandleID ?st = lastHandleID (cl_state c)"
    by simp
  then show ?thesis
    using closeHandle_refines [OF assms(2), of h] spec_of_objects [of ?st c]
    by (simp add: CloseHandle_exchange [OF assms(1)] flip: spec_of_objects [of ?st c "(objects_of (cl_state c))(h := None)"])
qed

lemma NextProcess_refines:
  assumes "open_connection c" "table_ok (cl_state c)"
  shows "implements rest out c (serve ops E (NextProcess rewind h) (spec_of c))
    (Inr (True, handleCommandIterateProcessesNext (if rewind then CMD_PROCESS32FIRST else CMD_PROCESS32NEXT) (exchange (le_bytes 4 h @ rest) out c)))"
proof (cases "containsProcessInfoHandle (cl_state c) h")
  case True
  obtain p st where st: "nextProcessInfo (if rewind then resetProcessIterator (cl_state c) h else cl_state c) h = (p, st)"
    by fastforce
  then have ref: "table_ok st" "next_process rewind (objects_of (cl_state c)) h = (p, objects_of st)" "lastHandleID st = lastHandleID (cl_state c)"
    using nextProcessInfo_refines [OF assms(2), of rewind h] by simp_all
  have "nextProcessInfo (if (if rewind then CMD_PROCESS32FIRST else CMD_PROCESS32NEXT) = CMD_PROCESS32FIRST
      then resetProcessIterator (cl_state c) h else cl_state c) h = (p, st)"
    using st by (cases rewind) simp_all
  from IterateProcesses_exchange [OF assms(1) True this, of rest out] ref show ?thesis
    by (simp flip: spec_of_objects [OF ref(3) refl])
next
  case False
  then have "next_process rewind (objects_of (cl_state c)) h = (None, objects_of (cl_state c))"
    using objects_of_queries(3) [OF assms(2), of h] by (auto simp: next_process_def split: option.split object.split)
  then show ?thesis
    using Iterate_absent_exchange(1) [OF assms(1) False] assms(2) by simp
qed

lemma NextModule_refines:
  assumes "open_connection c" "table_ok (cl_state c)"
  shows "implements rest out c (serve ops E (NextModule rewind h) (spec_of c))
    (Inr (True, handleCommandIterateModulesNext (if rewind then CMD_MODULE32FIRST else CMD_MODULE32NEXT) (exchange (le_bytes 4 h @ rest) out c)))"
proof (cases "containsMemoryRegionHandle (cl_state c) h")
  case True
  obtain r st where st: "nextMemoryRegion (if rewind then resetModuleIterator (cl_state c) h else cl_state c) h = (r, st)"
    by fastforce
  then have ref: "table_ok st" "next_module rewind (objects_of (cl_state c)) h = (r, objects_of st)" "lastHandleID st = lastHandleID (cl_state c)"
    using nextMemoryRegion_refines [OF assms(2), of rewind h] by simp_all
  have "nextMemoryRegion (if (if rewind then CMD_MODULE32FIRST else CMD_MODULE32NEXT) = CMD_MODULE32FIRST
      then resetModuleIterator (cl_state c) h else cl_state c) h = (r, st)"
    using st by (cases rewind) simp_all
  from IterateModules_exchange [OF assms(1) True this, of rest out] ref show ?thesis
    by (simp flip: spec_of_objects [OF ref(3) refl])
next
  case False
  then have "next_module rewind (objects_of (cl_state c)) h = (None, objects_of (cl_state c))"
    using objects_of_queries(4) [OF assms(2), of h] by (auto simp: next_module_def split: option.split object.split)
  then show ?thesis
    using Iterate_absent_exchange(2) [OF assms(1) False] assms(2) by simp
qed

text \<open>Memory and regions of an opened process.\<close>

lemma opened_queries:
  assumes "table_ok st"
  shows "opened_process (objects_of st) h = None \<Longrightarrow> \<not> containsProcessIDHandle st h"
    and "opened_process (objects_of st) h = Some p \<Longrightarrow> containsProcessIDHandle st h \<and> getProcessID st h = p"
  using objects_of_queries(1,2) [OF assms, of h] by simp_all

lemma ReadMemory_refines:
  assumes "open_connection c" "table_ok (cl_state c)"
  shows "implements rest out c (serve ops E (ReadMemory h a n compress) (spec_of c))
    (handleCommandReadProcessMemory ops (exchange (read_request h a n compress @ rest) out c))"
  unfolding ReadProcessMemory_exchange [OF assms(1)]
  using assms(2) opened_queries [OF assms(2), of h]
  by (cases "opened_process (objects_of (cl_state c)) h"; cases "mo_read ops (cl_memory c) (getProcessID (cl_state c) h) a (ucast n)")
    (auto split: prod.splits)

lemma WriteMemory_refines:
  assumes "open_connection c" "table_ok (cl_state c)" "length bs < 2 ^ 31"
  shows "implements rest out c (serve ops E (WriteMemory h a bs) (spec_of c))
    (handleCommandWriteProcessMemory ops E (exchange (write_request h a bs @ rest) out c))"
proof -
  obtain w m where w: "mo_write ops (cl_memory c) bs (getProcessID (cl_state c) h) a (word_of_nat (length bs)) = (w, m)"
    by fastforce
  show ?thesis
    unfolding WriteProcessMemory_exchange [OF assms(1,3) w]
    using assms(2) opened_queries [OF assms(2), of h] w
    by (cases "opened_process (objects_of (cl_state c)) h") auto
qed

lemma QueryRegion_refines:
  assumes "open_connection c" "table_ok (cl_state c)"
  shows "implements rest out c (serve ops E (QueryRegion name h a) (spec_of c))
    (Inr (handleCommandGetRegionInfo ops E (if name then CMD_GETREGIONINFO else CMD_VIRTUALQUERYEX) (exchange (le_bytes 4 h @ le_bytes 8 a @ rest) out c)))"
proof -
  obtain rs m where rs: "mo_getModuleSnapshot ops (cl_memory c) (getProcessID (cl_state c) h) = (rs, m)"
    by fastforce
  show ?thesis
    unfolding GetRegionInfo_exchange [OF assms(1) rs]
    using assms(2) opened_queries [OF assms(2), of h] rs
    by (cases "opened_process (objects_of (cl_state c)) h"; cases name) auto
qed

lemma QueryRegions_refines:
  assumes "open_connection c" "table_ok (cl_state c)"
  shows "implements rest out c (serve ops E (QueryRegions h flags) (spec_of c))
    (Inr (handleCommandVirtualQueryExFull ops E (exchange (le_bytes 4 h @ flags # rest) out c)))"
proof -
  obtain rs m where rs: "mo_getModuleSnapshot ops (cl_memory c) (getProcessID (cl_state c) h) = (rs, m)"
    by fastforce
  show ?thesis
    unfolding VirtualQueryExFull_exchange [OF assms(1) rs]
    using assms(2) opened_queries [OF assms(2), of h] rs
    by (cases "opened_process (objects_of (cl_state c)) h") auto
qed

text \<open>Every command.\<close>

lemma command_refines:
  assumes "open_connection c" "table_ok (cl_state c)" "unat (lastHandleID (cl_state c)) < 2 ^ 31 - 1" "small_snapshots ops"
    and "request_ok r"
  shows "implements rest out c (serve ops E r (spec_of c))
    (dispatchCommand ops E (hd (encode r)) (exchange (tl (encode r) @ rest) out c))"
proof (cases r)
  case (OpenProcess p)
  then show ?thesis using OpenProcess_refines [OF assms(1-3)] by (simp add: dispatchCommand_def del: serve.simps)
next
  case (CloseHandle h)
  then show ?thesis using CloseHandle_refines [OF assms(1,2)] by (simp add: dispatchCommand_def del: serve.simps)
next
  case (Snapshot flags p)
  then show ?thesis using Snapshot_refines [OF assms(1-4)] by (simp add: dispatchCommand_def del: serve.simps)
next
  case (SnapshotEx flags p)
  then show ?thesis using SnapshotEx_refines [OF assms(1-4)] by (simp add: dispatchCommand_def del: serve.simps)
next
  case (NextProcess rewind h)
  then show ?thesis using NextProcess_refines [OF assms(1,2), where rewind = rewind]
    by (cases rewind) (simp_all add: dispatchCommand_def del: serve.simps)
next
  case (NextModule rewind h)
  then show ?thesis using NextModule_refines [OF assms(1,2), where rewind = rewind]
    by (cases rewind) (simp_all add: dispatchCommand_def del: serve.simps)
next
  case (ReadMemory h a n compress)
  then show ?thesis using ReadMemory_refines [OF assms(1,2)] by (simp add: dispatchCommand_def del: serve.simps)
next
  case (WriteMemory h a bs)
  then show ?thesis using WriteMemory_refines [OF assms(1,2), of bs] assms(5) by (simp add: dispatchCommand_def del: serve.simps)
next
  case (QueryRegion name h a)
  then show ?thesis using QueryRegion_refines [OF assms(1,2), where name = name]
    by (cases name) (simp_all add: dispatchCommand_def del: serve.simps)
next
  case (QueryRegions h flags)
  then show ?thesis using QueryRegions_refines [OF assms(1,2)] by (simp add: dispatchCommand_def del: serve.simps)
next
  case (SetConnectionName name)
  then show ?thesis
    using assms SetConnectionName_exchange [OF assms(1), of name E rest out] by (simp add: dispatchCommand_def kept_open_def)
next
  case (SymbolList path)
  then show ?thesis
    using assms GetSymbolList_exchange [OF assms(1), of path E rest out] by (simp add: dispatchCommand_def kept_open_def)
next
  case (Closing command)
  then show ?thesis using closing_command [of command ops E "exchange rest out c"] assms(2,5) by simp
qed (use assms in \<open>simp_all add: dispatchCommand_def version_reply_def handleCommandGetVersion_def handleCommandGetABI_def
      handleCommandGetOptions_def handleCommandStartDebug_def client_io\<close>)

section \<open>Sessions\<close>

lemma encode_nonempty: "encode r = hd (encode r) # tl (encode r)"
  by (cases r) auto

lemma serve_given: "serve ops E r s = Inr (k, reply, s') \<Longrightarrow> sp_given s' \<le> Suc (sp_given s)"
  by (cases r) (auto simp: draw_def take_snapshot_def Let_def split: if_splits sum.splits prod.splits option.splits)

text \<open>
  The connection after a session. When a request closed it, the loop has returned with the socket closed and the later
  requests unread; otherwise the loop goes on, as \<open>goes_on\<close>, on the connection that has sent the replies, stands for the
  specified state and has the rest of the stream before it.
\<close>

definition served_as ::
    "('m client \<Rightarrow> (fault + 'm client) option) \<Rightarrow> byte list \<Rightarrow> byte list \<Rightarrow> 'm client
       \<Rightarrow> fault + bool \<times> byte list \<times> request list \<times> 'm spec \<Rightarrow> (fault + 'm client) option \<Rightarrow> bool" where
  "served_as goes_on rest out c result actual \<longleftrightarrow>
     (case result of
        Inl e \<Rightarrow> actual = Some (Inl e)
      | Inr (keep, replies, left, s) \<Rightarrow>
          (\<exists>c'. spec_of c' = s \<and> table_ok (cl_state c') \<and> cl_socket c' = cl_socket c
             \<and> (if keep then left = [] \<and> actual = goes_on (exchange rest (out @ replies) c')
                else actual = Some (Inr (close_client (exchange (concat (map encode left) @ rest) (out @ replies) c'))))))"

lemma session_served:
  assumes "open_connection c" "table_ok (cl_state c)" "small_snapshots ops" "\<forall>r \<in> set rs. request_ok r"
    and "unat (lastHandleID (cl_state c)) + length rs < 2 ^ 31" "\<And>j. k \<le> j \<Longrightarrow> j < k + length rs \<Longrightarrow> \<not> stop j"
  shows "served_as (handleClientConnection stop ops E (k + length rs)) rest out c (session ops E k rs (spec_of c))
    (handleClientConnection stop ops E k (exchange (concat (map encode rs) @ rest) out c))"
  using assms
proof (induction rs arbitrary: c k out)
  case Nil
  then show ?case by (auto simp: served_as_def)
next
  case (Cons r rs)
  let ?rest = "concat (map encode rs) @ rest"
  have "implements ?rest out c (serve ops (E k) r (spec_of c))
      (dispatchCommand ops (E k) (hd (encode r)) (exchange (tl (encode r) @ ?rest) out c))"
    using Cons.prems by (intro command_refines) simp_all
  moreover have "exchange (concat (map encode (r # rs)) @ rest) out c = exchange (hd (encode r) # tl (encode r) @ ?rest) out c"
    by (metis append_Cons append_assoc concat.simps(2) encode_nonempty list.simps(9))
  ultimately have impl: "implements ?rest out c (serve ops (E k) r (spec_of c))
      (dispatchCommand ops (E k) (hd (encode r)) (exchange (tl (encode r) @ ?rest) out c))"
    and round: "connection_round ops (E k) (exchange (concat (map encode (r # rs)) @ rest) out c) =
      (case dispatchCommand ops (E k) (hd (encode r)) (exchange (tl (encode r) @ ?rest) out c) of
         Inl e \<Rightarrow> Inl e | Inr (keep, c) \<Rightarrow> Inr (keep, if keep then c else close_client c))"
    using connection_round_command [OF Cons.prems(1), of ops "E k" "hd (encode r)"] by simp_all
  have stop: "\<not> stop k"
    using Cons.prems(6) by simp
  show ?case
  proof (cases "serve ops (E k) r (spec_of c)")
    case (Inl e)
    with impl round stop show ?thesis
      by (simp add: served_as_def implements_def handleClientConnection.simps [of stop ops E k])
  next
    case (Inr x)
    then obtain keep reply s where serve: "serve ops (E k) r (spec_of c) = Inr (keep, reply, s)"
      by (cases x) auto
    with impl obtain c' where c': "dispatchCommand ops (E k) (hd (encode r)) (exchange (tl (encode r) @ ?rest) out c)
        = Inr (keep, exchange ?rest (out @ reply) c')" "spec_of c' = s" "table_ok (cl_state c')" "cl_socket c' = cl_socket c"
      by (auto simp: implements_def)
    show ?thesis
    proof (cases keep)
      case False
      with serve c' handleClientConnection_last [of stop k ops E, OF stop] round show ?thesis
        by (auto simp: served_as_def)
    next
      case True
      have "sp_given s \<le> Suc (sp_given (spec_of c))"
        by (rule serve_given [OF serve])
      then have room: "unat (lastHandleID (cl_state c')) + length rs < 2 ^ 31"
        using Cons.prems(5) c'(2) by auto
      have "open_connection c'"
        using Cons.prems(1) c'(4) by (simp add: open_connection_def)
      then have "served_as (handleClientConnection stop ops E (Suc k + length rs)) rest (out @ reply) c' (session ops E (Suc k) rs (spec_of c'))
          (handleClientConnection stop ops E (Suc k) (exchange ?rest (out @ reply) c'))"
        using Cons.prems(3,4,6) c'(3) room by (intro Cons.IH) simp_all
      moreover have "handleClientConnection stop ops E k (exchange (concat (map encode (r # rs)) @ rest) out c)
          = handleClientConnection stop ops E (Suc k) (exchange ?rest (out @ reply) c')"
        by (rule handleClientConnection_step [of stop k, OF stop]) (use round c'(1) True in simp)
      ultimately show ?thesis
        using serve True c'(2,4) by (auto simp: served_as_def split: sum.splits prod.splits)
    qed
  qed
qed


section \<open>Properties\<close>

text \<open>
  C2: a connection serves a session as specified. Take any sequence of well-formed requests, \<open>CMD_GETARCHITECTURE\<close> not among
  them, sent in one stream on an open connection, any well-formed handle table with fewer than \<open>2 ^ 31\<close> handles given out
  by then, and an adapter whose snapshots have fewer than \<open>2 ^ 31\<close> entries; \<open>bStop\<close> is not seen set while the requests are
  served (\<open>main\<close> never sets it). The loop sends exactly the specified replies and consumes exactly the requests it
  serves, and the handle table, the adapter and the name then stand for the specified state. At the first request that closes
  the connection the loop returns with the socket closed; if there is none it has served all of them in one round
  each and goes on with the rest of the stream. A fault of the adapter or of a request is a fault of the loop.
\<close>

theorem session_refines:
  assumes "open_connection c" "table_ok (cl_state c)" "small_snapshots ops" "\<forall>r \<in> set rs. request_ok r"
    and "unat (lastHandleID (cl_state c)) + length rs < 2 ^ 31" "\<forall>k < length rs. \<not> stop k"
  shows "served_as (handleClientConnection stop ops E (length rs)) rest out c (session ops E 0 rs (spec_of c))
    (handleClientConnection stop ops E 0 (exchange (concat (map encode rs) @ rest) out c))"
  using session_served [OF assms(1-5), of 0 stop] assms(6) by simp

theorem session_refines_witness:
  "\<exists>c'. handleClientConnection (\<lambda>k. False) echo_ops (\<lambda>k. plain_env Linux) 0
      (exchange (encode (OpenProcess 9) @ encode (ReadMemory 2 5 2 0) @ encode (Closing CMD_CLOSECONNECTION)) [] opened_client)
    = Some (Inr (close_client (exchange [] (le_bytes 4 (2 :: handle) @ le_bytes 4 (2 :: u32) @ [7, 7]) c')))"
proof -
  let ?rs = "[OpenProcess 9, ReadMemory 2 5 2 0, Closing CMD_CLOSECONNECTION]"
  have given: "unat (lastHandleID (cl_state opened_client)) = 1"
    by (simp add: opened_client_def)
  have obs: "objects_of (cl_state opened_client) = [1 \<mapsto> Opened 4]"
    by (auto simp: opened_client_def new_ClientState_def objects_of_def open_pids_def process_cursor_def module_cursor_def cursor_of_def fun_eq_iff)
  have "table_ok (cl_state opened_client)"
    using opened_client_simps(7) given
    by (auto simp: table_ok_def obs at_most_one_def)
      (simp_all add: opened_client_def new_ClientState_def process_cursor_def module_cursor_def cursor_of_def)
  moreover have "small_snapshots echo_ops"
    by (simp add: small_snapshots_def echo_ops_def)
  moreover have two: "replicate 2 x = [x, x]" for x :: byte
    by (simp add: numeral_2_eq_2)
  have "session echo_ops (\<lambda>k. plain_env Linux) 0 ?rs (spec_of opened_client)
      = Inr (False, le_bytes 4 (2 :: handle) @ le_bytes 4 (2 :: u32) @ [7, 7], [],
          (spec_of opened_client)\<lparr>sp_given := 2, sp_objects := [1 \<mapsto> Opened 4, 2 \<mapsto> Opened 9]\<rparr>)"
    by (simp add: draw_def given obs opened_process_def echo_ops_def opened_client_simps two)
  ultimately show ?thesis
    using session_refines [of opened_client echo_ops ?rs "\<lambda>k. False" "\<lambda>k. plain_env Linux" "[]" "[]"] opened_client_simps(1) given
    by (auto simp: served_as_def numeral_3_eq_3 simp del: encode.simps)
qed

end
