(* ===== verification/Kinds.thy ===== *)
theory Kinds
  imports Server Objects
begin

text \<open>
  The kinds of the handles of the whole server: what a handle stands for, without the position of its iteration. Kinds are
  followed through \<open>ClientState.cpp\<close>'s operations, the commands that use them, and the rounds of
  connections side by side. A handle has one kind from the moment it is drawn until a client asks to close it.
\<close>

datatype kind = Process pid | Process_list "ProcessInfo list" | Module_list "MemoryRegion list"

fun kind_of :: "object \<Rightarrow> kind" where
  "kind_of (Opened p) = Process p"
| "kind_of (Processes ps i) = Process_list ps"
| "kind_of (Modules rs i) = Module_list rs"

definition kinds :: "client_state \<Rightarrow> handle \<rightharpoonup> kind" where
  "kinds st h = map_option kind_of (objects_of st h)"

text \<open>
  What a step may do to the kinds, for the handle that it was asked to close, if any: at most one handle is affected, either
  that one, which is gone then, or the next one to be drawn, which had no kind before.
\<close>

definition kept :: "handle option \<Rightarrow> client_state \<Rightarrow> client_state \<Rightarrow> bool" where
  "kept request st st' \<longleftrightarrow>
     (\<exists>h k. kinds st' = (kinds st)(h := k)
       \<and> (k = kinds st h \<or> k = None \<and> request = Some h \<or> kinds st h = None \<and> h = new_handle st))"

definition drawn_by_one :: "client_state \<Rightarrow> client_state \<Rightarrow> bool" where
  "drawn_by_one st st' \<longleftrightarrow> unat (lastHandleID st') \<le> Suc (unat (lastHandleID st))"


section \<open>What an operation does to the kinds\<close>

lemma keptI:
  assumes "objects_of st' = objects_of st"
  shows "kept request st st'"
  unfolding kept_def using assms by (intro exI [of _ "0 :: handle"] exI [of _ "kinds st 0"]) (simp add: kinds_def fun_eq_iff)

lemma kept_at:
  assumes "objects_of st' = (objects_of st)(h := ob)"
    and "map_option kind_of ob = kinds st h \<or> ob = None \<and> request = Some h \<or> kinds st h = None \<and> h = new_handle st"
  shows "kept request st st'"
  unfolding kept_def using assms(2)
  by (intro exI [of _ h] exI [of _ "map_option kind_of ob"]) (auto simp: kinds_def assms(1) fun_eq_iff)

lemma drawing_kept:
  assumes "table_ok st" "unat (lastHandleID st) < 2 ^ 31 - 1" "stores st ob (h, st')"
  shows "table_ok st' \<and> drawn_by_one st st' \<and> kept request st st'"
proof -
  have "objects_of st (new_handle st) = None"
    using generateHandle_new(3-5) [OF assms(1,2)] objects_of_cases(4) [OF assms(1)] by simp
  then show ?thesis
    using assms(3) by (auto simp: stores_def drawn_by_one_def kinds_def intro: kept_at)
qed

lemma next_process_kinds:
  assumes "next_process rewind (objects_of st) h = (p, objects_of st')"
  shows "kept request st st'"
proof (cases "\<exists>ps i. objects_of st h = Some (Processes ps i)")
  case True
  then obtain ps i where "objects_of st h = Some (Processes ps i)" by blast
  with assms have "objects_of st' = (objects_of st)(h \<mapsto> Processes ps (snd (take_entry ps (if rewind then 0 else i))))"
    by (auto simp: next_process_def split: prod.splits)
  then show ?thesis
    by (rule kept_at) (simp add: kinds_def \<open>objects_of st h = _\<close>)
next
  case False
  with assms show ?thesis
    by (intro keptI) (auto simp: next_process_def split: option.splits object.splits)
qed

lemma next_module_kinds:
  assumes "next_module rewind (objects_of st) h = (r, objects_of st')"
  shows "kept request st st'"
proof (cases "\<exists>rs i. objects_of st h = Some (Modules rs i)")
  case True
  then obtain rs i where "objects_of st h = Some (Modules rs i)" by blast
  with assms have "objects_of st' = (objects_of st)(h \<mapsto> Modules rs (snd (take_entry rs (if rewind then 0 else i))))"
    by (auto simp: next_module_def split: prod.splits)
  then show ?thesis
    by (rule kept_at) (simp add: kinds_def \<open>objects_of st h = _\<close>)
next
  case False
  with assms show ?thesis
    by (intro keptI) (auto simp: next_module_def split: option.splits object.splits)
qed

lemma nextProcessInfo_kept:
  assumes "table_ok st" "nextProcessInfo (if rewind then resetProcessIterator st h else st) h = (p, st')"
  shows "table_ok st' \<and> drawn_by_one st st' \<and> kept request st st'"
  using nextProcessInfo_refines [OF assms(1), of rewind h] assms(2)
  by (auto simp: Let_def drawn_by_one_def intro: next_process_kinds [OF sym])

lemma nextMemoryRegion_kept:
  assumes "table_ok st" "nextMemoryRegion (if rewind then resetModuleIterator st h else st) h = (r, st')"
  shows "table_ok st' \<and> drawn_by_one st st' \<and> kept request st st'"
  using nextMemoryRegion_refines [OF assms(1), of rewind h] assms(2)
  by (auto simp: Let_def drawn_by_one_def intro: next_module_kinds [OF sym])

lemma table_op_kept:
  assumes "table_op request st st'" "table_ok st" "unat (lastHandleID st) < 2 ^ 31 - 1"
  shows "table_ok st' \<and> drawn_by_one st st' \<and> kept request st st'"
proof -
  note drawn = drawing_kept [OF assms(2,3)]
  from assms(1) show ?thesis
  proof cases
    case nothing_done
    then show ?thesis using assms(2) by (simp add: drawn_by_one_def keptI)
  next
    case (opened p h)
    then show ?thesis using drawn storeOpenProcess_refines [OF assms(2,3), of p] by simp
  next
    case (processes_stored ps h)
    then show ?thesis using drawn storeProcessSnapshot_refines [OF assms(2,3), of ps] by simp
  next
    case (modules_stored rs h)
    then show ?thesis using drawn storeModuleSnapshot_refines [OF assms(2,3), of rs] by simp
  next
    case (closed h)
    then show ?thesis
      using closeHandle_refines [OF assms(2), of h] by (auto simp: drawn_by_one_def intro: kept_at)
  next
    case (process_advanced h p)
    then show ?thesis using nextProcessInfo_kept [OF assms(2), of False h p] by simp
  next
    case (process_rewound h p)
    then show ?thesis using nextProcessInfo_kept [OF assms(2), of True h p] by simp
  next
    case (module_advanced h r)
    then show ?thesis using nextMemoryRegion_kept [OF assms(2), of False h r] by simp
  next
    case (module_rewound h r)
    then show ?thesis using nextMemoryRegion_kept [OF assms(2), of True h r] by simp
  qed
qed


section \<open>Kinds in a running server\<close>

text \<open>The handle that a step was asked to close: by the request of the connection that it serves.\<close>

lemma server_step_kept:
  assumes "small_snapshots ops" "server_step ops s s'" "table_ok (ss_table s)" "unat (lastHandleID (ss_table s)) < 2 ^ 31 - 1"
  obtains request where "table_ok (ss_table s')" "drawn_by_one (ss_table s) (ss_table s')" "kept request (ss_table s) (ss_table s')"
    "request = None \<or> (\<exists>i x. ss_conns s i = Some x \<and> request = close_request (fst x) \<and> (\<forall>j. j \<noteq> i \<longrightarrow> ss_conns s' j = ss_conns s j))"
  using assms(2)
proof cases
  case (accepted i sk)
  with that [of None] table_op_kept [OF table_op.nothing_done assms(3,4)] show ?thesis by simp
next
  case (served i x E c)
  have "table_ok (cl_state c) \<and> drawn_by_one (ss_table s) (cl_state c) \<and> kept (close_request (fst x)) (ss_table s) (cl_state c)"
    using table_op_kept [OF round_table [OF assms(1) served(3)]] assms(3,4) by (simp add: conn_client_def)
  then show ?thesis
    using served(1,2) by (intro that [of "close_request (fst x)"] disjI2 exI [of _ i] exI [of _ x]) simp_all
next
  case (ended i x E c)
  have "table_ok (cl_state c) \<and> drawn_by_one (ss_table s) (cl_state c) \<and> kept (close_request (fst x)) (ss_table s) (cl_state c)"
    using table_op_kept [OF round_table [OF assms(1) ended(3)]] assms(3,4) by (simp add: conn_client_def)
  then show ?thesis
    using ended(1,2) by (intro that [of "close_request (fst x)"] disjI2 exI [of _ i] exI [of _ x]) simp_all
qed

lemma server_rounds:
  assumes "small_snapshots ops" "(server_step ops ^^ n) (new_server_sys m) s" "n < 2 ^ 31"
  shows "table_ok (ss_table s) \<and> unat (lastHandleID (ss_table s)) \<le> n"
  using assms(2,3)
proof (induction n arbitrary: s)
  case 0
  then have "ss_table s = new_ClientState"
    by (auto simp: new_server_sys_def)
  then show ?case
    using table_ok_new(1) by (simp, simp add: new_ClientState_def)
next
  case (Suc n)
  then obtain s' where s': "(server_step ops ^^ n) (new_server_sys m) s'" "server_step ops s' s"
    by auto
  with Suc have ih: "table_ok (ss_table s')" "unat (lastHandleID (ss_table s')) \<le> n"
    by auto
  with Suc.prems(2) have "unat (lastHandleID (ss_table s')) < 2 ^ 31 - 1"
    by simp
  from server_step_kept [OF assms(1) s'(2) ih(1) this] ih(2) show ?case
    unfolding drawn_by_one_def by (metis le_trans Suc_le_mono)
qed

text \<open>A server whose only client opens process 4, as handle 1, and closes the handle again.\<close>

lemma open_then_close:
  "storeOpenProcess new_ClientState 4 = (1, st) \<Longrightarrow>
   \<exists>s s'. (server_step echo_ops ^^ 2) (new_server_sys 0) s \<and> server_step echo_ops s s'
     \<and> ss_table s = st \<and> ss_table s' = closeHandle st 1"
proof -
  assume opened: "storeOpenProcess new_ClientState 4 = (1, st)"
  let ?close = "CMD_CLOSEHANDLE # le_bytes 4 (1 :: handle)"
  let ?sk = "plain_socket\<lparr>sk_in := CMD_OPENPROCESS # le_bytes 4 (4 :: pid) @ ?close\<rparr>"
  let ?c = "\<lparr>cl_socket = plain_socket, cl_connectionName = '''', cl_memory = 0 :: nat, cl_state = new_ClientState\<rparr>"
  let ?c1 = "exchange ?close (le_bytes 4 (1 :: handle)) (?c\<lparr>cl_state := st\<rparr>)"
  let ?c2 = "exchange [] (le_bytes 4 (1 :: u32)) ((exchange [] (le_bytes 4 (1 :: handle)) ?c)\<lparr>cl_state := closeHandle st 1\<rparr>)"
  let ?sys = "\<lambda>st conns. \<lparr>ss_table = st, ss_memory = 0 :: nat, ss_conns = conns\<rparr>"
  define s1 s2 s3 where "s1 = ?sys new_ClientState [0 \<mapsto> (?sk, '''')]" "s2 = ?sys st [0 \<mapsto> (cl_socket ?c1, '''')]"
    "s3 = ?sys (closeHandle st 1) [0 \<mapsto> (cl_socket ?c2, '''')]"
  have open': "open_connection ?c" "open_connection (?c\<lparr>cl_state := st\<rparr>)" "open_connection ((exchange [] (le_bytes 4 (1 :: handle)) ?c)\<lparr>cl_state := st\<rparr>)"
    by (simp_all add: open_connection_def connected_def plain_socket_def exchange_def)
  have step1: "server_step echo_ops (new_server_sys 0) s1"
    using server_step.accepted [of "new_server_sys 0" 0 echo_ops ?sk] by (simp add: new_server_sys_def s1_s2_s3_def)
  have r2: "connection_round echo_ops (plain_env Linux) (exchange (CMD_OPENPROCESS # le_bytes 4 (4 :: pid) @ ?close) [] ?c) = Inr (True, ?c1)"
    using OpenProcess_exchange [OF open'(1), of 4 1 st ?close "[]"] opened open'(1)
    by (simp add: connection_round_command dispatchCommand_def)
  have e2: "exchange (CMD_OPENPROCESS # le_bytes 4 (4 :: pid) @ ?close) [] ?c = conn_client s1 (?sk, '''')"
    by (simp add: exchange_def conn_client_def s1_s2_s3_def plain_socket_def)
  have step2: "server_step echo_ops s1 s2"
    using server_step.served [of s1 0 "(?sk, '''')" echo_ops "plain_env Linux" ?c1, OF _ r2 [unfolded e2]] by (simp add: s1_s2_s3_def exchange_def)
  let ?d = "(exchange [] (le_bytes 4 (1 :: handle)) ?c)\<lparr>cl_state := st\<rparr>"
  have r3: "connection_round echo_ops (plain_env Linux) (exchange ?close [] ?d) = Inr (True, ?c2)"
    using CloseHandle_exchange [OF open'(3), of 1 "[]" "[]"] open'(3)
    by (simp add: connection_round_command dispatchCommand_def)
  have e3: "exchange ?close [] ?d = conn_client s2 (cl_socket ?c1, '''')"
    by (simp add: exchange_def conn_client_def s1_s2_s3_def plain_socket_def)
  have step3: "server_step echo_ops s2 s3"
    using server_step.served [of s2 0 "(cl_socket ?c1, '''')" echo_ops "plain_env Linux" ?c2, OF _ r3 [unfolded e3]] by (simp add: s1_s2_s3_def exchange_def)
  have two: "(server_step echo_ops ^^ 2) (new_server_sys 0) s2"
    using step1 step2 by (auto simp: numeral_2_eq_2)
  show ?thesis
    using two step3 by (intro exI [of _ s2] exI [of _ s3]) (simp add: s1_s2_s3_def)
qed

section \<open>Properties\<close>

text \<open>
  C15: handles are well typed in a running server. After any rounds of any connections side by side, fewer than \<open>2 ^ 31 - 1\<close>
  of them, every handle stands for at most one opened process, process list or module list. A further round
  changes what at most one handle stands for, and only in one of two ways: the handle is the next one to be drawn and stood for
  nothing, or it stands for nothing afterwards and the round has served a connection whose request was
  \<open>CMD_CLOSEHANDLE\<close> with this handle. So a handle keeps its process or its list until a client asks to close it, and
  closing one takes no other away.
\<close>

theorem handles_keep_their_kind:
  assumes "small_snapshots ops" "(server_step ops ^^ n) (new_server_sys m) s" "n < 2 ^ 31 - 1" "server_step ops s s'"
  shows "table_ok (ss_table s) \<and> table_ok (ss_table s')
    \<and> (\<forall>h. kinds (ss_table s') h \<noteq> kinds (ss_table s) h \<longrightarrow>
         (\<forall>h'. h' \<noteq> h \<longrightarrow> kinds (ss_table s') h' = kinds (ss_table s) h')
         \<and> (kinds (ss_table s) h = None \<and> h = new_handle (ss_table s)
           \<or> kinds (ss_table s') h = None
             \<and> (\<exists>i sk name rest. ss_conns s i = Some (sk, name) \<and> sk_in sk = CMD_CLOSEHANDLE # rest \<and> h = le_word (take 4 rest)
               \<and> (\<forall>j. j \<noteq> i \<longrightarrow> ss_conns s' j = ss_conns s j))))"
proof -
  have s: "table_ok (ss_table s)" "unat (lastHandleID (ss_table s)) < 2 ^ 31 - 1"
    using server_rounds [OF assms(1,2)] assms(3) by auto
  from server_step_kept [OF assms(1,4) s] obtain request where step: "table_ok (ss_table s')" "kept request (ss_table s) (ss_table s')"
      "request = None \<or> (\<exists>i x. ss_conns s i = Some x \<and> request = close_request (fst x) \<and> (\<forall>j. j \<noteq> i \<longrightarrow> ss_conns s' j = ss_conns s j))" .
  from step(2) obtain h k where hk: "kinds (ss_table s') = (kinds (ss_table s))(h := k)"
      "k = kinds (ss_table s) h \<or> k = None \<and> request = Some h \<or> kinds (ss_table s) h = None \<and> h = new_handle (ss_table s)"
    unfolding kept_def by blast
  have asked: "\<exists>i sk name rest. ss_conns s i = Some (sk, name) \<and> sk_in sk = CMD_CLOSEHANDLE # rest \<and> h = le_word (take 4 rest)
      \<and> (\<forall>j. j \<noteq> i \<longrightarrow> ss_conns s' j = ss_conns s j)" if "request = Some h"
    using step(3) that unfolding close_request_def by (fastforce split: list.splits if_splits)
  show ?thesis
    using s(1) step(1) hk asked by (auto split: if_splits)
qed

text \<open>A client opens process 4 as handle 1, then closes handle 1: the handle has its kind before the step and none after it.\<close>

theorem handles_keep_their_kind_witness:
  "\<exists>s s'. (server_step echo_ops ^^ 2) (new_server_sys 0) s \<and> server_step echo_ops s s'
     \<and> kinds (ss_table s) 1 = Some (Process 4) \<and> kinds (ss_table s') 1 = None \<and> (\<forall>h. h \<noteq> 1 \<longrightarrow> kinds (ss_table s') h = kinds (ss_table s) h)"
proof -
  let ?st = "snd (storeOpenProcess new_ClientState 4)"
  have new: "unat (lastHandleID new_ClientState) < 2 ^ 31 - 1" "new_handle new_ClientState = 1"
    by (simp_all add: new_ClientState_def new_handle_def)
  note stored = storeOpenProcess_refines [OF table_ok_new(1) new(1), of 4]
  have opened: "storeOpenProcess new_ClientState 4 = (1, ?st)" "kinds ?st 1 = Some (Process 4)"
    using stored new(2) by (auto simp: stores_def kinds_def prod_eq_iff)
  obtain s s' where s: "(server_step echo_ops ^^ 2) (new_server_sys 0) s" "server_step echo_ops s s'"
      "ss_table s = ?st" "ss_table s' = closeHandle ?st 1"
    using open_then_close [OF opened(1)] by blast
  have gone: "kinds (ss_table s') 1 = None"
    using closeHandle_refines [of ?st 1] stored s(4) by (simp add: kinds_def stores_def)
  have "small_snapshots echo_ops"
    by (simp add: small_snapshots_def echo_ops_def)
  note step = handles_keep_their_kind [OF this s(1) _ s(2)]
  have "kinds (ss_table s) 1 = Some (Process 4)"
    using opened(2) s(3) by simp
  moreover from this step gone have "\<forall>h. h \<noteq> 1 \<longrightarrow> kinds (ss_table s') h = kinds (ss_table s) h"
    by force
  ultimately show ?thesis
    using s(1,2) gone by blast
qed

end
