(* ===== verification/Addresses.thy ===== *)
theory Addresses
  imports Client
begin

text \<open>
  Addresses and names of clients, as they appear in the log: \<^verbatim>\<open>Client::getClientAddress\<close>, the identifier that
  \<^verbatim>\<open>Client::dispatchCommand\<close> composes, and the address that \<^verbatim>\<open>main.cpp\<close> binds. An address has its fields as
  they lie in memory, in network byte order, on a little-endian machine.
\<close>


section \<open>Socket addresses\<close>

record sockaddr_in =
  sin_port :: u16
  sin_addr :: u32

text \<open>\<open>htons\<close> and \<open>ntohs\<close> swap the two bytes.\<close>

definition htons :: "u16 \<Rightarrow> u16" where
  "htons x = le_word (rev (le_bytes 2 x))"

text \<open>The address that \<open>main\<close> binds: the flag \<open>--port\<close> has 32 bits, \<open>htons\<close> takes 16 of them.\<close>

definition main_address :: "u32 \<Rightarrow> sockaddr_in" where
  "main_address port = \<lparr>sin_port = htons (ucast port), sin_addr = 0\<rparr>"

text \<open>
  \<open>inet_ntop\<close> writes the four bytes as decimal numbers between dots, and a terminating NUL; it leaves the buffer alone
  when they do not fit.
\<close>

definition dotted :: "byte list \<Rightarrow> string" where
  "dotted bs = (case bs of [] \<Rightarrow> ''''
     | b # bs \<Rightarrow> to_string_nat (unat b) @ concat (map (\<lambda>b. CHR ''.'' # to_string_nat (unat b)) bs))"

definition inet_ntop :: "u32 \<Rightarrow> byte list \<Rightarrow> byte list" where
  "inet_ntop a buf =
     (let text = to_bytes (dotted (le_bytes 4 a)) @ [0]
      in if length text \<le> length buf then overwrite buf text else buf)"

abbreviation INET_ADDRSTRLEN :: nat where
  "INET_ADDRSTRLEN \<equiv> 16"

definition getClientAddress :: "sockaddr_in \<Rightarrow> string" where
  "getClientAddress client = c_str (inet_ntop (sin_addr client) (replicate INET_ADDRSTRLEN 0))"


section \<open>The identifier of a connection\<close>

text \<open>
  \<open>threadId\<close> is what a stream prints for a thread's id. A space is put between it and the connection's name before the
  test for the empty string.
\<close>

definition client_identifier :: "string \<Rightarrow> 'm client \<Rightarrow> string" where
  "client_identifier threadId c =
     (let identifier = threadId @ '' '' @ cl_connectionName c
      in if identifier = '''' then ''<anonymous>'' else identifier)"

lemma client_identifier_simp: "client_identifier threadId c = threadId @ '' '' @ cl_connectionName c"
  by (simp add: client_identifier_def)


section \<open>Properties\<close>

lemma htons_htons [simp]: "htons (htons x) = x"
proof -
  have "le_bytes 2 (htons x) = rev (le_bytes 2 x)"
    using le_bytes_le_word [of "rev (le_bytes 2 x)", where 'a = 16] by (simp add: htons_def)
  then show ?thesis by (simp add: htons_def [of "htons x"])
qed

text \<open>
  The port that the server listens on is the flag's value only below \<open>2 ^ 16\<close>: larger values are reduced without a
  message, and \<open>65536\<close> asks the system for any port.
\<close>

lemma main_port:
  "unat (htons (sin_port (main_address port))) = unat port mod 2 ^ 16"
  "sin_port (main_address 65536) = sin_port (main_address 0)"
proof -
  show "unat (htons (sin_port (main_address port))) = unat port mod 2 ^ 16"
    by (simp add: main_address_def unsigned_ucast_eq take_bit_eq_mod)
  have "(ucast (65536 :: u32) :: u16) = 0" by code_simp
  then show "sin_port (main_address 65536) = sin_port (main_address 0)"
    by (simp only: main_address_def sockaddr_in.simps) simp
qed

text \<open>The characters of a number are digits; a byte takes at most three.\<close>

lemma to_string_nat_chars:
  assumes "c \<in> set (to_string_nat n)"
  shows "(of_char c :: nat) \<in> {48..57}"
proof -
  obtain d where "d < 10" "c = digit_char d"
    using numeral_string_digits [of 10, OF _ assms] by auto
  then show ?thesis by (simp add: digit_char_def)
qed

lemma length_to_string_byte: "length (to_string_nat (unat (b :: byte))) \<le> 3"
  using unsigned_less [of b, where 'a = nat] by (simp add: numeral_string.simps)

lemma dotted_4: "dotted [a, b, c, d]
    = to_string_nat (unat a) @ CHR ''.'' # to_string_nat (unat b) @ CHR ''.'' # to_string_nat (unat c) @ CHR ''.'' # to_string_nat (unat d)"
  by (simp add: dotted_def)

lemma to_string_nat_no_dot: "CHR ''.'' \<notin> set (to_string_nat n)" "CHR 0x00 \<notin> set (to_string_nat n)"
  using to_string_nat_chars by force+

lemma dotted_4_inj: "dotted [a, b, c, d] = dotted [a', b', c', d'] \<longleftrightarrow> [a, b, c, d] = [a', b', c', d']"
  by (simp add: dotted_4 split_at_sep to_string_nat_no_dot numeral_string_inj word_unat_eq_iff)

lemma le_bytes_4_cases: obtains a b c d where "le_bytes 4 (x :: u32) = [a, b, c, d]"
  by (simp add: eval_nat_numeral)

text \<open>
  The address that the server logs for a connection is complete and tells clients apart: the four numbers of any
  address fit into the buffer of \<open>INET_ADDRSTRLEN\<close> characters with their terminating NUL, and two addresses
  have the same text only if they are equal.
\<close>

lemma client_address_complete:
  "getClientAddress client = dotted (le_bytes 4 (sin_addr client))
   \<and> length (getClientAddress client) < INET_ADDRSTRLEN
   \<and> (getClientAddress client = getClientAddress other \<longleftrightarrow> sin_addr client = sin_addr other)"
proof -
  have len: "length (dotted (le_bytes 4 (x :: u32))) < INET_ADDRSTRLEN" for x
  proof -
    obtain a b c d where "le_bytes 4 x = [a, b, c, d]" by (rule le_bytes_4_cases)
    then show ?thesis
      using length_to_string_byte [of a] length_to_string_byte [of b] length_to_string_byte [of c] length_to_string_byte [of d]
      by (simp add: dotted_4)
  qed
  have shown: "getClientAddress client = dotted (le_bytes 4 (sin_addr client))" for client
  proof -
    obtain a b c d where "le_bytes 4 (sin_addr client) = [a, b, c, d]" by (rule le_bytes_4_cases)
    then have "CHR 0x00 \<notin> set (dotted (le_bytes 4 (sin_addr client)))"
      by (simp add: dotted_4 to_string_nat_no_dot)
    from c_str_to_bytes [OF this] len [of "sin_addr client"] show ?thesis
      by (simp add: getClientAddress_def inet_ntop_def overwrite_def)
  qed
  obtain a b c d where 1: "le_bytes 4 (sin_addr client) = [a, b, c, d]" by (rule le_bytes_4_cases)
  obtain a' b' c' d' where 2: "le_bytes 4 (sin_addr other) = [a', b', c', d']" by (rule le_bytes_4_cases)
  have "getClientAddress client = getClientAddress other \<longleftrightarrow> le_bytes 4 (sin_addr client) = le_bytes 4 (sin_addr other)"
    unfolding shown 1 2 dotted_4_inj ..
  then show ?thesis
    using shown [of client] len [of "sin_addr client"] le_bytes_inj [of 4 "sin_addr client" "sin_addr other"] by simp
qed

text \<open>
  The identifier is never empty, so no log line names an anonymous client: it ends with the space that \<open>dispatchCommand\<close>
  puts before the missing name.
\<close>

lemma never_anonymous: "client_identifier threadId (c\<lparr>cl_connectionName := ''''\<rparr>) = threadId @ '' ''"
  by (simp add: client_identifier_simp)

end
