(* ===== verification/Spec2Isabelle.thy ===== *)
theory Spec2Isabelle
  imports Walks DispatchLoop Winsock Iteration Coherence Progress Protocol Kinds Addresses
begin

text \<open>
  A verification of \<^verbatim>\<open>ceserver-pcileech\<close>, a Cheat Engine server that reads the memory of another
  machine through MemProcFS (PCILeech).

  \<^bold>\<open>The program.\<close> \<^verbatim>\<open>main.cpp\<close> opens the memory adapter (\<^verbatim>\<open>Memory\<close>) and starts the server
  (\<^verbatim>\<open>Server\<close>). The server's thread accepts connections and gives each its own thread, which reads one
  command byte at a time and lets a \<^verbatim>\<open>Client\<close> object handle it. All connections share one handle table
  (\<^verbatim>\<open>ClientState\<close>) and one adapter. A read of target memory goes into a backlog; a dispatch thread forms
  batches of requests of one process, reads them from the device, and sets promises that the
  connection threads wait on. Snapshots, writes and queries call MemProcFS directly.

  \<^bold>\<open>The theories\<close>, in the order of their imports:

    \<^item> \<open>Prelude\<close>: machine types, faults, little-endian images of integers, C strings, decimal and hexadecimal
      numerals, unordered maps as association lists, iterated calls.
    \<^item> \<open>Wire\<close> (\<^verbatim>\<open>Commands.h\<close>, \<^verbatim>\<open>CommandsToString.h\<close>): command codes, the command table, the packed structures with
      their byte images and the readers of the packed layout.
    \<^item> \<open>Socket\<close> (\<^verbatim>\<open>SocketWrapper.h\<close>, \<^verbatim>\<open>LinuxSocketWrapper.cpp\<close>, \<^verbatim>\<open>WinsockWrapper.cpp\<close>): a connected stream socket as a
      record with a script of what the peer sends and when it arrives; the flags of \<open>recv\<close>; both wrappers.
    \<^item> \<open>Vmm\<close> (\<^verbatim>\<open>PCILeechWrapper.h\<close>): the MemProcFS library as a parameter, one function per call over an unknown
      device state, with a trace of the calls; and one concrete instance to evaluate on.
    \<^item> \<open>MemoryTypes\<close> (\<^verbatim>\<open>Memory.h\<close>): process and thread descriptions, memory regions, memory models.
    \<^item> \<open>ClientState\<close> (\<^verbatim>\<open>ClientState.h\<close>, \<^verbatim>\<open>ClientState.cpp\<close>): the handle table, its two snapshot tables with cursors as two
      interpretations of the locale \<open>cursor_table\<close>, and the interleaving of threads that draw and store handles.
    \<^item> \<open>Memory\<close> (\<^verbatim>\<open>Memory.cpp\<close>): the memory map file, which the system may refuse to write, opening and closing the
      device, snapshots, writing, memory model.
    \<^item> \<open>Backlog\<close> (\<^verbatim>\<open>Memory.h\<close>, \<^verbatim>\<open>Memory.cpp\<close>): requests and their keys, the loop that forms a batch, the sequential and the
      scatter reading of a batch.
    \<^item> \<open>Readers\<close> (\<^verbatim>\<open>Memory::read\<close>, \<open>dispatchLoop\<close>, \<open>dispatch\<close> together): the threads of the read path as a step
      relation with explicit stores for items and buffers; invariants, progress, starvation, the race on
      a released buffer; and \<open>read_mem\<close>, the read of an otherwise idle adapter.
    \<^item> \<open>DispatchLoop\<close> (\<^verbatim>\<open>Memory.h\<close>, \<^verbatim>\<open>Memory.cpp\<close>): the dispatch thread statement by statement, with the mutex, the condition
      variable, the back-off and \<open>shutdown\<close>; its runs are runs of \<open>Readers\<close>. Progress, and the lost wake-up.
    \<^item> \<open>Access\<close> (\<^verbatim>\<open>Memory.h\<close>, \<^verbatim>\<open>Memory.cpp\<close>): \<open>Memory::dispatch\<close> cut into its device calls, in a task that holds the binary
      semaphore, beside \<open>Memory::write\<close>, which takes it too, and the snapshot calls, which do not. Mutual
      exclusion of batches and writes, freshness of what a read returns, the end of a batch, the buffers that leak.
    \<^item> \<open>Client\<close> (\<^verbatim>\<open>Client.h\<close>, \<^verbatim>\<open>Client.cpp\<close>): every command handler and \<open>dispatchCommand\<close>, over the adapter's virtual methods.
    \<^item> \<open>Handlers\<close>: what each handler does on an open connection, branch by branch; the locale \<open>memory_interface\<close>
      states what the memory commands rely on; \<open>table_op\<close> what a command may do to the handle table, and which handle it may close.
    \<^item> \<open>Adapter\<close>: \<^verbatim>\<open>Memory\<close>'s methods as an instance of that interface.
    \<^item> \<open>Descriptors\<close> (\<^verbatim>\<open>LinuxSocketWrapper.cpp\<close>, \<^verbatim>\<open>WinsockWrapper.cpp\<close>, \<^verbatim>\<open>Server.cpp\<close>): the wrappers as owners of descriptors that the
      system hands out again, from accepting to the destructor: who owns which, and the double close. The other system
      calls are values of \<open>sock_call\<close> with their arguments.
    \<^item> \<open>Winsock\<close> (\<^verbatim>\<open>WinsockWrapper.h\<close>, \<^verbatim>\<open>WinsockWrapper.cpp\<close>): the Windows wrapper over its own handles and error codes; its
      operations agree with their counterparts on descriptors and make the system calls they are named after. Not
      compared are \<open>recvNonBlocking\<close>, \<open>lastError\<close> and \<open>lastErrorMsg\<close>, where the wrappers differ. The texts of errors.
    \<^item> \<open>Addresses\<close> (\<^verbatim>\<open>Client.cpp\<close>, \<^verbatim>\<open>main.cpp\<close>): the address and the identifier of a client in the log, the address bound.
    \<^item> \<open>Objects\<close> (\<^verbatim>\<open>ClientState.cpp\<close>): the specification of the handle table, one map from handles to opened processes and
      snapshots with positions, and the refinement of every operation of \<open>ClientState\<close>.
    \<^item> \<open>Server\<close> (\<^verbatim>\<open>Server.h\<close>, \<^verbatim>\<open>Server.cpp\<close>, \<^verbatim>\<open>main.cpp\<close>): the loop of a connection, accepting, starting and joining, the
      connections side by side, and the program.
    \<^item> \<open>Walks\<close>: sessions in which a client takes a snapshot, walks it and closes it; the locale \<open>served_cursor\<close> extends
      \<open>cursor_table\<close> by the rounds of a connection, with processes and modules as its two interpretations.
    \<^item> \<open>Protocol\<close> (\<^verbatim>\<open>Client.cpp\<close>, \<^verbatim>\<open>Server.cpp\<close>): the protocol as a specification: requests as a datatype with their encoding, what
      each is answered and does to the table of \<open>Objects\<close>, sessions of requests; as long as \<open>bStop\<close> is not seen set, a connection's loop refines it.
    \<^item> \<open>Kinds\<close> (\<^verbatim>\<open>ClientState.cpp\<close>, \<^verbatim>\<open>Server.cpp\<close>): what a handle stands for changes in a running server only when it is
      drawn and when a client asks to close it.
    \<^item> \<open>Composition\<close> (\<^verbatim>\<open>Server.cpp\<close>, \<^verbatim>\<open>Client.cpp\<close>, \<^verbatim>\<open>Memory.cpp\<close>): connections and adapter at the grain of \<open>Access\<close>: threads are inside
      \<open>Memory::read\<close> and \<open>Memory::write\<close> while others are served. A reply to a read is fresh, an acknowledged
      write was done, in every interleaving; a handle closed between its check and its lookup redirects a write.
    \<^item> \<open>Coherence\<close>: what that means for clients: a write that was acknowledged is what later reads return, on every
      connection. The library's part, for the range in question, is the hypothesis \<open>coherent\<close>.
    \<^item> \<open>Progress\<close>: the adapter's own steps come to rest, and at rest every thread that is inside a call can return.
    \<^item> \<open>Iteration\<close> (\<^verbatim>\<open>Client.cpp\<close>, \<^verbatim>\<open>ClientState.cpp\<close>): \<open>handleCommandIterateProcessesNext\<close> cut into the sections that hold the table's mutex,
      interleaved between connections: every entry is handed out once, and a close from another connection
      invalidates the entry that a handler is about to send.

  \<^bold>\<open>Correspondence.\<close> A definition has the name of the C++ function or type it models (record fields carry a short
  prefix; \<open>write_mem\<close>, \<open>read_mem\<close> and \<open>poll_handle\<close> are \<open>Memory::write\<close>, \<open>Memory::read\<close> and the loop of
  \<open>handleCommandGetArchitecture\<close>). Integers have their C++ width. State is passed explicitly. What leaves the
  defined behaviour of C++ or never returns is a value of type \<open>fault\<close>: an array size that \<open>new\<close> rejects, an
  access outside a buffer, a use of released memory, a wait that has no end. Logging has no counterpart, except that the path of \<open>CMD_GETSYMBOLLISTFROMFILE\<close>, which is
  logged without a terminating zero, is read behind its end.

  \<^bold>\<open>Assumptions.\<close> The MemProcFS library is unconstrained, except that an output buffer receives no more bytes than
  the length that was passed with it; and in \<open>Coherence\<close> that a range of memory is read, written and otherwise
  left alone as its documentation says. The system clock, the contents of uninitialised memory, the order of
  unordered maps, what the system answers to socket calls and whether it writes a file, the schedule of the threads
  and the peer are parameters. \<open>int\<close> arithmetic wraps; handles
  stay below the point where that matters for the first \<open>2 ^ 31 - 1\<close> of them, and the properties on handles say so.

  \<^bold>\<open>Loops.\<close> Loops over containers are structural recursion or folds. \<open>numeral_string\<close> recurses on a decreasing
  number. \<open>poll_handle\<close> recurses on the list of clock readings; a list that contains the deadline is shown to
  be enough. The connection's loop is a \<open>partial_function\<close>, since it may run for ever: after an orderly
  shutdown of the peer it is shown to, and once \<open>bStop\<close> is set it is shown to return. The dispatch loop is a step
  relation; \<open>batch_distance\<close> and \<open>exit_distance\<close> bound its way to the next batch and to its end by nine steps, and
  \<open>task_distance\<close> the way of a batch to the release of the semaphore; \<open>work_left\<close> bounds what the adapter does until it
  is at rest. The back-off recurses on the readings of its rounds; two rounds are shown to be enough.

  \<^bold>\<open>Not modelled\<close>: flag parsing and logging, apart from the texts in \<open>Addresses\<close> and \<open>Winsock\<close>; the structure
  \<^verbatim>\<open>CeVirtualQueryExFullOutput\<close> and the call \<^verbatim>\<open>VMMDLL_Map_GetModuleU\<close>, which are used nowhere. \<open>CMD_GETARCHITECTURE\<close> is
  modelled and has its own properties, but is not a request of \<open>Protocol\<close>: its answer depends on the platform and
  on when bytes arrive. \<open>Readers\<close> takes a dispatch as a single step; \<open>Access\<close> cuts it into its calls.

  This theory holds the properties that span the server, the handlers and the adapter; those of a single
  component stand at the end of its theory.
\<close>


section \<open>A session\<close>

text \<open>
  A client that opens a process and reads from it in one go. The server answers the open with the next
  handle, and the read on that handle with the count and the bytes that the adapter read from the
  opened process; the loop has consumed exactly the two requests.
\<close>

lemma open_and_read:
  assumes "open_connection c" "unat (lastHandleID (cl_state c)) < 2 ^ 31 - 1" "h = lastHandleID (cl_state c) + 1"
    and "a \<noteq> 0" "n \<noteq> 0" "read_mem api copied (cl_memory c) p a (ucast n) = Inr ((r, bs), M)"
  shows "\<exists>st. handleClientConnection (\<lambda>k. 2 \<le> k) (Memory_ops api copied) E 0
      (exchange (CMD_OPENPROCESS # le_bytes 4 p @ CMD_READPROCESSMEMORY # read_request h a n 0 @ rest) out c)
    = Some (Inr (exchange rest (out @ le_bytes 4 h @ le_bytes 4 (ucast r :: u32) @ bs) (c\<lparr>cl_state := st, cl_memory := M\<rparr>)))
    \<and> getProcessID st h = p"
proof -
  let ?ops = "Memory_ops api copied"
  let ?st = "(cl_state c)\<lparr>lastHandleID := h, handlesToProcessIDs := umap_assign h p (handlesToProcessIDs (cl_state c))\<rparr>"
  let ?c = "c\<lparr>cl_state := ?st\<rparr>"
  let ?req = "read_request h a n 0"
  have st: "storeOpenProcess (cl_state c) p = (h, ?st)"
    using generateHandle_step(1) [OF assms(2)] assms(3) by (simp add: storeOpenProcess_def storeOpenProcess_at_def)
  have h: "containsProcessIDHandle ?st h" "getProcessID ?st h = p"
    by (simp_all add: client_state_defs umap_contains_def umap_simps)
  have bs: "(if r = 0 then le_bytes 4 (0 :: u32) else le_bytes 4 (ucast r :: u32) @ bs) = le_bytes 4 (ucast r :: u32) @ bs"
    using read_mem_bounded [OF assms(6)] by auto
  have r1: "connection_round ?ops (E 0) (exchange (CMD_OPENPROCESS # le_bytes 4 p @ CMD_READPROCESSMEMORY # ?req @ rest) out c)
      = Inr (True, exchange (CMD_READPROCESSMEMORY # ?req @ rest) (out @ le_bytes 4 h) ?c)"
    using assms(1) OpenProcess_exchange [OF assms(1) st]
    by (simp add: connection_round_command dispatchCommand_def)
  have "handleCommandReadProcessMemory ?ops (exchange (?req @ rest) (out @ le_bytes 4 h) ?c)
      = Inr (True, exchange rest (out @ le_bytes 4 h @ le_bytes 4 (ucast r :: u32) @ bs) (?c\<lparr>cl_memory := M\<rparr>))"
    using ReadProcessMemory_exchange [of ?c ?ops h a n 0 rest "out @ le_bytes 4 h"] assms(1,4,5,6) h bs
    by (simp add: Memory_ops_def)
  then have r2: "connection_round ?ops (E 1) (exchange (CMD_READPROCESSMEMORY # ?req @ rest) (out @ le_bytes 4 h) ?c)
      = Inr (True, exchange rest (out @ le_bytes 4 h @ le_bytes 4 (ucast r :: u32) @ bs) (c\<lparr>cl_state := ?st, cl_memory := M\<rparr>))"
    using assms(1) by (simp add: connection_round_command dispatchCommand_def)
  have "handleClientConnection (\<lambda>k. 2 \<le> k) ?ops E 0
      (exchange (CMD_OPENPROCESS # le_bytes 4 p @ CMD_READPROCESSMEMORY # ?req @ rest) out c)
    = Some (Inr (exchange rest (out @ le_bytes 4 h @ le_bytes 4 (ucast r :: u32) @ bs) (c\<lparr>cl_state := ?st, cl_memory := M\<rparr>)))"
    using r1 r2 by (simp add: handleClientConnection_step handleClientConnection_stop)
  with h(2) show ?thesis by blast
qed

section \<open>Writing and reading back\<close>

text \<open>
  What a client writes it reads back. A client writes bytes to an address of an opened process and reads the same range
  in its next request. Where the device accepts the write and keeps what was written to the range, the
  two replies are the size, and the size with the bytes; of the connection nothing but the adapter has
  changed.
\<close>

lemma written_is_read:
  assumes "open_connection c" "containsProcessIDHandle (cl_state c) h" "getProcessID (cl_state c) h = p"
    and "cl_memory c = M" "dispatchThread M = Running" "\<not> bStop M" "copied (Suc (length (calls (device M))))"
    and "a \<noteq> 0" "bs \<noteq> []" "length bs < unat MAX_BYTES_PER_DISPATCH"
    and "n = word_of_nat (length bs)"
    and "api_MemWrite api (dev (device M)) (hVMM M) p a bs n = (w, d)" "w \<noteq> 0"
    and "api_MemReadEx api d (hVMM M) p a n (scatterFlags api) = (r, bs, n, d')"
  shows "\<exists>M'. handleClientConnection (\<lambda>k. 2 \<le> k) (Memory_ops api copied) E 0
      (exchange (CMD_WRITEPROCESSMEMORY # write_request h a bs @ CMD_READPROCESSMEMORY # read_request h a n 0 @ rest) out c)
    = Some (Inr (exchange rest (out @ le_bytes 4 n @ le_bytes 4 n @ bs) (c\<lparr>cl_memory := M'\<rparr>)))
    \<and> dev (device M') = d'"
proof -
  let ?ops = "Memory_ops api copied" and ?n = "word_of_nat (length bs) :: u64"
  let ?read = "CMD_READPROCESSMEMORY # read_request h a n 0 @ rest"
  have len: "length bs < 1000000000" "unat n = length bs" "unat ?n = length bs" "ucast n = ?n" "ucast ?n = n"
    using assms(10,11) by (simp_all add: MAX_BYTES_PER_DISPATCH_def unat_of_nat word_unat_eq_iff unsigned_ucast_eq take_bit_nat_eq_self_iff)
  have n0: "n \<noteq> 0" "?n \<noteq> 0"
    using len assms(9) by (metis length_0_conv unat_0)+
  let ?M1 = "M\<lparr>device := called (device M) (Call_MemWrite (hVMM M) p a bs n) d\<rparr>"
  have w: "mo_write ?ops (cl_memory c) bs (getProcessID (cl_state c) h) a ?n = (?n, ?M1)"
    using assms(3,4,12,13) len(5) by (simp add: Memory_ops_def write_mem_def VMMDLL_MemWrite_def)
  have "sequential_read api (hVMM M) p (device ?M1) (new_BacklogItem p a ?n)
      = ((?n, bs), called (device ?M1) (Call_MemReadEx (hVMM M) p a n (scatterFlags api)) d')"
    using assms(14) len
    by (simp add: sequential_read_def VMMDLL_MemReadEx_def new_BacklogItem_def promise_buffer_def overwrite_def called_def)
  then have rd: "read_mem api copied ?M1 p a ?n = Inr ((?n, bs),
      ?M1\<lparr>device := VMMDLL_MemFree (called (device ?M1) (Call_MemReadEx (hVMM M) p a n (scatterFlags api)) d') PromiseBuffer\<rparr>)"
    (is "_ = Inr (_, ?M2)")
    using assms(5-7) len by (simp add: read_mem_def word_less_nat_alt word_le_nat_alt MAX_BYTES_PER_DISPATCH_def called_def)
  have "handleCommandWriteProcessMemory ?ops (E 0) (exchange (write_request h a bs @ ?read) out c)
      = Inr (True, exchange ?read (out @ le_bytes 4 n) (c\<lparr>cl_memory := ?M1\<rparr>))"
    using WriteProcessMemory_exchange [OF assms(1) _ w, of "E 0" ?read out] assms(2) len by simp
  then have r1: "connection_round ?ops (E 0) (exchange (CMD_WRITEPROCESSMEMORY # write_request h a bs @ ?read) out c)
      = Inr (True, exchange ?read (out @ le_bytes 4 n) (c\<lparr>cl_memory := ?M1\<rparr>))"
    using assms(1) by (simp add: connection_round_command dispatchCommand_def)
  have "handleCommandReadProcessMemory ?ops (exchange (read_request h a n 0 @ rest) (out @ le_bytes 4 n) (c\<lparr>cl_memory := ?M1\<rparr>))
      = Inr (True, exchange rest (out @ le_bytes 4 n @ le_bytes 4 n @ bs) (c\<lparr>cl_memory := ?M2\<rparr>))"
    using ReadProcessMemory_exchange [of "c\<lparr>cl_memory := ?M1\<rparr>" ?ops h a n 0 rest "out @ le_bytes 4 n"] assms(1,2,3,8) rd n0 len
    by (simp add: Memory_ops_def)
  then have r2: "connection_round ?ops (E 1) (exchange ?read (out @ le_bytes 4 n) (c\<lparr>cl_memory := ?M1\<rparr>))
      = Inr (True, exchange rest (out @ le_bytes 4 n @ le_bytes 4 n @ bs) (c\<lparr>cl_memory := ?M2\<rparr>))"
    using assms(1) by (simp add: connection_round_command dispatchCommand_def)
  have "dev (device ?M2) = d'"
    by (simp add: called_def VMMDLL_MemFree_def)
  then show ?thesis
    using r1 r2 by (intro exI [of _ ?M2]) (simp add: handleClientConnection_step handleClientConnection_stop)
qed

section \<open>The architecture query on Windows\<close>

text \<open>
  C38: on Windows a client that asks for the architecture of a process loses its connection: the query is answered,
  but it leaves the socket in non-blocking mode, where the next attempt to receive a command, with
  \<^verbatim>\<open>MSG_WAITALL\<close>, fails whether or not the command has arrived; the thread then closes the socket.
\<close>

theorem architecture_query_hangs_up:
  assumes "open_connection c" "env_platform (E 0) = Windows" "env_clock (E 0) = now # clock"
    and "handle_arrived (cl_socket c)" "containsProcessIDHandle (cl_state c) h"
    and "mo_getMemoryModel ops (cl_memory c) (getProcessID (cl_state c) h) = (model, m)"
  shows "\<exists>c'. handleClientConnection (\<lambda>k. False) ops E 0 (exchange (CMD_GETARCHITECTURE # le_bytes 4 h @ rest) out c)
      = Some (Inr c')
    \<and> sk_closed (cl_socket c') \<and> sk_in (cl_socket c') = rest
    \<and> sk_out (cl_socket c') = sk_out (cl_socket c) @ out @ [getArchitectureFromMemoryModel model]"
proof -
  from GetArchitecture_windows [OF assms(1-6), of rest out] obtain c1 where
      c1: "handleCommandGetArchitecture ops (E 0) (exchange (le_bytes 4 h @ rest) out c) = Inr (True, c1)"
      "sk_in (cl_socket c1) = rest" "sk_nonblocking (cl_socket c1)" "\<not> sk_closed (cl_socket c1)"
      "sk_out (cl_socket c1) = sk_out (cl_socket c) @ out @ [getArchitectureFromMemoryModel model]"
    by auto
  have r1: "connection_round ops (E 0) (exchange (CMD_GETARCHITECTURE # le_bytes 4 h @ rest) out c) = Inr (True, c1)"
    using assms(1) c1(1) by (simp add: connection_round_command dispatchCommand_def)
  let ?s = "(cl_socket c1)\<lparr>sk_errno := E_OTHER 10045\<rparr>"
  have r2: "connection_round ops (E 1) c1 = Inr (False, close_client (c1\<lparr>cl_socket := ?s\<rparr>))"
    using c1 by (simp add: connection_round_def recv_def os_recv_def)
  have "handleClientConnection (\<lambda>k. False) ops E 0 (exchange (CMD_GETARCHITECTURE # le_bytes 4 h @ rest) out c)
      = Some (Inr (close_client (c1\<lparr>cl_socket := ?s\<rparr>)))"
    using r1 r2 by (simp add: handleClientConnection_step handleClientConnection_last)
  then show ?thesis
    using c1 by (simp add: close_client_def os_close_def)
qed

theorem architecture_query_hangs_up_witness:
  "\<exists>c'. handleClientConnection (\<lambda>k. False) echo_ops (\<lambda>k. plain_env Windows) 0
       (exchange (CMD_GETARCHITECTURE # le_bytes 4 (1 :: handle) @ [0]) [] (opened_client\<lparr>cl_socket := plain_socket\<lparr>sk_arrived := [4, 0]\<rparr>\<rparr>))
     = Some (Inr c') \<and> sk_closed (cl_socket c') \<and> sk_in (cl_socket c') = [0]"
proof -
  let ?c = "opened_client\<lparr>cl_socket := plain_socket\<lparr>sk_arrived := [4, 0]\<rparr>\<rparr>"
  have c: "open_connection ?c" "handle_arrived (cl_socket ?c)" "containsProcessIDHandle (cl_state ?c) 1"
      "mo_getMemoryModel echo_ops (cl_memory ?c) (getProcessID (cl_state ?c) 1) = (MemoryModel_X64, 0)"
    using opened_client_simps by (simp_all add: open_connection_def connected_def plain_socket_def echo_ops_def handle_arrived_def)
  have "env_platform (plain_env Windows) = Windows" "env_clock (plain_env Windows) = 0 # [1000]"
    by (simp_all add: plain_env_def)
  from architecture_query_hangs_up [OF c(1), of "\<lambda>k. plain_env Windows", OF this c(2-4), of "[0]" "[]"] show ?thesis
    by blast
qed

section \<open>Listing the processes of the target\<close>

text \<open>
  C12: a client lists the processes of the target machine, from the device to the wire. It takes a snapshot, walks it
  and closes it. The server answers with the processes of the device's process list that have an image
  path, with their ids and paths, in order and each once, then end-of-list entries. Of what the library
  allocated only the list of ids is freed: the strings with the paths leak.
\<close>

theorem target_processes_listed:
  assumes "open_connection c" "cs_inv (cl_state c)" "flags AND TH32CS_SNAPPROCESS \<noteq> 0" "cl_memory c = M"
    and "VMMDLL_PidList api (device M) (hVMM M) False 0 = (True, ignored, k, D1)"
    and "VMMDLL_PidList api D1 (hVMM M) True k = (True, pids, k', D2)" "unat k' = length pids" "length pids < 2 ^ 31"
    and "\<And>d p. api_ProcessGetInformationString api d (hVMM M) p (VMMDLL_OPT_STRING_PATH_USER_IMAGE api) = (path p, d)"
    and "length (filter (\<lambda>p. path p \<noteq> None) pids) + extra = Suc n"
    and "unat (lastHandleID (cl_state c)) < 2 ^ 31 - 1" "h = lastHandleID (cl_state c) + 1" "process_cursor (cl_state c) h = None"
  shows "\<exists>st M'. handleClientConnection (\<lambda>k. n + 3 \<le> k) (Memory_ops api copied) E 0
      (exchange (CMD_CREATETOOLHELP32SNAPSHOT # le_bytes 4 flags @ le_bytes 4 (0 :: pid) @ next_requests CMD_PROCESS32FIRST h 1
         @ next_requests CMD_PROCESS32NEXT h n @ CMD_CLOSEHANDLE # le_bytes 4 h @ rest) out c)
    = Some (Inr (exchange rest
        (out @ le_bytes 4 h
         @ concat (map (\<lambda>p. process_entry True p (c_str (to_bytes (the (path p))))) (filter (\<lambda>p. path p \<noteq> None) pids))
         @ concat (replicate extra (process_entry False 0 '''')) @ le_bytes 4 (1 :: u32))
        (c\<lparr>cl_memory := M', cl_state := st\<rparr>)))
    \<and> calls (device M') = calls D2
        @ map (\<lambda>p. Call_ProcessGetInformationString (hVMM M) p (VMMDLL_OPT_STRING_PATH_USER_IMAGE api)) pids @ [Call_MemFree PidBuffer]"
proof -
  let ?ps = "map (\<lambda>p. \<lparr>pi_name = the (path p), pi_pid = p\<rparr>) (filter (\<lambda>p. path p \<noteq> None) pids)"
  obtain M' where M': "getProcessSnapshot api M = Inr (?ps, M')"
      "calls (device M') = calls D2
        @ map (\<lambda>p. Call_ProcessGetInformationString (hVMM M) p (VMMDLL_OPT_STRING_PATH_USER_IMAGE api)) pids @ [Call_MemFree PidBuffer]"
    using process_snapshot_lists [of api M, OF assms(5-7,9)] by blast
  have snap: "mo_getProcessSnapshot (Memory_ops api copied) (cl_memory c) = Inr (?ps, M')"
    using M'(1) assms(4) by (simp add: Memory_ops_def)
  have len: "length ?ps < 2 ^ 31" "length ?ps + extra = Suc n"
    using assms(10) le_less_trans [OF length_filter_le assms(8)] by simp_all
  have reply: "concat (map (process_reply \<circ> Some) ?ps)
      = concat (map (\<lambda>p. process_entry True p (c_str (to_bytes (the (path p))))) (filter (\<lambda>p. path p \<noteq> None) pids))"
    by (simp add: process_reply_def comp_def)
  from process_walks.session [OF assms(1-3) snap len generateHandle_step(1) [OF assms(11), folded assms(12)] assms(13),
      of "\<lambda>k. n + 3 \<le> k" E 0 rest out] show ?thesis
    using M'(2) reply by (auto simp: process_reply_def)
qed

theorem target_processes_listed_witness:
  "\<exists>st M'. handleClientConnection (\<lambda>k. 4 \<le> k) (Memory_ops flat_api (\<lambda>k. True)) (\<lambda>k. plain_env Linux) 0
      (exchange (CMD_CREATETOOLHELP32SNAPSHOT # le_bytes 4 (2 :: u32) @ le_bytes 4 (0 :: pid) @ next_requests CMD_PROCESS32FIRST 2 1
         @ next_requests CMD_PROCESS32NEXT 2 1 @ CMD_CLOSEHANDLE # le_bytes 4 (2 :: handle) @ []) [] flat_client)
    = Some (Inr (exchange []
        (le_bytes 4 (2 :: handle) @ process_entry True 4 ''a.exe'' @ process_entry False 0 '''' @ le_bytes 4 (1 :: u32))
        (flat_client\<lparr>cl_memory := M', cl_state := st\<rparr>)))"
proof -
  let ?M = "cl_memory flat_client"
  have c: "cs_inv (cl_state flat_client)" "(2 :: u32) AND TH32CS_SNAPPROCESS \<noteq> 0"
    "lastHandleID (cl_state flat_client) = 1" "process_cursor (cl_state flat_client) 2 = None"
    by (simp_all add: flat_client_def new_ClientState_def cs_inv_def cursors_ok_def cursor_of_def process_cursor_def umap_ok_def)
  have d: "VMMDLL_PidList flat_api (device ?M) (hVMM ?M) False 0
      = (True, [], 1, called (device ?M) (Call_PidList (hVMM ?M) False 0) (dev (device ?M)))"
    "VMMDLL_PidList flat_api D (hVMM ?M) True 1 = (True, [4], 1, called D (Call_PidList (hVMM ?M) True 1) (dev D))" for D
    by (simp_all add: VMMDLL_PidList_def flat_api_def)
  have path: "api_ProcessGetInformationString flat_api d (hVMM ?M) p (VMMDLL_OPT_STRING_PATH_USER_IMAGE flat_api)
      = ((\<lambda>p. Some ''a.exe'') p, d)" for d p
    by (simp add: flat_api_def)
  have str: "c_str (to_bytes ''a.exe'') = ''a.exe''"
    using c_str_to_bytes [of "''a.exe''" "[]"] by (simp add: c_str_def to_bytes_def)
  from target_processes_listed [OF flat_client_simps(1) c(1,2) refl d(1) d(2) _ _ path,
      of 1 1 2 "\<lambda>k. True" "\<lambda>k. plain_env Linux" "[]" "[]"] c(3,4) str show ?thesis
    by auto
qed

section \<open>Listing the memory regions of a process\<close>

text \<open>
  C13: a client lists the modules of a process of the target, from the device to the wire. It takes a snapshot, walks it
  and closes it. Every region of the process's address space is answered as a module, in order and each once,
  with its start, the low 32 bits of its length and its name, which for a region without text is made up
  from its kind; then end-of-list entries. The library's map is freed, and no other snapshot is touched.
\<close>

theorem target_modules_listed:
  assumes "open_connection c" "cs_inv (cl_state c)" "flags AND TH32CS_SNAPPROCESS = 0" "flags AND TH32CS_SNAPMODULE \<noteq> 0"
    and "cl_memory c = M" "VMMDLL_Map_GetVadU api (device M) (hVMM M) p True = (True, vads, D)"
    and "length vads < 2 ^ 31" "length vads + extra = Suc n"
    and "unat (lastHandleID (cl_state c)) < 2 ^ 31 - 1" "h = lastHandleID (cl_state c) + 1" "module_cursor (cl_state c) h = None"
  shows "\<exists>st. handleClientConnection (\<lambda>k. n + 3 \<le> k) (Memory_ops api copied) E 0
      (exchange (CMD_CREATETOOLHELP32SNAPSHOT # le_bytes 4 flags @ le_bytes 4 p @ next_requests CMD_MODULE32FIRST h 1
         @ next_requests CMD_MODULE32NEXT h n @ CMD_CLOSEHANDLE # le_bytes 4 h @ rest) out c)
    = Some (Inr (exchange rest
        (out @ le_bytes 4 h
         @ concat (map (\<lambda>e. module_entry True (vaStart e) 0 (ucast (vaEnd e - vaStart e + 1)) (region_name e)) vads)
         @ concat (replicate extra (module_entry False 0 0 0 '''')) @ le_bytes 4 (1 :: u32))
        (c\<lparr>cl_memory := M\<lparr>device := VMMDLL_MemFree D VadMap\<rparr>, cl_state := st\<rparr>)))
    \<and> cs_inv st \<and> module_cursor st = module_cursor (cl_state c)"
proof -
  have "getModuleSnapshot api M p = (map MemoryRegion_of vads, M\<lparr>device := VMMDLL_MemFree D VadMap\<rparr>)"
    by (simp add: getModuleSnapshot_def assms(6))
  then have snap: "Inr (mo_getModuleSnapshot (Memory_ops api copied) (cl_memory c) p)
      = (Inr (map MemoryRegion_of vads, M\<lparr>device := VMMDLL_MemFree D VadMap\<rparr>) :: fault + _)"
    using assms(5) by (simp add: Memory_ops_def)
  have reply: "module_reply \<circ> Some \<circ> MemoryRegion_of
      = (\<lambda>e. module_entry True (vaStart e) 0 (ucast (vaEnd e - vaStart e + 1)) (region_name e))"
    by (simp add: fun_eq_iff module_reply_def region_entry_def MemoryRegion_of_def)
  have none: "module_reply None = module_entry False 0 0 0 ''''"
    by (simp add: module_reply_def)
  from module_walks.session [OF assms(1,2) conjI [OF assms(3,4)] snap _ _ generateHandle_step(1) [OF assms(9), folded assms(10)] assms(11),
      of extra n "\<lambda>k. n + 3 \<le> k" E rest out] show ?thesis
    using assms(7,8) by (simp add: reply none)
qed

theorem target_modules_listed_witness:
  "\<exists>st M. handleClientConnection (\<lambda>k. 4 \<le> k) (Memory_ops flat_api (\<lambda>k. True)) (\<lambda>k. plain_env Linux) 0
      (exchange (CMD_CREATETOOLHELP32SNAPSHOT # le_bytes 4 (8 :: u32) @ le_bytes 4 (4 :: pid) @ next_requests CMD_MODULE32FIRST 2 1
         @ next_requests CMD_MODULE32NEXT 2 1 @ CMD_CLOSEHANDLE # le_bytes 4 (2 :: handle) @ []) [] flat_client)
    = Some (Inr (exchange []
        (le_bytes 4 (2 :: handle) @ module_entry True 0x1000 0 0x1000 ''a.exe'' @ module_entry False 0 0 0 '''' @ le_bytes 4 (1 :: u32))
        (flat_client\<lparr>cl_memory := M, cl_state := st\<rparr>)))"
proof -
  let ?M = "cl_memory flat_client"
  have c: "cs_inv (cl_state flat_client)" "lastHandleID (cl_state flat_client) = 1" "module_cursor (cl_state flat_client) 2 = None"
    by (simp_all add: flat_client_def new_ClientState_def cs_inv_def cursors_ok_def cursor_of_def module_cursor_def umap_ok_def)
  have flags: "(8 :: u32) AND TH32CS_SNAPPROCESS = 0" "(8 :: u32) AND TH32CS_SNAPMODULE \<noteq> 0"
    by simp_all
  have vads: "VMMDLL_Map_GetVadU flat_api (device ?M) (hVMM ?M) 4 True
      = (True, [flat_vad], called (device ?M) (Call_Map_GetVadU (hVMM ?M) 4 True) (dev (device ?M)))"
    by (simp add: VMMDLL_Map_GetVadU_def flat_api_def)
  have vad: "vaStart flat_vad = 0x1000" "vaEnd flat_vad = 0x1FFF" "region_name flat_vad = ''a.exe''"
    by (simp_all add: flat_vad_def region_name_def)
  have n: "length [flat_vad] < 2 ^ 31" "length [flat_vad] + 1 = Suc 1" "unat (lastHandleID (cl_state flat_client)) < 2 ^ 31 - 1"
      "2 = lastHandleID (cl_state flat_client) + 1"
    by (simp_all add: c(2))
  obtain st where "handleClientConnection (\<lambda>k. 1 + 3 \<le> k) (Memory_ops flat_api (\<lambda>k. True)) (\<lambda>k. plain_env Linux) 0
      (exchange (CMD_CREATETOOLHELP32SNAPSHOT # le_bytes 4 (8 :: u32) @ le_bytes 4 (4 :: pid) @ next_requests CMD_MODULE32FIRST 2 1
         @ next_requests CMD_MODULE32NEXT 2 1 @ CMD_CLOSEHANDLE # le_bytes 4 (2 :: handle) @ []) [] flat_client)
    = Some (Inr (exchange []
        ([] @ le_bytes 4 (2 :: handle)
         @ concat (map (\<lambda>e. module_entry True (vaStart e) 0 (ucast (vaEnd e - vaStart e + 1)) (region_name e)) [flat_vad])
         @ concat (replicate 1 (module_entry False 0 0 0 '''')) @ le_bytes 4 (1 :: u32))
        (flat_client\<lparr>cl_memory := ?M\<lparr>device := VMMDLL_MemFree (called (device ?M) (Call_Map_GetVadU (hVMM ?M) 4 True) (dev (device ?M))) VadMap\<rparr>,
          cl_state := st\<rparr>)))"
    using target_modules_listed [OF flat_client_simps(1) c(1) flags refl vads n c(3)] by blast
  moreover have "concat (map (\<lambda>e. module_entry True (vaStart e) 0 (ucast (vaEnd e - vaStart e + 1)) (region_name e)) [flat_vad])
      = module_entry True 0x1000 0 0x1000 ''a.exe''"
    by (simp add: vad)
  ultimately show ?thesis
    by (intro exI [of _ st] exI) simp
qed

end
